(* ===== verification/Prelude.thy ===== *)
theory Prelude
  imports Main "HOL-Library.Word" "HOL-Library.List_Lexorder" "HOL-Library.Char_ord"
begin

text \<open>
  What every theory of the development shares: the two theorem collections, Go's errors
  and byte strings, lemmas on lists that the components' loops use, and Go's idiom of
  filtering a slice into its own backing array (\<open>out := rows[:0]\<close>).
\<close>

named_theorems iter "equations that turn an iterator into the list it yields"
named_theorems golib "evaluation equations of the modelled standard library"

section \<open>Errors\<close>

text \<open>
  A Go error is either built by \<open>fmt.Errorf\<close>, kept here as its format string with its
  arguments, or comes from a library. A wrapped error (\<open>%w\<close>) is an \<open>E\<close> argument.
\<close>

datatype error = Errorf string "fmt_arg list" | LibErr string "string list"
  and fmt_arg = S string | I int | E error

section \<open>Byte strings\<close>

text \<open>
  Go strings are byte sequences, compared bytewise; \<open>string\<close> (a list of 8-bit
  characters) is the same, with the order of \<open>List_Lexorder\<close>.
\<close>

abbreviation byte :: "char \<Rightarrow> int" where
  "byte c \<equiv> of_char c"

abbreviation char_in :: "char \<Rightarrow> char \<Rightarrow> char \<Rightarrow> bool" where
  "char_in lo c hi \<equiv> byte lo \<le> byte c \<and> byte c \<le> byte hi"

definition index_byte :: "string \<Rightarrow> char \<Rightarrow> nat option" where
  "index_byte s c = (let n = length (takeWhile (\<lambda>x. x \<noteq> c) s)
     in if n < length s then Some n else None)"

definition last_index_byte :: "string \<Rightarrow> char \<Rightarrow> nat option" where
  "last_index_byte s c = map_option (\<lambda>n. length s - Suc n) (index_byte (rev s) c)"

definition has_prefix :: "string \<Rightarrow> string \<Rightarrow> bool" where
  "has_prefix s p \<longleftrightarrow> take (length p) s = p"

definition has_suffix :: "string \<Rightarrow> string \<Rightarrow> bool" where
  "has_suffix s p \<longleftrightarrow> length p \<le> length s \<and> drop (length s - length p) s = p"

definition trim_prefix :: "string \<Rightarrow> string \<Rightarrow> string" where
  "trim_prefix s p = (if has_prefix s p then drop (length p) s else s)"

definition trim_suffix :: "string \<Rightarrow> string \<Rightarrow> string" where
  "trim_suffix s p = (if has_suffix s p then take (length s - length p) s else s)"

lemma index_byte_SomeD:
  assumes "index_byte s c = Some n"
  shows "n < length s" "s ! n = c" "c \<notin> set (take n s)"
proof -
  let ?P = "\<lambda>x. x \<noteq> c"
  from assms have n: "n = length (takeWhile ?P s)" and l: "n < length s"
    by (auto simp: index_byte_def Let_def split: if_splits)
  show "n < length s" by (rule l)
  show "s ! n = c" using nth_length_takeWhile [of ?P s] n l by simp
  have "take n s = takeWhile ?P s" using n takeWhile_eq_take by metis
  then show "c \<notin> set (take n s)" using set_takeWhileD [of c ?P s] by auto
qed

lemma index_byte_None [simp]: "index_byte s c = None \<longleftrightarrow> c \<notin> set s"
proof -
  have "length (takeWhile (\<lambda>x. x \<noteq> c) s) = length s \<longleftrightarrow> takeWhile (\<lambda>x. x \<noteq> c) s = s"
    by (metis takeWhile_eq_take take_all_iff order_refl)
  moreover have "length (takeWhile (\<lambda>x. x \<noteq> c) s) \<le> length s" by (rule length_takeWhile_le)
  ultimately show ?thesis by (auto simp: index_byte_def Let_def)
qed

section \<open>Filtering a slice into its own backing array\<close>

text \<open>
  \<open>out := rows[:0]; for _, r := range rows { ... out = append(out, ...) ... }\<close> writes the
  output over the array the loop still reads. \<open>inplace_loop\<close> keeps that shape: the array
  \<open>arr\<close> holds the output in its first \<open>n\<close> cells while cell \<open>i\<close> is read.
  It equals the loop over two separate lists as long as one iteration adds at most one
  element.
\<close>

function inplace_loop :: "('a list \<Rightarrow> 'a \<Rightarrow> 'a list) \<Rightarrow> 'a list \<Rightarrow> nat \<Rightarrow> nat \<Rightarrow> 'a list" where
  "inplace_loop step arr n i =
     (if i < length arr then
        let out = step (take n arr) (arr ! i);
            arr' = take (length arr) (out @ drop (length out) arr)
        in inplace_loop step arr' (length out) (Suc i)
      else take n arr)"
  by pat_completeness auto
termination
  by (relation "measure (\<lambda>(_, arr, _, i). length arr - i)") (auto simp: min_def Let_def)

declare inplace_loop.simps [simp del]

lemma inplace_loop_foldl:
  assumes "\<And>out r. length (step out r) \<le> Suc (length out)" and "n \<le> i" and "n \<le> length arr"
  shows "inplace_loop step arr n i = foldl step (take n arr) (drop i arr)"
  using assms
proof (induction step arr n i rule: inplace_loop.induct)
  case (1 step arr n i)
  show ?case
  proof (cases "i < length arr")
    case False
    then show ?thesis by (simp add: inplace_loop.simps [of step arr])
  next
    case True
    define out where "out = step (take n arr) (arr ! i)"
    define arr' where "arr' = take (length arr) (out @ drop (length out) arr)"
    have "length (take n arr) = n" using "1.prems"(3) by simp
    then have le: "length out \<le> Suc i"
      using "1.prems"(1) [of "take n arr" "arr ! i"] "1.prems"(2) out_def by simp
    have len: "length arr' = length arr" by (simp add: arr'_def)
    have tk: "take (length out) arr' = out" using le True by (simp add: arr'_def min_def)
    have dr: "drop (Suc i) arr' = drop (Suc i) arr"
      using le True by (simp add: arr'_def drop_take)
    have "inplace_loop step arr n i = inplace_loop step arr' (length out) (Suc i)"
      using True by (simp add: inplace_loop.simps [of step arr] out_def arr'_def Let_def)
    also have "\<dots> = foldl step out (drop (Suc i) arr)"
      using "1.IH" [OF True out_def arr'_def "1.prems"(1)] le len True tk dr by simp
    also have "\<dots> = foldl step (take n arr) (drop i arr)"
      using True by (simp add: Cons_nth_drop_Suc [symmetric] out_def)
    finally show ?thesis .
  qed
qed

lemma inplace_loop_whole:
  "(\<And>out r. length (step out r) \<le> Suc (length out)) \<Longrightarrow>
    inplace_loop step arr 0 0 = foldl step [] arr"
  by (simp add: inplace_loop_foldl)

section \<open>Lists\<close>

lemma foldl_filter:
  "foldl (\<lambda>out x. if P x then out @ [x] else out) acc xs = acc @ filter P xs"
  by (induction xs arbitrary: acc) auto

lemma foldl_map_append: "foldl (\<lambda>out x. out @ [f x]) acc xs = acc @ map f xs"
  by (induction xs arbitrary: acc) auto

lemma last_sorted_wrt:
  "sorted_wrt R (xs @ [x]) \<longleftrightarrow> sorted_wrt R xs \<and> (\<forall>y\<in>set xs. R y x)"
  by (induction xs) auto

lemma sorted_le_last: "sorted xs \<Longrightarrow> x \<in> set xs \<Longrightarrow> x \<le> last xs"
  by (induction xs) auto

lemma sorted_list_of_set_Cons:
  assumes "finite A" "\<forall>y\<in>A. x < y"
  shows "sorted_list_of_set (insert x A) = x # sorted_list_of_set A"
proof -
  have "x \<notin> A" using assms(2) by auto
  then have "sorted_list_of_set (insert x A) = insort x (sorted_list_of_set A)"
    using assms(1) by simp
  also have "\<dots> = x # sorted_list_of_set A"
    using assms by (cases "sorted_list_of_set A")
      (auto simp: less_imp_le dest: arg_cong [where f = set])
  finally show ?thesis .
qed

end
