(* ===== verification/Iter.thy ===== *)
theory Iter
  imports Prelude
begin

text \<open>
  Go's range-over-func iterators (\<open>iter.Seq2\<close>). An iterator is a function of the consumer's
  \<open>yield\<close>; \<open>yield\<close> runs the consumer's loop body on one value and answers whether the
  consumer wants more. The model threads the consumer's state through the calls and also
  returns whether the iterator ran to its end (\<open>False\<close>: the consumer stopped it), which is
  what the compiler's rewriting of \<open>return\<close> out of a range loop observes.
\<close>

type_synonym ('a, 's) yield = "'a \<Rightarrow> 's \<Rightarrow> bool \<times> 's"
type_synonym ('a, 's) seq = "('a, 's) yield \<Rightarrow> 's \<Rightarrow> bool \<times> 's"

text \<open>The consumer's view: the values of a list, one call each, until the consumer stops.\<close>

fun seq_of :: "'a list \<Rightarrow> ('a, 's) seq" where
  "seq_of [] yield s = (True, s)"
| "seq_of (x # xs) yield s =
     (case yield x s of (more, s') \<Rightarrow> if more then seq_of xs yield s' else (False, s'))"

text \<open>A statement that yields once, a statement sequence, a \<open>for\<close> loop and an empty body.\<close>

definition seq_yield :: "'a \<Rightarrow> ('a, 's) seq" where
  "seq_yield x yield s = yield x s"

definition seq_nil :: "('a, 's) seq" where
  "seq_nil yield s = (True, s)"

definition seq_then :: "('a, 's) seq \<Rightarrow> ('a, 's) seq \<Rightarrow> ('a, 's) seq" where
  "seq_then p q yield s = (case p yield s of (more, s') \<Rightarrow> if more then q yield s' else (False, s'))"

fun seq_for :: "'x list \<Rightarrow> ('x \<Rightarrow> ('a, 's) seq) \<Rightarrow> ('a, 's) seq" where
  "seq_for [] body = seq_nil"
| "seq_for (x # xs) body = seq_then (body x) (seq_for xs body)"

text \<open>\<open>for x := range p { body }\<close> inside another iterator: the body is \<open>p\<close>'s yield.\<close>

definition seq_range :: "('x, 's) seq \<Rightarrow> ('x \<Rightarrow> ('a, 's) seq) \<Rightarrow> ('a, 's) seq" where
  "seq_range p body yield s = p (\<lambda>x. body x yield) s"

section \<open>Every combination of these is the iterator of a list\<close>

lemma seq_yield_eq [iter]: "seq_yield x = seq_of [x]"
  by (intro ext) (simp add: seq_yield_def split: prod.splits)

lemma seq_nil_eq [iter]: "seq_nil = seq_of []"
  by (intro ext) (simp add: seq_nil_def)

lemma seq_of_append: "seq_of (xs @ ys) = seq_then (seq_of xs) (seq_of ys)"
proof (intro ext)
  fix yield s
  show "seq_of (xs @ ys) yield s = seq_then (seq_of xs) (seq_of ys) yield s"
    by (induction xs arbitrary: s) (auto simp: seq_then_def split: prod.splits)
qed

lemma seq_then_eq [iter]: "seq_then (seq_of xs) (seq_of ys) = seq_of (xs @ ys)"
  by (simp add: seq_of_append)

lemma seq_for_eq [iter]: "seq_for xs (\<lambda>x. seq_of (f x)) = seq_of (concat (map f xs))"
  by (induction xs) (simp_all add: iter)

lemma seq_range_eq [iter]:
  "seq_range (seq_of xs) (\<lambda>x. seq_of (f x)) = seq_of (concat (map f xs))"
proof (intro ext)
  fix yield s
  show "seq_range (seq_of xs) (\<lambda>x. seq_of (f x)) yield s = seq_of (concat (map f xs)) yield s"
  proof (induction xs arbitrary: s)
    case Nil
    show ?case by (simp add: seq_range_def)
  next
    case (Cons x xs)
    then show ?case
      by (simp add: seq_range_def seq_of_append seq_then_def split: prod.splits)
  qed
qed

lemma seq_for_cong:
  assumes "\<And>x. x \<in> set xs \<Longrightarrow> f x = g x"
  shows "seq_for xs f = seq_for xs g"
  using assms by (induction xs) simp_all

lemma seq_range_cong:
  assumes "\<And>x. x \<in> set xs \<Longrightarrow> f x = g x"
  shows "seq_range (seq_of xs) f = seq_range (seq_of xs) g"
proof (intro ext)
  fix yield s
  show "seq_range (seq_of xs) f yield s = seq_range (seq_of xs) g yield s"
    using assms
  proof (induction xs arbitrary: s)
    case (Cons x xs)
    then show ?case by (simp add: seq_range_def split: prod.splits)
  qed (simp add: seq_range_def)
qed

section \<open>What a consumer sees\<close>

text \<open>A consumer that never stops folds over the whole list.\<close>

lemma seq_of_foldl:
  assumes "\<And>x s. fst (yield x s)"
  shows "seq_of xs yield s = (True, foldl (\<lambda>s x. snd (yield x s)) s xs)"
proof (induction xs arbitrary: s)
  case (Cons x xs)
  then show ?case using assms [of x s] by (auto split: prod.splits)
qed simp

text \<open>\<open>collect\<close> drains an iterator into a list, as a range loop with \<open>append\<close> does.\<close>

definition collect_all :: "('a, 'a list) seq \<Rightarrow> 'a list" where
  "collect_all p = snd (p (\<lambda>x out. (True, out @ [x])) [])"

lemma collect_all_seq_of [simp]: "collect_all (seq_of xs) = xs"
  by (simp add: collect_all_def seq_of_foldl foldl_map_append [where f = "\<lambda>x. x", simplified])

text \<open>
  A Go iterator must not call \<open>yield\<close> after it answered false (the runtime panics).
  The recording consumer below stops after \<open>k\<close> values and logs every call; the log of
  \<open>seq_of xs\<close> is exactly the first \<open>k\<close> values, so nothing is yielded after the stop.
\<close>

definition stop_after :: "nat \<Rightarrow> ('a, 'a list) yield" where
  "stop_after k x log = (Suc (length log) < k, log @ [x])"

lemma seq_of_stop_after_aux:
  "length log < k \<Longrightarrow> snd (seq_of xs (stop_after k) log) = log @ take (k - length log) xs"
proof (induction xs arbitrary: log)
  case (Cons x xs)
  show ?case
  proof (cases "Suc (length log) < k")
    case True
    then have "Suc (k - Suc (length log)) = k - length log" by simp
    then have "take (k - length log) (x # xs) = x # take (k - Suc (length log)) xs"
      by (metis take_Suc_Cons)
    then show ?thesis
      using True Cons.IH [of "log @ [x]"] by (simp add: stop_after_def)
  next
    case False
    then have "k - length log = Suc 0" using Cons.prems by simp
    then show ?thesis using False by (simp add: stop_after_def)
  qed
qed simp

lemma seq_of_stop_after:
  "0 < k \<Longrightarrow> snd (seq_of xs (stop_after k) []) = take k xs"
  by (simp add: seq_of_stop_after_aux)

end
