(* ===== verification/Netip.thy ===== *)
theory Netip
  imports Prelude
begin

unbundle bit_operations_syntax

text \<open>
  The part of Go's \<open>net/netip\<close> (standard library) that the program uses: addresses,
  prefixes, their order and their successor, in the representation of the library (a
  128-bit value with a kind; an IPv4 address is kept in its v4-mapped form), and the
  interface the range algorithms rest on: a linear order with a successor in each family.
\<close>

section \<open>Addresses\<close>

datatype zkind = Z0 | Z4 | Z6 string

datatype addr = Addr (ip: "128 word") (z: zkind)

definition zeroAddr :: addr where
  "zeroAddr = Addr 0 Z0"

definition Is4 :: "addr \<Rightarrow> bool" where
  "Is4 a \<longleftrightarrow> z a = Z4"

definition Is6 :: "addr \<Rightarrow> bool" where
  "Is6 a \<longleftrightarrow> z a \<noteq> Z0 \<and> z a \<noteq> Z4"

definition addr_IsValid :: "addr \<Rightarrow> bool" where
  "addr_IsValid a \<longleftrightarrow> z a \<noteq> Z0"

fun zkind_bits :: "zkind \<Rightarrow> nat" where
  "zkind_bits Z0 = 0" | "zkind_bits Z4 = 32" | "zkind_bits (Z6 _) = 128"

definition BitLen :: "addr \<Rightarrow> nat" where
  "BitLen a = zkind_bits (z a)"

fun zkind_zone :: "zkind \<Rightarrow> string" where
  "zkind_zone (Z6 zone) = zone" | "zkind_zone _ = ''''"

definition Zone :: "addr \<Rightarrow> string" where
  "Zone a = zkind_zone (z a)"

text \<open>The 96 bits of \<open>::ffff:0:0/96\<close>.\<close>

abbreviation v4_mapped :: "128 word \<Rightarrow> bool" where
  "v4_mapped x \<equiv> drop_bit 32 x = 0xffff"

definition Is4In6 :: "addr \<Rightarrow> bool" where
  "Is4In6 a \<longleftrightarrow> Is6 a \<and> v4_mapped (ip a)"

definition Unmap :: "addr \<Rightarrow> addr" where
  "Unmap a = (if Is4In6 a then Addr (ip a) Z4 else a)"

definition withoutZone :: "addr \<Rightarrow> addr" where
  "withoutZone a = (if Is6 a then Addr (ip a) (Z6 '''') else a)"

definition AddrFrom4 :: "32 word \<Rightarrow> addr" where
  "AddrFrom4 w = Addr (push_bit 32 0xffff OR ucast w) Z4"

definition AddrFrom16 :: "128 word \<Rightarrow> addr" where
  "AddrFrom16 w = Addr w (Z6 '''')"

definition addr_Compare :: "addr \<Rightarrow> addr \<Rightarrow> int" where
  "addr_Compare a b =
     (if BitLen a < BitLen b then -1 else if BitLen b < BitLen a then 1
      else if ip a < ip b then -1 else if ip b < ip a then 1
      else if Is6 a \<and> Zone a < Zone b then -1
      else if Is6 a \<and> Zone b < Zone a then 1 else 0)"

definition Next :: "addr \<Rightarrow> addr" where
  "Next a = (let x = ip a + 1 in
     if Is4 a then (if take_bit 32 x = 0 then zeroAddr else Addr x (z a))
     else if x = 0 then zeroAddr else Addr x (z a))"

definition Prev :: "addr \<Rightarrow> addr" where
  "Prev a =
     (if Is4 a then (if take_bit 32 (ip a) = 0 then zeroAddr else Addr (ip a - 1) (z a))
      else if ip a = 0 then zeroAddr else Addr (ip a - 1) (z a))"

text \<open>
  The package never builds an IPv4 address outside the mapped block, nor a non-zero
  address without a kind; the addresses whose zone is empty are the \<open>plain\<close> ones.
\<close>

definition addr_wf :: "addr \<Rightarrow> bool" where
  "addr_wf a \<longleftrightarrow> (z a = Z4 \<longrightarrow> v4_mapped (ip a)) \<and> (z a = Z0 \<longrightarrow> ip a = 0)"

definition plain :: "addr \<Rightarrow> bool" where
  "plain a \<longleftrightarrow> z a = Z4 \<and> v4_mapped (ip a) \<or> z a = Z6 ''''"

section \<open>The order of addresses\<close>

instantiation addr :: linorder
begin

definition less_eq_addr :: "addr \<Rightarrow> addr \<Rightarrow> bool" where
  "a \<le> b \<longleftrightarrow> BitLen a < BitLen b \<or> BitLen a = BitLen b \<and>
     (ip a < ip b \<or> ip a = ip b \<and> Zone a \<le> Zone b)"

definition less_addr :: "addr \<Rightarrow> addr \<Rightarrow> bool" where
  "a < b \<longleftrightarrow> BitLen a < BitLen b \<or> BitLen a = BitLen b \<and>
     (ip a < ip b \<or> ip a = ip b \<and> Zone a < Zone b)"

instance
proof
  fix a b c :: addr
  show "a < b \<longleftrightarrow> a \<le> b \<and> \<not> b \<le> a"
    by (auto simp: less_addr_def less_eq_addr_def)
  show "a \<le> a" by (simp add: less_eq_addr_def)
  show "a \<le> b \<Longrightarrow> b \<le> c \<Longrightarrow> a \<le> c"
    by (auto simp: less_eq_addr_def)
  show "a \<le> b \<or> b \<le> a"
    by (auto simp: less_eq_addr_def)
  show "a \<le> b \<Longrightarrow> b \<le> a \<Longrightarrow> a = b"
    by (cases a; cases b; rename_tac x k y l; case_tac k; case_tac l)
       (auto simp: less_eq_addr_def BitLen_def Zone_def)
qed

end

lemma addr_Compare_less [simp]: "addr_Compare a b < 0 \<longleftrightarrow> a < b"
  by (cases "z a"; cases "z b")
     (auto simp: addr_Compare_def less_addr_def BitLen_def Zone_def Is6_def)

lemma addr_Compare_greater [simp]: "0 < addr_Compare a b \<longleftrightarrow> b < a"
  by (cases "z a"; cases "z b")
     (auto simp: addr_Compare_def less_addr_def BitLen_def Zone_def Is6_def)

lemma addr_Compare_le [simp]: "addr_Compare a b \<le> 0 \<longleftrightarrow> a \<le> b"
  using addr_Compare_greater [of a b] by (metis not_le)

lemma addr_Compare_ge [simp]: "0 \<le> addr_Compare a b \<longleftrightarrow> b \<le> a"
  using addr_Compare_less [of a b] by (metis not_le)

lemma addr_Compare_eq [simp]: "addr_Compare a b = 0 \<longleftrightarrow> a = b"
  using addr_Compare_less [of a b] addr_Compare_greater [of a b]
  by (metis less_irrefl linorder_neqE)

section \<open>The successor: an interface for range algorithms\<close>

text \<open>
  What the range algorithms of the program need of addresses: in each family (\<open>fam\<close>) the
  valid successor is the least greater address, the predecessor undoes it, and a family is
  convex in the order.
\<close>

locale successor =
  fixes ok :: "'a::linorder \<Rightarrow> bool" and fam :: "'a \<Rightarrow> 'f" and valid :: "'a \<Rightarrow> bool"
    and nxt :: "'a \<Rightarrow> 'a" and prv :: "'a \<Rightarrow> 'a"
  assumes nxt_valid: "ok a \<Longrightarrow> valid (nxt a) \<Longrightarrow> ok (nxt a) \<and> fam (nxt a) = fam a \<and> a < nxt a"
    and nxt_least: "ok a \<Longrightarrow> ok b \<Longrightarrow> fam b = fam a \<Longrightarrow> a < b \<Longrightarrow> valid (nxt a) \<and> nxt a \<le> b"
    and prv_nxt: "ok a \<Longrightarrow> ok b \<Longrightarrow> fam a = fam b \<Longrightarrow> a < b \<Longrightarrow>
      ok (prv b) \<and> fam (prv b) = fam b \<and> valid (nxt (prv b)) \<and> nxt (prv b) = b"
    and convex: "ok a \<Longrightarrow> ok b \<Longrightarrow> ok c \<Longrightarrow> fam a = fam b \<Longrightarrow> a \<le> c \<Longrightarrow> c \<le> b \<Longrightarrow> fam c = fam a"
begin

lemma less_nxt_iff:
  assumes "ok a" "ok b" "fam b = fam a" "valid (nxt a)"
  shows "nxt a \<le> b \<longleftrightarrow> a < b"
  using assms nxt_valid nxt_least by (metis order.strict_trans2)

lemma not_valid_max: "ok a \<Longrightarrow> ok b \<Longrightarrow> fam b = fam a \<Longrightarrow> \<not> valid (nxt a) \<Longrightarrow> b \<le> a"
  using nxt_least by (metis not_le)

lemma prv_less: "ok a \<Longrightarrow> ok b \<Longrightarrow> fam a = fam b \<Longrightarrow> a < b \<Longrightarrow> prv b < b \<and> a \<le> prv b"
  using prv_nxt [of a b] nxt_valid [of "prv b"] nxt_least [of "prv b" a]
  by (metis not_le order.strict_trans2 order_less_irrefl)

lemma le_prv_iff:
  assumes "ok a" "ok b" "ok c" "fam a = fam b" "fam c = fam b" "a < b"
  shows "c \<le> prv b \<longleftrightarrow> c < b"
  using assms prv_less [of a b] prv_less [of c b] by (metis order.strict_trans1)

text \<open>Cutting a range after \<open>m\<close> loses no address and duplicates none.\<close>

lemma range_split:
  assumes "ok m" "ok hi" "fam m = fam hi" "lo \<le> m" "m < hi" "ok lo" "fam lo = fam hi"
  shows "{a. ok a \<and> lo \<le> a \<and> a \<le> hi} =
    {a. ok a \<and> lo \<le> a \<and> a \<le> m} \<union> {a. ok a \<and> nxt m \<le> a \<and> a \<le> hi}" (is "?L = ?R")
proof
  have n: "ok (nxt m)" "m < nxt m" "valid (nxt m)"
    using nxt_valid [of m] nxt_least [of m hi] assms by auto
  show "?R \<subseteq> ?L" using n(2) assms(4,5) by force
  show "?L \<subseteq> ?R"
  proof
    fix a assume a: "a \<in> ?L"
    then have "fam a = fam m" using convex [of lo hi a] assms by auto
    with a show "a \<in> ?R" using less_nxt_iff [of m a] n assms(1) by force
  qed
qed

lemma range_split_disjoint:
  assumes "ok m" "valid (nxt m)"
  shows "{a. ok a \<and> lo \<le> a \<and> a \<le> m} \<inter> {a. ok a \<and> nxt m \<le> a \<and> a \<le> hi} = {}"
  using nxt_valid [OF assms] by force

end

section \<open>Addresses provide it\<close>

lemma block_start: "m div k = n div k \<Longrightarrow> n mod k = 0 \<Longrightarrow> n \<le> m" for m n k :: nat
  by (metis add.right_neutral div_mult_mod_eq le_add1)

lemma block_end: "Suc m mod k = 0 \<Longrightarrow> n div k = m div k \<Longrightarrow> n \<le> m" for m n k :: nat
  by (metis Suc_n_not_le_n div_Suc div_le_mono not_less_eq_eq)

lemma v4_mapped_unat: "v4_mapped x \<longleftrightarrow> unat x div 4294967296 = 0xffff"
proof -
  have "unat (drop_bit 32 x) = unat x div 2 ^ 32"
    by (rule trans [OF unat_drop_bit_eq drop_bit_eq_div])
  moreover have "unat (0xffff :: 128 word) = 0xffff" by simp
  ultimately show ?thesis unfolding word_unat_eq_iff by simp
qed

lemma low32_unat: "take_bit 32 x = 0 \<longleftrightarrow> unat x mod 4294967296 = 0" for x :: "128 word"
proof -
  have "unat (take_bit 32 x) = unat x mod 2 ^ 32"
    by (rule trans [OF unsigned_take_bit_eq take_bit_eq_mod])
  then show ?thesis unfolding word_unat_eq_iff by simp
qed

lemma unat_plus_one: "x + 1 \<noteq> 0 \<Longrightarrow> unat (x + 1) = Suc (unat x)" for x :: "128 word"
  by (metis unatSuc add.commute)

lemma unat_minus_one': "x \<noteq> 0 \<Longrightarrow> unat (x - 1) = unat x - 1" for x :: "128 word"
  by (rule unat_minus_one)

lemma plain_wf: "plain a \<Longrightarrow> addr_wf a \<and> addr_IsValid a"
  by (auto simp: plain_def addr_wf_def addr_IsValid_def)

lemma plain_less: "plain a \<Longrightarrow> plain b \<Longrightarrow> z a = z b \<Longrightarrow> a < b \<longleftrightarrow> ip a < ip b"
  by (auto simp: plain_def less_addr_def BitLen_def Zone_def)

lemma plain_le: "plain a \<Longrightarrow> plain b \<Longrightarrow> z a = z b \<Longrightarrow> a \<le> b \<longleftrightarrow> ip a \<le> ip b"
  by (auto simp: plain_def less_eq_addr_def BitLen_def Zone_def)

lemma Next_ip:
  assumes "addr_wf a" "addr_IsValid a" "addr_IsValid (Next a)"
  shows "Next a = Addr (ip a + 1) (z a) \<and> unat (ip a + 1) = Suc (unat (ip a)) \<and> addr_wf (Next a)"
proof -
  let ?x = "ip a + 1"
  have eq: "Next a = Addr ?x (z a)"
    using assms(3) by (auto simp: Next_def Let_def addr_IsValid_def zeroAddr_def split: if_splits)
  have nz: "?x \<noteq> 0" 
    using assms(3) by (auto simp: Next_def Let_def addr_IsValid_def zeroAddr_def split: if_splits)
  have su: "unat ?x = Suc (unat (ip a))" by (rule unat_plus_one [OF nz])
  have "v4_mapped ?x" if "z a = Z4"
  proof -
    have m: "unat ?x mod 4294967296 \<noteq> 0"
      using assms(3) that low32_unat [of ?x]
      by (auto simp: Next_def Let_def addr_IsValid_def zeroAddr_def Is4_def split: if_splits)
    have "unat (ip a) div 4294967296 = 0xffff" using assms(1) that v4_mapped_unat by (auto simp: addr_wf_def)
    then have "unat ?x div 4294967296 = 0xffff" using m su by (simp add: div_Suc)
    then show ?thesis using v4_mapped_unat by blast
  qed
  then show ?thesis using eq su assms(2) by (auto simp: addr_wf_def addr_IsValid_def)
qed

lemma Next_invalid_max:
  assumes "addr_wf a" "addr_IsValid a" "addr_wf b" "z b = z a" "\<not> addr_IsValid (Next a)"
  shows "ip b \<le> ip a"
proof (cases "z a = Z4")
  case True
  then have "take_bit 32 (ip a + 1) = 0"
    using assms(5) by (auto simp: Next_def Let_def Is4_def addr_IsValid_def split: if_splits)
  then have m: "unat (ip a + 1) mod 4294967296 = 0" using low32_unat by blast
  have va: "unat (ip a) div 4294967296 = 0xffff" and vb: "unat (ip b) div 4294967296 = 0xffff"
    using assms True v4_mapped_unat by (auto simp: addr_wf_def)
  have "ip a + 1 \<noteq> 0"
  proof
    assume "ip a + 1 = 0"
    then have "ip a = - 1" by (simp add: eq_neg_iff_add_eq_0)
    then show False using va by (simp add: unsigned_minus_1_eq_mask mask_eq_exp_minus_1)
  qed
  then have "unat (ip a + 1) = Suc (unat (ip a))" by (rule unat_plus_one)
  with m va vb have "unat (ip b) \<le> unat (ip a)"
    using block_end [of "unat (ip a)" 4294967296 "unat (ip b)"] by simp
  then show ?thesis by (simp add: word_le_nat_alt)
next
  case False
  then have "ip a + 1 = 0"
    using assms(2,5) by (auto simp: Next_def Let_def Is4_def addr_IsValid_def split: if_splits)
  then have "ip a = - 1" by (simp add: eq_neg_iff_add_eq_0)
  then show ?thesis by simp
qed

lemma Next_plain: "plain a \<Longrightarrow> addr_IsValid (Next a) \<Longrightarrow> plain (Next a) \<and> z (Next a) = z a \<and> a < Next a"
proof -
  assume a: "plain a" and v: "addr_IsValid (Next a)"
  have n: "Next a = Addr (ip a + 1) (z a)" "unat (ip a + 1) = Suc (unat (ip a))" "addr_wf (Next a)"
    using Next_ip plain_wf [OF a] v by auto
  then have pl: "plain (Next a)" "z (Next a) = z a" using a by (auto simp: plain_def addr_wf_def)
  moreover have "ip a < ip (Next a)" using n by (simp add: word_less_nat_alt)
  ultimately show ?thesis using plain_less [OF a, of "Next a"] by simp
qed

lemma Next_least:
  assumes "plain a" "plain b" "z b = z a" "a < b"
  shows "addr_IsValid (Next a) \<and> Next a \<le> b"
proof -
  have lt: "ip a < ip b" using plain_less assms by metis
  have v: "addr_IsValid (Next a)"
    using Next_invalid_max [of a b] plain_wf assms(1-3) lt by (metis not_le)
  then have "Next a = Addr (ip a + 1) (z a)" "unat (ip a + 1) = Suc (unat (ip a))"
    using Next_ip plain_wf [OF assms(1)] by auto
  then have "ip (Next a) \<le> ip b" using lt by (simp add: word_less_nat_alt word_le_nat_alt)
  then show ?thesis using v plain_le Next_plain [OF assms(1) v] assms by metis
qed

lemma Prev_Next:
  assumes "plain a" "plain b" "z a = z b" "a < b"
  shows "plain (Prev b) \<and> z (Prev b) = z b \<and> addr_IsValid (Next (Prev b)) \<and> Next (Prev b) = b"
proof -
  have lt: "unat (ip a) < unat (ip b)" using plain_less assms by (metis word_less_nat_alt)
  then have nz: "ip b \<noteq> 0" by (metis less_nat_zero_code unat_0)
  have low: "z b = Z4 \<Longrightarrow> unat (ip b) mod 4294967296 \<noteq> 0"
  proof
    assume z: "z b = Z4" and m: "unat (ip b) mod 4294967296 = 0"
    have "unat (ip a) div 4294967296 = 0xffff" "unat (ip b) div 4294967296 = 0xffff"
      using z assms v4_mapped_unat by (auto simp: plain_def)
    with m lt show False using block_start [of "unat (ip a)" 4294967296 "unat (ip b)"] by simp
  qed
  have p: "Prev b = Addr (ip b - 1) (z b)"
    using nz low low32_unat by (auto simp: Prev_def Is4_def)
  have u: "unat (ip b - 1) = unat (ip b) - 1" by (rule unat_minus_one' [OF nz])
  have "v4_mapped (ip b - 1)" if zb: "z b = Z4"
  proof -
    have "unat (ip b) div 4294967296 = 0xffff" using zb assms(2) v4_mapped_unat by (auto simp: plain_def)
    moreover obtain m where "unat (ip b) = Suc m" using nz by (metis not0_implies_Suc unat_eq_zero)
    ultimately have "unat (ip b - 1) div 4294967296 = 0xffff"
      using low [OF zb] u by (simp add: div_Suc split: if_splits)
    then show ?thesis using v4_mapped_unat by blast
  qed
  then have "plain (Prev b)" using p assms(2) by (auto simp: plain_def)
  moreover have "Next (Prev b) = b"
    using p low nz low32_unat assms(2) by (cases b) (auto simp: Next_def Is4_def Let_def)
  ultimately show ?thesis using p assms(2) plain_wf by simp
qed

lemma plain_convex:
  assumes "plain a" "plain b" "plain c" "z a = z b" "a \<le> c" "c \<le> b"
  shows "z c = z a"
  using assms by (auto simp: plain_def less_eq_addr_def BitLen_def)

interpretation addr_succ: successor plain z addr_IsValid Next Prev
  by unfold_locales (use Next_plain Next_least Prev_Next plain_convex in blast)+

text \<open>The addresses from \<open>lo\<close> to \<open>hi\<close>, without zones.\<close>

definition span :: "addr \<Rightarrow> addr \<Rightarrow> addr set" where
  "span lo hi = {a. plain a \<and> lo \<le> a \<and> a \<le> hi}"

lemma in_span [simp]: "a \<in> span lo hi \<longleftrightarrow> plain a \<and> lo \<le> a \<and> a \<le> hi"
  by (simp add: span_def)

lemmas span_split = addr_succ.range_split [folded span_def]
  and span_split_disjoint = addr_succ.range_split_disjoint [folded span_def]

section \<open>Prefixes\<close>

text \<open>\<open>bitsPlusOne\<close> is 0 in the zero (invalid) prefix, so \<open>Bits\<close> is -1 there.\<close>

datatype prefix = Prefix (paddr: addr) (bitsPlusOne: nat)

definition zeroPrefix :: prefix where
  "zeroPrefix = Prefix zeroAddr 0"

definition Bits :: "prefix \<Rightarrow> int" where
  "Bits p = int (bitsPlusOne p) - 1"

definition prefix_IsValid :: "prefix \<Rightarrow> bool" where
  "prefix_IsValid p \<longleftrightarrow> 0 < bitsPlusOne p"

definition PrefixFrom :: "addr \<Rightarrow> int \<Rightarrow> prefix" where
  "PrefixFrom a bits =
     Prefix (withoutZone a)
       (if z a \<noteq> Z0 \<and> 0 \<le> bits \<and> bits \<le> int (BitLen a) then nat bits + 1 else 0)"

text \<open>The number of leading bits of the 128-bit value that a prefix fixes.\<close>

definition fixedBits :: "prefix \<Rightarrow> nat" where
  "fixedBits p = (if Is4 (paddr p) then 96 else 0) + nat (Bits p)"

definition Masked :: "prefix \<Rightarrow> prefix" where
  "Masked p =
     (if Bits p < 0 \<or> z (paddr p) = Z0 \<or> int (BitLen (paddr p)) < Bits p then zeroPrefix
      else PrefixFrom (Addr (ip (paddr p) AND NOT (mask (128 - fixedBits p))) (z (paddr p))) (Bits p))"

text \<open>
  A prefix the package can build: valid, no zone, and a well-formed address. Its first and
  last address, and the addresses in between.
\<close>

definition prefix_wf :: "prefix \<Rightarrow> bool" where
  "prefix_wf p \<longleftrightarrow> plain (paddr p) \<and> prefix_IsValid p \<and> bitsPlusOne p \<le> BitLen (paddr p) + 1"

definition prefix_first :: "prefix \<Rightarrow> addr" where
  "prefix_first p = Addr (ip (paddr p) AND NOT (mask (128 - fixedBits p))) (z (paddr p))"

definition prefix_last :: "prefix \<Rightarrow> addr" where
  "prefix_last p = Addr (ip (paddr p) OR mask (128 - fixedBits p)) (z (paddr p))"

definition prefix_span :: "prefix \<Rightarrow> addr set" where
  "prefix_span p = span (prefix_first p) (prefix_last p)"

lemma prefix_wf_Bits: "prefix_wf p \<Longrightarrow> 0 \<le> Bits p \<and> Bits p \<le> int (BitLen (paddr p))"
  by (auto simp: prefix_wf_def prefix_IsValid_def Bits_def)

lemma PrefixFrom_wf:
  "addr_wf a \<Longrightarrow> z a \<noteq> Z0 \<Longrightarrow> 0 \<le> bits \<Longrightarrow> bits \<le> int (BitLen a) \<Longrightarrow>
    prefix_wf (PrefixFrom a bits) \<and> Bits (PrefixFrom a bits) = bits"
  by (cases a; cases "z a")
     (auto simp: prefix_wf_def PrefixFrom_def withoutZone_def Is6_def plain_def addr_wf_def
        prefix_IsValid_def BitLen_def Bits_def)

lemma fixedBits_le: "prefix_wf p \<Longrightarrow> fixedBits p \<le> 128"
  using prefix_wf_Bits [of p]
  by (auto simp: fixedBits_def prefix_wf_def plain_def Is4_def BitLen_def)

lemma v4_fixedBits: "prefix_wf p \<Longrightarrow> Is4 (paddr p) \<Longrightarrow> 96 \<le> fixedBits p"
  by (simp add: fixedBits_def)

subsection \<open>Masking a word\<close>

text \<open>Clearing and setting the low \<open>n\<close> bits bounds the words that share the rest.\<close>

lemma drop_bit_clear: "drop_bit n (x AND NOT (mask n)) = drop_bit n x" for x :: "'a::len word"
  by (rule bit_eqI) (auto simp: bit_simps dest: bit_imp_le_length)

lemma drop_bit_set: "drop_bit n (x OR mask n) = drop_bit n x" for x :: "'a::len word"
  by (rule bit_eqI) (auto simp: bit_simps)

lemma drop_bit_mono: "x \<le> y \<Longrightarrow> drop_bit n x \<le> drop_bit n y" for x y :: "'a::len word"
proof -
  have "unat (drop_bit n w) = unat w div 2 ^ n" for w :: "'a word"
    by (rule trans [OF unat_drop_bit_eq drop_bit_eq_div])
  then show "x \<le> y \<Longrightarrow> ?thesis" unfolding word_le_nat_alt by (simp only: div_le_mono)
qed

lemma clear_le: "x AND NOT (mask n) \<le> x" for x :: "'a::len word"
  by (simp add: word_and_le2)

lemma le_set: "x \<le> x OR mask n" for x :: "'a::len word"
  by (simp add: le_word_or2)

lemma same_block_bits:
  fixes x y :: "'a::len word"
  assumes "drop_bit n y = drop_bit n x"
  shows "n \<le> i \<Longrightarrow> bit x i = bit y i"
proof -
  have "bit (drop_bit n y) (i - n) = bit (drop_bit n x) (i - n)" using assms by simp
  then show "n \<le> i \<Longrightarrow> bit x i = bit y i" by (simp add: bit_simps)
qed

lemma same_block_le:
  fixes x y :: "'a::len word"
  assumes "drop_bit n y = drop_bit n x"
  shows "x AND NOT (mask n) \<le> y" "y \<le> x OR mask n"
proof -
  note same = same_block_bits [OF assms]
  have "x AND NOT (mask n) = y AND NOT (mask n)"
    by (rule bit_eqI) (use same in \<open>auto simp: bit_simps not_less\<close>)
  then show "x AND NOT (mask n) \<le> y" by (simp add: clear_le)
  have "x OR mask n = y OR mask n"
    by (rule bit_eqI) (use same in \<open>auto simp: bit_simps not_less\<close>)
  then show "y \<le> x OR mask n" by (simp add: le_set)
qed

lemma block_iff:
  "x AND NOT (mask n) \<le> y \<and> y \<le> x OR mask n \<longleftrightarrow> drop_bit n y = drop_bit n x"
  for x y :: "'a::len word"
  by (metis antisym drop_bit_clear drop_bit_mono drop_bit_set same_block_le)

lemma clear_v4_mapped: "n \<le> 32 \<Longrightarrow> v4_mapped (x AND NOT (mask n)) \<longleftrightarrow> v4_mapped x"
  and set_v4_mapped: "n \<le> 32 \<Longrightarrow> v4_mapped (x OR mask n) \<longleftrightarrow> v4_mapped x"
proof -
  assume n: "n \<le> 32"
  have d: "drop_bit 32 y = drop_bit (32 - n) (drop_bit n y)" for y :: "128 word"
    using n by (simp add: drop_bit_drop_bit)
  show "v4_mapped (x AND NOT (mask n)) \<longleftrightarrow> v4_mapped x"
    by (simp only: d [of "x AND NOT (mask n)"] d [of x] drop_bit_clear)
  show "v4_mapped (x OR mask n) \<longleftrightarrow> v4_mapped x"
    by (simp only: d [of "x OR mask n"] d [of x] drop_bit_set)
qed

subsection \<open>The addresses of a prefix\<close>

lemma prefix_ends_plain:
  assumes "prefix_wf p"
  shows "plain (prefix_first p)" "plain (prefix_last p)"
    "z (prefix_first p) = z (paddr p)" "z (prefix_last p) = z (paddr p)"
  using assms clear_v4_mapped [of "128 - fixedBits p"] set_v4_mapped [of "128 - fixedBits p"]
  by (auto simp: prefix_first_def prefix_last_def prefix_wf_def plain_def fixedBits_def Is4_def
      simp del: drop_bit_and drop_bit_or)

lemma in_prefix_span:
  assumes "prefix_wf p"
  shows "a \<in> prefix_span p \<longleftrightarrow> plain a \<and> z a = z (paddr p) \<and>
    drop_bit (128 - fixedBits p) (ip a) = drop_bit (128 - fixedBits p) (ip (paddr p))"
proof (cases "plain a")
  case True
  note ends = prefix_ends_plain [OF assms]
  have "z a = z (paddr p)" if "a \<in> prefix_span p"
    using that plain_convex [OF ends(1,2) True] ends(3,4) by (simp add: prefix_span_def)
  moreover have "a \<in> prefix_span p \<longleftrightarrow> ip (prefix_first p) \<le> ip a \<and> ip a \<le> ip (prefix_last p)"
    if "z a = z (paddr p)"
    using that plain_le ends True by (simp add: prefix_span_def)
  ultimately show ?thesis
    using True block_iff [of "ip (paddr p)" "128 - fixedBits p" "ip a"]
    by (auto simp: prefix_first_def prefix_last_def)
qed (simp add: prefix_span_def)

lemma paddr_in_prefix_span: "prefix_wf p \<Longrightarrow> paddr p \<in> prefix_span p"
  by (simp add: in_prefix_span) (simp add: prefix_wf_def)

lemma prefix_first_le_last: "prefix_wf p \<Longrightarrow> prefix_first p \<le> prefix_last p"
  using paddr_in_prefix_span [of p] by (auto simp: prefix_span_def)

lemma Masked_eq:
  assumes "prefix_wf p"
  shows "Masked p = PrefixFrom (prefix_first p) (Bits p)"
  using assms prefix_wf_Bits [OF assms]
  by (auto simp: Masked_def prefix_first_def prefix_wf_def plain_def)

end
