(* ===== verification/Netip_Text.thy ===== *)
theory Netip_Text
  imports Netip
begin

text \<open>
  The text form of addresses and prefixes (\<open>net/netip\<close>, standard library): \<open>ParseAddr\<close>,
  \<open>ParsePrefix\<close> and the \<open>String\<close> methods, with the checks of the library in its order.
\<close>

section \<open>Decimal numbers\<close>

definition is_digit :: "char \<Rightarrow> bool" where
  "is_digit c \<longleftrightarrow> char_in CHR ''0'' c CHR ''9''"

definition digit_val :: "char \<Rightarrow> int" where
  "digit_val c = of_char c - 48"

definition digit_char :: "int \<Rightarrow> char" where
  "digit_char d = char_of (48 + d)"

fun decimal_acc :: "int \<Rightarrow> string \<Rightarrow> int" where
  "decimal_acc acc [] = acc"
| "decimal_acc acc (c # cs) = decimal_acc (acc * 10 + digit_val c) cs"

text \<open>\<open>strconv.ParseUint(s, 10, bits)\<close>: only digits, and in range.\<close>

definition ParseUint :: "string \<Rightarrow> nat \<Rightarrow> error + int" where
  "ParseUint s bits =
     (if s = [] \<or> \<not> list_all is_digit s then Inl (LibErr ''invalid syntax'' [s])
      else if 2 ^ bits \<le> decimal_acc 0 s then Inl (LibErr ''value out of range'' [s])
      else Inr (decimal_acc 0 s))"

text \<open>\<open>strconv.FormatUint(n, 10)\<close> (for \<open>n \<ge> 0\<close>) and \<open>strconv.FormatInt(n, 10)\<close>.\<close>

function FormatUint :: "int \<Rightarrow> string" where
  "FormatUint n = (if n < 10 then [digit_char n] else FormatUint (n div 10) @ [digit_char (n mod 10)])"
  by pat_completeness auto
termination
  by (relation "measure nat") auto

declare FormatUint.simps [simp del]

definition FormatInt :: "int \<Rightarrow> string" where
  "FormatInt n = (if n < 0 then CHR ''-'' # FormatUint (- n) else FormatUint n)"

lemma digit_char_digit [simp]:
  assumes "0 \<le> d" "d < 10"
  shows "is_digit (digit_char d)" "digit_val (digit_char d) = d"
  using assms by (simp_all add: is_digit_def digit_val_def digit_char_def)

lemma decimal_acc_append: "decimal_acc acc (xs @ ys) = decimal_acc (decimal_acc acc xs) ys"
  by (induction xs arbitrary: acc) auto

lemma FormatUint_digits: "0 \<le> n \<Longrightarrow> FormatUint n \<noteq> [] \<and> list_all is_digit (FormatUint n)"
  by (induction n rule: FormatUint.induct) (subst (1 2) FormatUint.simps, simp)

lemma decimal_FormatUint: "0 \<le> n \<Longrightarrow> decimal_acc 0 (FormatUint n) = n"
  by (induction n rule: FormatUint.induct)
     (subst FormatUint.simps, simp add: decimal_acc_append)

lemma ParseUint_FormatUint: "0 \<le> n \<Longrightarrow> n < 2 ^ bits \<Longrightarrow> ParseUint (FormatUint n) bits = Inr n"
  using FormatUint_digits [of n] by (simp add: ParseUint_def decimal_FormatUint)

text \<open>\<open>FormatUint\<close> writes no leading zero.\<close>

lemma FormatUint_hd: "0 < n \<Longrightarrow> hd (FormatUint n) \<noteq> CHR ''0''"
proof (induction n rule: FormatUint.induct)
  case (1 n)
  show ?case
  proof (cases "n < 10")
    case True
    have "digit_val (digit_char n) = n" using True 1(2) by simp
    then have "digit_char n \<noteq> CHR ''0''" using 1(2) by (auto simp: digit_val_def)
    then show ?thesis using True by (simp add: FormatUint.simps [of n])
  next
    case False
    then have "hd (FormatUint (n div 10)) \<noteq> CHR ''0''" using 1 by simp
    moreover have "FormatUint (n div 10) \<noteq> []" using FormatUint_digits [of "n div 10"] False by simp
    ultimately show ?thesis using False by (simp add: FormatUint.simps [of n])
  qed
qed

section \<open>IPv4\<close>

abbreviation parse_error :: "string \<Rightarrow> string \<Rightarrow> error" where
  "parse_error inp msg \<equiv> LibErr msg [inp]"

text \<open>
  The loop of \<open>parseIPv4Fields\<close>: \<open>prev\<close> is the character before, \<open>val\<close> and \<open>digLen\<close>
  belong to the octet being read, \<open>fields\<close> holds the finished ones.
\<close>

fun parseIPv4_loop :: "string \<Rightarrow> char option \<Rightarrow> string \<Rightarrow> int \<Rightarrow> nat \<Rightarrow> int list \<Rightarrow> error + int list" where
  "parseIPv4_loop inp prev [] val digLen fields =
     (if length fields < 3 then Inl (parse_error inp ''IPv4 address too short'')
      else Inr (fields @ [val]))"
| "parseIPv4_loop inp prev (c # cs) val digLen fields =
     (if is_digit c then
        if digLen = 1 \<and> val = 0 then Inl (parse_error inp ''IPv4 field has octet with leading zero'')
        else let val' = val * 10 + digit_val c in
          if 255 < val' then Inl (parse_error inp ''IPv4 field has value >255'')
          else parseIPv4_loop inp (Some c) cs val' (Suc digLen) fields
      else if c = CHR ''.'' then
        if prev = None \<or> cs = [] \<or> prev = Some CHR ''.'' then
          Inl (parse_error inp ''IPv4 field must have at least one digit'')
        else if length fields = 3 then Inl (parse_error inp ''IPv4 address too long'')
        else parseIPv4_loop inp (Some c) cs 0 0 (fields @ [val])
      else Inl (parse_error inp ''unexpected character''))"

definition parseIPv4Fields :: "string \<Rightarrow> string \<Rightarrow> error + int list" where
  "parseIPv4Fields inp s = parseIPv4_loop inp None s 0 0 []"

definition be_int :: "int list \<Rightarrow> int" where
  "be_int bytes = foldl (\<lambda>a b. a * 256 + b) 0 bytes"

definition parseIPv4 :: "string \<Rightarrow> error + addr" where
  "parseIPv4 s = map_sum id (\<lambda>bs. AddrFrom4 (word_of_int (be_int bs))) (parseIPv4Fields s s)"

section \<open>IPv6\<close>

definition is_hex :: "char \<Rightarrow> bool" where
  "is_hex c \<longleftrightarrow> is_digit c \<or> char_in CHR ''a'' c CHR ''f'' \<or> char_in CHR ''A'' c CHR ''F''"

definition hex_val :: "char \<Rightarrow> int" where
  "hex_val c = (if is_digit c then digit_val c
     else if char_in CHR ''a'' c CHR ''f'' then of_char c - 87 else of_char c - 55)"

definition hex_int :: "string \<Rightarrow> int" where
  "hex_int s = foldl (\<lambda>a c. a * 16 + hex_val c) 0 s"

lemma dropWhile_shorter: "xs = dropWhile P s \<Longrightarrow> length xs \<le> length s"
  by (simp add: length_dropWhile_le)

text \<open>
  The main loop of \<open>parseIPv6\<close>; \<open>bytes\<close> are the bytes written so far (the code's \<open>i\<close> is
  their number) and \<open>ell\<close> the position of \<open>::\<close>. The result holds what is left of the text.
\<close>

function parseIPv6_loop :: "string \<Rightarrow> string \<Rightarrow> int list \<Rightarrow> nat option \<Rightarrow>
    error + (int list \<times> nat option \<times> string)" where
  "parseIPv6_loop inp s bytes ell =
     (if 16 \<le> length bytes then Inr (bytes, ell, s)
      else let ds = takeWhile is_hex s; rest = dropWhile is_hex s; acc = hex_int ds;
               bytes' = bytes @ [acc div 256, acc mod 256] in
        if 4 < length ds then Inl (parse_error inp ''each group must have 4 or less digits'')
        else if ds = [] then Inl (parse_error inp ''each colon-separated field must have at least one digit'')
        else if rest \<noteq> [] \<and> hd rest = CHR ''.'' then
          if ell = None \<and> length bytes \<noteq> 12 then
            Inl (parse_error inp ''embedded IPv4 address must replace the final 2 fields of the address'')
          else if 16 < length bytes + 4 then
            Inl (parse_error inp ''too many hex fields to fit an embedded IPv4 at the end of the address'')
          else (case parseIPv4Fields inp s of Inl e \<Rightarrow> Inl e | Inr fs \<Rightarrow> Inr (bytes @ fs, ell, []))
        else (case rest of
            [] \<Rightarrow> Inr (bytes', ell, [])
          | c # rest1 \<Rightarrow>
              if c \<noteq> CHR '':'' then Inl (parse_error inp ''unexpected character, want colon'')
              else (case rest1 of
                  [] \<Rightarrow> Inl (parse_error inp ''colon must be followed by more characters'')
                | d # rest2 \<Rightarrow>
                    if d \<noteq> CHR '':'' then parseIPv6_loop inp rest1 bytes' ell
                    else if ell \<noteq> None then Inl (parse_error inp ''multiple :: in address'')
                    else if rest2 = [] then Inr (bytes', Some (length bytes'), [])
                    else parseIPv6_loop inp rest2 bytes' (Some (length bytes')))))"
  by pat_completeness auto
termination
  by (relation "measure (\<lambda>(_, s, _, _). length s)") (auto, (drule dropWhile_shorter, simp)+)

declare parseIPv6_loop.simps [simp del]

text \<open>
  Expanding \<open>::\<close> to the missing bytes; nothing may be left of the text, and \<open>::\<close> must
  stand for at least one byte.
\<close>

definition parseIPv6_end :: "string \<Rightarrow> string \<Rightarrow> int list \<Rightarrow> nat option \<Rightarrow> string \<Rightarrow> error + addr" where
  "parseIPv6_end inp zone bytes ell rest =
     (if rest \<noteq> [] then Inl (parse_error inp ''trailing garbage after address'')
      else if length bytes < 16 then
        (case ell of
           None \<Rightarrow> Inl (parse_error inp ''address string too short'')
         | Some e \<Rightarrow> Inr (Addr (word_of_int (be_int
              (take e bytes @ replicate (16 - length bytes) 0 @ drop e bytes))) (Z6 zone)))
      else if ell \<noteq> None then
        Inl (parse_error inp ''the :: must expand to at least one field of zeros'')
      else Inr (Addr (word_of_int (be_int bytes)) (Z6 zone)))"

definition parseIPv6_body :: "string \<Rightarrow> string \<Rightarrow> string \<Rightarrow> error + addr" where
  "parseIPv6_body inp s zone =
     (if take 2 s = ''::'' then
        if drop 2 s = [] then Inr (Addr 0 (Z6 zone))
        else (case parseIPv6_loop inp (drop 2 s) [] (Some 0) of
            Inl e \<Rightarrow> Inl e | Inr (bytes, ell, rest) \<Rightarrow> parseIPv6_end inp zone bytes ell rest)
      else (case parseIPv6_loop inp s [] None of
          Inl e \<Rightarrow> Inl e | Inr (bytes, ell, rest) \<Rightarrow> parseIPv6_end inp zone bytes ell rest))"

definition parseIPv6 :: "string \<Rightarrow> error + addr" where
  "parseIPv6 inp = (case index_byte inp CHR ''%'' of
       None \<Rightarrow> parseIPv6_body inp inp []
     | Some i \<Rightarrow>
         let zone = drop (Suc i) inp in
         if zone = [] then Inl (parse_error inp ''zone must be a non-empty string'')
         else parseIPv6_body inp (take i inp) zone)"

section \<open>ParseAddr and ParsePrefix\<close>

fun ParseAddr_scan :: "string \<Rightarrow> string \<Rightarrow> error + addr" where
  "ParseAddr_scan s [] = Inl (parse_error s ''unable to parse IP'')"
| "ParseAddr_scan s (c # cs) =
     (if c = CHR ''.'' then parseIPv4 s
      else if c = CHR '':'' then parseIPv6 s
      else if c = CHR ''%'' then Inl (parse_error s ''missing IPv6 address'')
      else ParseAddr_scan s cs)"

definition ParseAddr :: "string \<Rightarrow> error + addr" where
  "ParseAddr s = ParseAddr_scan s s"

definition ParsePrefix :: "string \<Rightarrow> error + prefix" where
  "ParsePrefix s = (case last_index_byte s CHR ''/'' of
       None \<Rightarrow> Inl (parse_error s ''no slash'')
     | Some i \<Rightarrow>
         (case ParseAddr (take i s) of
            Inl e \<Rightarrow> Inl (Errorf ''netip.ParsePrefix(%q): %v'' [S s, E e])
          | Inr a \<Rightarrow>
              let bitsStr = drop (Suc i) s; maxBits = (if Is6 a then 128 else 32) in
              if Is6 a \<and> Zone a \<noteq> [] then
                Inl (parse_error s ''IPv6 zones cannot be present in a prefix'')
              else if 1 < length bitsStr \<and> \<not> char_in CHR ''1'' (hd bitsStr) CHR ''9'' then
                Inl (parse_error s ''bad bits after slash'')
              else if bitsStr = [] \<or> \<not> list_all is_digit bitsStr then
                Inl (parse_error s ''bad bits after slash'')
              else if maxBits < decimal_acc 0 bitsStr then
                Inl (parse_error s ''prefix length out of range'')
              else Inr (PrefixFrom a (decimal_acc 0 bitsStr))))"

section \<open>What the parsers build\<close>

text \<open>A parsed address is valid and well-formed; a parsed prefix moreover has no zone.\<close>

lemma AddrFrom4_wf: "plain (AddrFrom4 w)"
proof -
  have "v4_mapped (push_bit 32 0xffff OR ucast w)"
  proof -
    have "drop_bit 32 (ucast w :: 128 word) = 0"
      by (rule bit_eqI) (auto simp: bit_simps dest: bit_imp_le_length)
    moreover have "drop_bit 32 (push_bit 32 0xffff :: 128 word) = 0xffff" by simp
    ultimately show ?thesis by simp
  qed
  then show ?thesis by (simp add: plain_def AddrFrom4_def)
qed

lemma parseIPv4_wf: "parseIPv4 s = Inr a \<Longrightarrow> plain a"
  using AddrFrom4_wf by (auto simp: parseIPv4_def map_sum_def split: sum.splits)

lemma parseIPv6_body_kind: "parseIPv6_body inp s zone = Inr a \<Longrightarrow> z a = Z6 zone"
  by (auto simp: parseIPv6_body_def parseIPv6_end_def split: if_splits sum.splits option.splits)

lemma parseIPv6_kind: "parseIPv6 s = Inr a \<Longrightarrow> \<exists>zone. z a = Z6 zone"
  using parseIPv6_body_kind by (fastforce simp: parseIPv6_def Let_def split: option.splits if_splits)

lemma ParseAddr_scan_wf: "ParseAddr_scan s cs = Inr a \<Longrightarrow> addr_wf a \<and> addr_IsValid a"
proof (induction cs)
  case (Cons c cs)
  have "plain a \<Longrightarrow> addr_wf a \<and> addr_IsValid a" by (rule plain_wf)
  moreover have "z a = Z6 zone \<Longrightarrow> addr_wf a \<and> addr_IsValid a" for zone
    by (simp add: addr_wf_def addr_IsValid_def)
  ultimately show ?case
    using Cons parseIPv4_wf [of s a] parseIPv6_kind [of s a] by (auto split: if_splits)
qed simp

lemma ParseAddr_wf: "ParseAddr s = Inr a \<Longrightarrow> addr_wf a \<and> addr_IsValid a"
  unfolding ParseAddr_def by (rule ParseAddr_scan_wf)

lemma decimal_acc_nonneg: "list_all is_digit cs \<Longrightarrow> 0 \<le> acc \<Longrightarrow> 0 \<le> decimal_acc acc cs"
proof (induction cs arbitrary: acc)
  case (Cons c cs)
  have "0 \<le> digit_val c" using Cons.prems by (simp add: is_digit_def digit_val_def)
  then show ?case using Cons by simp
qed simp

lemma ParsePrefix_wf:
  assumes "ParsePrefix s = Inr p"
  shows "prefix_wf p"
proof -
  obtain i a where a: "ParseAddr (take i s) = Inr a"
    and zone: "\<not> (Is6 a \<and> Zone a \<noteq> [])"
    and digits: "list_all is_digit (drop (Suc i) s)"
    and le: "decimal_acc 0 (drop (Suc i) s) \<le> (if Is6 a then 128 else 32)"
    and p: "p = PrefixFrom a (decimal_acc 0 (drop (Suc i) s))"
    using assms by (auto simp: ParsePrefix_def Let_def split: option.splits sum.splits if_splits)
  have wf: "addr_wf a" "z a \<noteq> Z0" using ParseAddr_wf [OF a] by (auto simp: addr_IsValid_def)
  have "0 \<le> decimal_acc 0 (drop (Suc i) s)" using decimal_acc_nonneg [OF digits] by simp
  moreover have "(if Is6 a then 128 else 32) = int (BitLen a)"
    using wf(2) by (cases "z a") (auto simp: Is6_def BitLen_def)
  ultimately show ?thesis using PrefixFrom_wf [OF wf] le p by simp
qed

section \<open>Printing\<close>

text \<open>\<open>Addr.String\<close> and \<open>Prefix.String\<close>: dotted decimal, and the shortest form of RFC 5952.\<close>

function hex_nat :: "int \<Rightarrow> string" where
  "hex_nat n = (let d = (\<lambda>k. if k < 10 then char_of (48 + k) else char_of (87 + k)) in
     if n < 16 then [d n] else hex_nat (n div 16) @ [d (n mod 16)])"
  by pat_completeness auto
termination
  by (relation "measure nat") auto

declare hex_nat.simps [simp del]

definition string4 :: "addr \<Rightarrow> string" where
  "string4 a = (let x = uint (ip a) mod 4294967296 in
     FormatUint (x div 16777216) @ ''.'' @ FormatUint (x div 65536 mod 256) @ ''.'' @
     FormatUint (x div 256 mod 256) @ ''.'' @ FormatUint (x mod 256))"

definition v6_groups :: "addr \<Rightarrow> int list" where
  "v6_groups a = map (\<lambda>i. uint (ip a) div 2 ^ (112 - 16 * i) mod 65536) [0..<8]"

definition zero_run :: "int list \<Rightarrow> nat \<times> nat" where
  "zero_run gs = foldl (\<lambda>(s, e) i. let j = i + length (takeWhile (\<lambda>g. g = 0) (drop i gs)) in
     if 2 \<le> j - i \<and> e - s < j - i then (i, j) else (s, e)) (255, 255) [0..<8]"

function emit6 :: "int list \<Rightarrow> nat \<Rightarrow> nat \<Rightarrow> nat \<Rightarrow> string" where
  "emit6 gs s e i =
     (if 8 \<le> i then []
      else if i = s \<and> i < e then ''::'' @ (if 8 \<le> e then [] else hex_nat (gs ! e) @ emit6 gs s e (e + 1))
      else (if 0 < i then '':'' else []) @ hex_nat (gs ! i) @ emit6 gs s e (i + 1))"
  by pat_completeness auto
termination
  by (relation "measure (\<lambda>(_, _, _, i). 8 - i)") auto

declare emit6.simps [simp del]

definition zone_suffix :: "addr \<Rightarrow> string" where
  "zone_suffix a = (if Zone a = [] then [] else ''%'' @ Zone a)"

definition addr_String :: "addr \<Rightarrow> string" where
  "addr_String a = (case z a of
     Z0 \<Rightarrow> ''invalid IP''
   | Z4 \<Rightarrow> string4 a
   | Z6 _ \<Rightarrow>
       if Is4In6 a then ''::ffff:'' @ string4 a @ zone_suffix a
       else (case zero_run (v6_groups a) of (s, e) \<Rightarrow> emit6 (v6_groups a) s e 0 @ zone_suffix a))"

definition prefix_String :: "prefix \<Rightarrow> string" where
  "prefix_String p = (if prefix_IsValid p then addr_String (paddr p) @ ''/'' @ FormatInt (Bits p) else ''invalid Prefix'')"

lemma addr_String_examples:
  "addr_String (AddrFrom4 0x0a000001) = ''10.0.0.1''"
  "addr_String (AddrFrom16 0x20010db8000000000001000000000001) = ''2001:db8::1:0:0:1''"
  "addr_String (AddrFrom16 0) = ''::''" "addr_String (AddrFrom16 1) = ''::1''"
  "addr_String (Addr 0xffff01020304 (Z6 ''e0'')) = ''::ffff:1.2.3.4%e0''"
  "prefix_String (Prefix (AddrFrom4 0x0a000000) 9) = ''10.0.0.0/8''"
  by code_simp+

end
