(* ===== verification/Records.thy ===== *)
theory Records
  imports Iter Netip_Text "HOL-Library.AList"
begin

text \<open>
  \<open>attribution/attribution.go\<close>: the attribution record, the entry a plugin yields for one
  network, and the plugin interface. A plugin is the record of its methods; the optional
  interfaces \<open>DirectPlugin\<close> and \<open>RezmossPlugin\<close> that a type assertion tests for are
  optional fields.
\<close>

section \<open>Time\<close>

text \<open>
  \<open>time.Time\<close> (standard library): seconds since year 1 as an \<open>int64\<close>, and nanoseconds.
  The zero value is year 1; \<open>Unix\<close> and \<open>time.Unix\<close> shift by the seconds between the epochs.
\<close>

datatype gotime = Time (tsec: "64 word") (tnsec: nat)

abbreviation zeroTime :: gotime where
  "zeroTime \<equiv> Time 0 0"

definition time_IsZero :: "gotime \<Rightarrow> bool" where
  "time_IsZero t \<longleftrightarrow> tsec t = 0 \<and> tnsec t = 0"

definition unixToInternal :: "64 word" where
  "unixToInternal = 62135596800"

definition time_Unix :: "gotime \<Rightarrow> 64 word" where
  "time_Unix t = tsec t - unixToInternal"

definition unixTime :: "64 word \<Rightarrow> gotime" where
  "unixTime sec = Time (sec + unixToInternal) 0"

definition time_Before :: "gotime \<Rightarrow> gotime \<Rightarrow> bool" where
  "time_Before t u \<longleftrightarrow> sint (tsec t) < sint (tsec u) \<or> tsec t = tsec u \<and> tnsec t < tnsec u"

lemma time_Unix_unixTime [simp]: "time_Unix (unixTime s) = s"
  by (simp add: time_Unix_def unixTime_def)

text \<open>\<open>Before\<close> is the strict part of a linear order.\<close>

instantiation gotime :: linorder
begin

definition less_gotime :: "gotime \<Rightarrow> gotime \<Rightarrow> bool" where
  "less_gotime t u \<longleftrightarrow> time_Before t u"

definition less_eq_gotime :: "gotime \<Rightarrow> gotime \<Rightarrow> bool" where
  "less_eq_gotime t u \<longleftrightarrow> \<not> time_Before u t"

instance
proof
  fix t u v :: gotime
  have le: "t \<le> u \<longleftrightarrow> sint (tsec t) < sint (tsec u) \<or> sint (tsec t) = sint (tsec u) \<and> tnsec t \<le> tnsec u"
    for t u :: gotime
  proof (cases "tsec t = tsec u")
    case False
    then have "sint (tsec t) \<noteq> sint (tsec u)" using signed_word_eqI by blast
    then show ?thesis using False by (auto simp: less_eq_gotime_def time_Before_def)
  qed (auto simp: less_eq_gotime_def time_Before_def)
  show "t < u \<longleftrightarrow> t \<le> u \<and> \<not> u \<le> t" by (auto simp: less_gotime_def less_eq_gotime_def time_Before_def)
  show "t \<le> t" "t \<le> u \<or> u \<le> t" by (auto simp: le)
  show "t \<le> u \<Longrightarrow> u \<le> v \<Longrightarrow> t \<le> v" by (auto simp: le)
  show "t \<le> u \<Longrightarrow> u \<le> t \<Longrightarrow> t = u" by (cases t; cases u) (auto simp: le dest: signed_word_eqI)
qed

end

lemma time_Before_less: "time_Before t u \<longleftrightarrow> t < u"
  by (simp add: less_gotime_def)

section \<open>Records and entries\<close>

text \<open>
  A Go string map is a partial function; a nil map or slice is the empty one (the code
  tells them apart only where it hands them to a JSON encoder: see the encoders in the header of
  the development).
\<close>

record Record =
  Provider :: string
  Region :: string
  Services :: "string list"
  Categories :: "string list"
  IPv6 :: bool
  Source :: string
  SyncedAt :: gotime
  Ext :: "string \<rightharpoonup> string"
  RecNetwork :: prefix

definition zeroRecord :: Record where
  "zeroRecord = \<lparr>Provider = [], Region = [], Services = [], Categories = [], IPv6 = False,
     Source = [], SyncedAt = zeroTime, Ext = Map.empty, RecNetwork = zeroPrefix\<rparr>"

record Entry =
  Network :: prefix
  Rec :: Record

text \<open>What an entry iterator yields: an error, or an entry.\<close>

type_synonym item = "error + Entry"
type_synonym 's entry_seq = "(item, 's) seq"

section \<open>Plugins and their registries\<close>

text \<open>
  An opened reader, as what reading it to the end gives: its bytes, and the error the read
  ends with (none at a regular end of file).
\<close>

datatype reader = Reader (content: string) (fault: "error option")

text \<open>
  \<open>Parse\<close> gets the ref and the opened feed. The state type \<open>'s\<close> is that of the consumer
  of the iterator it returns.
\<close>

type_synonym 's ParseFunc = "string \<Rightarrow> reader \<Rightarrow> 's entry_seq"

record 's Plugin =
  Name :: string
  Refs :: "string list"
  Parse :: "'s ParseFunc"
  DirectRefs :: "string list option"
  PluginRezmossRefs :: "string list option"

definition RefsFor :: "'s Plugin \<Rightarrow> bool \<Rightarrow> string list" where
  "RefsFor p direct =
     (if direct then (case DirectRefs p of Some refs \<Rightarrow> refs | None \<Rightarrow> Refs p) else Refs p)"

text \<open>
  The three global maps, keyed by name (no key twice). Map iteration order is unspecified
  in Go, so the order of these lists carries no meaning.
\<close>

type_synonym 's registry = "(string \<times> 's Plugin) list"

record 's registries =
  registry :: "'s registry"
  reputationRegistry :: "'s registry"
  asnRegistry :: "'s registry"

definition Register :: "'s Plugin \<Rightarrow> 's registries \<Rightarrow> 's registries" where
  "Register p g = g\<lparr>registry := AList.update (Name p) p (registry g)\<rparr>"

definition RegisterReputation :: "'s Plugin \<Rightarrow> 's registries \<Rightarrow> 's registries" where
  "RegisterReputation p g = g\<lparr>reputationRegistry := AList.update (Name p) p (reputationRegistry g)\<rparr>"

definition RegisterASN :: "'s Plugin \<Rightarrow> 's registries \<Rightarrow> 's registries" where
  "RegisterASN p g = g\<lparr>asnRegistry := AList.update (Name p) p (asnRegistry g)\<rparr>"

definition Plugins :: "'s registries \<Rightarrow> 's registry" where
  "Plugins g = foldl (\<lambda>out (k, v). AList.update k v out) [] (registry g)"

definition ReputationPlugins :: "'s registries \<Rightarrow> 's registry" where
  "ReputationPlugins g = foldl (\<lambda>out (k, v). AList.update k v out) [] (reputationRegistry g)"

definition ASNPlugins :: "'s registries \<Rightarrow> 's registry" where
  "ASNPlugins g = foldl (\<lambda>out (k, v). AList.update k v out) [] (asnRegistry g)"

definition Lookup :: "'s registries \<Rightarrow> string \<Rightarrow> 's Plugin option" where
  "Lookup g name = map_of (registry g) name"

text \<open>The registries a program can build: each plugin stands under its own name, once.\<close>

definition registry_ok :: "'s registry \<Rightarrow> bool" where
  "registry_ok reg \<longleftrightarrow> distinct (map fst reg) \<and> (\<forall>(n, p) \<in> set reg. Name p = n)"

lemma registry_update_ok: "registry_ok reg \<Longrightarrow> registry_ok (AList.update (Name p) p reg)"
proof -
  assume ok: "registry_ok reg"
  have "Name q = n" if "(n, q) \<in> set (AList.update (Name p) p reg)" for n q
    using that ok
    by (induction reg) (auto simp: registry_ok_def split: if_splits)
  then show ?thesis
    using ok by (auto simp: registry_ok_def distinct_update)
qed

lemma Lookup_Register: "Lookup (Register p g) n = (if n = Name p then Some p else Lookup g n)"
  by (simp add: Lookup_def Register_def update_conv')

text \<open>The copies the getters hand out hold the same plugins.\<close>

lemma update_new: "k \<notin> fst ` set xs \<Longrightarrow> AList.update k v xs = xs @ [(k, v)]"
  by (induction xs) auto

lemma registry_copy:
  "distinct (map fst reg) \<Longrightarrow> foldl (\<lambda>out (k, v). AList.update k v out) [] reg = reg"
  by (induction reg rule: rev_induct) (auto simp: update_new)

lemma getters_copy:
  "registry_ok (registry g) \<Longrightarrow> Plugins g = registry g"
  "registry_ok (reputationRegistry g) \<Longrightarrow> ReputationPlugins g = reputationRegistry g"
  "registry_ok (asnRegistry g) \<Longrightarrow> ASNPlugins g = asnRegistry g"
  by (simp_all add: registry_ok_def Plugins_def ReputationPlugins_def ASNPlugins_def registry_copy)

end
