(* ===== verification/Storage.thy ===== *)
theory Storage
  imports Records
begin

text \<open>
  \<open>attribution/storage.go\<close>: the on-disk form of a record. \<open>mmdb\<close> are the value types of
  \<open>mmdbtype\<close> the code builds and type-switches on; \<open>storedRecord\<close> is what the reader decodes.
\<close>

datatype mmdb =
    MString string
  | MSlice "mmdb list"
  | MMap "string \<Rightarrow> mmdb option"
  | MBool bool
  | MUint64 "64 word"

type_synonym mmdb_map = "string \<rightharpoonup> mmdb"

record storedRecord =
  sProvider :: string
  sRegion :: string
  sServices :: "string list"
  sCategories :: "string list"
  sIPv6 :: bool
  sSource :: string
  sSyncedAt :: "64 word"
  sExt :: "string \<rightharpoonup> string"

definition toRecord :: "storedRecord \<Rightarrow> Record" where
  "toRecord s =
     (let syncedAt = (if 0 < sSyncedAt s then unixTime (sSyncedAt s) else zeroTime) in
      \<lparr>Provider = sProvider s, Region = sRegion s, Services = sServices s,
       Categories = sCategories s, IPv6 = sIPv6 s, Source = sSource s,
       SyncedAt = syncedAt, Ext = sExt s, RecNetwork = zeroPrefix\<rparr>)"

section \<open>dedupeSorted\<close>

text \<open>
  The loop over \<open>cp\<close> writes into \<open>cp[:0]\<close>. Its variable \<open>last\<close> is the last element kept,
  and \<open>i = 0\<close> exactly when none is kept yet.
\<close>

definition dedupe_step :: "string list \<Rightarrow> string \<Rightarrow> string list" where
  "dedupe_step out s = (if out = [] \<or> s \<noteq> last out then out @ [s] else out)"

definition dedupeSorted :: "string list \<Rightarrow> string list" where
  "dedupeSorted xs = (if xs = [] then xs else inplace_loop dedupe_step (sort xs) 0 0)"

lemma dedupe_foldl:
  assumes "sorted (out @ xs)" "distinct out"
  shows "foldl dedupe_step out xs = out @ sorted_list_of_set (set xs - set out)"
  using assms
proof (induction xs arbitrary: out)
  case (Cons x xs)
  show ?case
  proof (cases "x \<in> set out")
    case True
    then have "out \<noteq> []" by auto
    then have "last out \<le> x" "x \<le> last out"
      using True Cons.prems(1) sorted_le_last [of out x] by (auto simp: sorted_append)
    then have "dedupe_step out x = out" using \<open>out \<noteq> []\<close> by (auto simp: dedupe_step_def)
    moreover have "set (x # xs) - set out = set xs - set out" using True by auto
    ultimately show ?thesis
      using Cons.IH [of out] Cons.prems by (simp add: sorted_append)
  next
    case False
    then have "dedupe_step out x = out @ [x]"
      using last_in_set [of out] by (auto simp: dedupe_step_def)
    then have "foldl dedupe_step out (x # xs) =
        (out @ [x]) @ sorted_list_of_set (set xs - set (out @ [x]))"
      using Cons.IH [of "out @ [x]"] Cons.prems False by simp
    also have "\<dots> = out @ sorted_list_of_set (insert x (set xs - set (out @ [x])))"
      using Cons.prems(1) by (subst sorted_list_of_set_Cons) (auto simp: sorted_append less_le)
    also have "insert x (set xs - set (out @ [x])) = set (x # xs) - set out" using False by auto
    finally show ?thesis .
  qed
qed simp

lemma dedupeSorted_eq: "dedupeSorted xs = sorted_list_of_set (set xs)"
proof -
  have "inplace_loop dedupe_step (sort xs) 0 0 = foldl dedupe_step [] (sort xs)"
    by (rule inplace_loop_whole) (simp add: dedupe_step_def)
  also have "\<dots> = sorted_list_of_set (set xs)"
    using dedupe_foldl [of "[]" "sort xs"] by simp
  finally show ?thesis by (simp add: dedupeSorted_def)
qed

lemma set_dedupeSorted [simp]: "set (dedupeSorted xs) = set xs"
  and sorted_dedupeSorted [simp]: "sorted (dedupeSorted xs)"
  and distinct_dedupeSorted [simp]: "distinct (dedupeSorted xs)"
  and dedupeSorted_Nil [simp]: "dedupeSorted xs = [] \<longleftrightarrow> xs = []"
  by (simp_all add: dedupeSorted_eq)

section \<open>toMMDB\<close>

definition synced_of :: "gotime \<Rightarrow> 64 word" where
  "synced_of t = (if \<not> time_IsZero t then (let u = time_Unix t in if 0 <s u then u else 0) else 0)"

definition ext_of :: "(string \<rightharpoonup> string) \<Rightarrow> mmdb_map" where
  "ext_of ext k = (case ext k of None \<Rightarrow> None | Some v \<Rightarrow> if v = [] then None else Some (MString v))"

definition toMMDB :: "Record \<Rightarrow> bool \<Rightarrow> mmdb_map" where
  "toMMDB r ipv6 =
     (let services = map MString (dedupeSorted (Services r));
          m = [''provider'' \<mapsto> MString (Provider r),
               ''region'' \<mapsto> MString (Region r),
               ''services'' \<mapsto> MSlice services,
               ''ipv6'' \<mapsto> MBool ipv6,
               ''source'' \<mapsto> MString (Source r),
               ''synced_at'' \<mapsto> MUint64 (synced_of (SyncedAt r)),
               ''ext'' \<mapsto> MMap (ext_of (Ext r))];
          cats = dedupeSorted (Categories r)
      in if 0 < length cats then m(''categories'' \<mapsto> MSlice (map MString cats)) else m)"

definition isV6Network :: "prefix \<Rightarrow> bool" where
  "isV6Network p \<longleftrightarrow> Is6 (paddr p) \<and> \<not> Is4In6 (paddr p)"

section \<open>The schema of a stored record\<close>

text \<open>
  The view of a stored map through its schema. A field the schema does not find (or finds
  at another type) reads as its zero value, which is what the code's type switches do.
\<close>

definition str_field :: "string \<Rightarrow> mmdb_map \<Rightarrow> string" where
  "str_field k m = (case m k of Some (MString s) \<Rightarrow> s | _ \<Rightarrow> [])"

definition slice_strings :: "mmdb option \<Rightarrow> string list" where
  "slice_strings d = (case d of
     Some (MSlice xs) \<Rightarrow> concat (map (\<lambda>x. case x of MString s \<Rightarrow> [s] | _ \<Rightarrow> []) xs) | _ \<Rightarrow> [])"

definition map_strings :: "mmdb option \<Rightarrow> (string \<rightharpoonup> string)" where
  "map_strings d k = (case d of
     Some (MMap m) \<Rightarrow> (case m k of Some (MString s) \<Rightarrow> Some s | _ \<Rightarrow> None) | _ \<Rightarrow> None)"

definition uint_field :: "string \<Rightarrow> mmdb_map \<Rightarrow> 64 word" where
  "uint_field k m = (case m k of Some (MUint64 u) \<Rightarrow> u | _ \<Rightarrow> 0)"

definition bool_field :: "string \<Rightarrow> mmdb_map \<Rightarrow> bool" where
  "bool_field k m = (case m k of Some (MBool b) \<Rightarrow> b | _ \<Rightarrow> False)"

definition stored_of :: "mmdb_map \<Rightarrow> storedRecord" where
  "stored_of m =
     \<lparr>sProvider = str_field ''provider'' m, sRegion = str_field ''region'' m,
      sServices = slice_strings (m ''services''), sCategories = slice_strings (m ''categories''),
      sIPv6 = bool_field ''ipv6'' m, sSource = str_field ''source'' m,
      sSyncedAt = uint_field ''synced_at'' m, sExt = map_strings (m ''ext'')\<rparr>"

definition is_strings :: "mmdb \<Rightarrow> bool" where
  "is_strings d \<longleftrightarrow> (\<exists>xs. d = MSlice (map MString xs) \<and> sorted xs \<and> distinct xs)"

text \<open>
  The type invariant: every key of the schema at its type, arrays canonical (sorted, no
  duplicates), \<open>categories\<close> absent or non-empty, \<open>ext\<close> a map to non-empty strings.
\<close>

definition schema_ok :: "mmdb_map \<Rightarrow> bool" where
  "schema_ok m \<longleftrightarrow>
     dom m \<subseteq> {''provider'', ''region'', ''services'', ''categories'', ''ipv6'', ''source'',
       ''synced_at'', ''ext''} \<and>
     (\<exists>s. m ''provider'' = Some (MString s)) \<and> (\<exists>s. m ''region'' = Some (MString s)) \<and>
     (\<exists>d. m ''services'' = Some d \<and> is_strings d) \<and>
     (\<forall>d. m ''categories'' = Some d \<longrightarrow> is_strings d \<and> d \<noteq> MSlice []) \<and>
     (\<exists>b. m ''ipv6'' = Some (MBool b)) \<and> (\<exists>s. m ''source'' = Some (MString s)) \<and>
     (\<exists>u. m ''synced_at'' = Some (MUint64 u)) \<and>
     (\<exists>x. m ''ext'' = Some (MMap x) \<and> (\<forall>k d. x k = Some d \<longrightarrow> (\<exists>s. d = MString s \<and> s \<noteq> [])))"

lemma slice_strings_map [simp]: "slice_strings (Some (MSlice (map MString xs))) = xs"
  by (simp add: slice_strings_def comp_def)

lemma ext_of_Some: "ext_of ext k = Some d \<longleftrightarrow> (\<exists>v. ext k = Some v \<and> v \<noteq> [] \<and> d = MString v)"
  by (auto simp: ext_of_def split: option.splits)

lemma is_strings_dedupe: "is_strings (MSlice (map MString (dedupeSorted xs)))"
  by (auto simp: is_strings_def intro!: exI [where x = "dedupeSorted xs"])

lemma toMMDB_schema: "schema_ok (toMMDB r b)"
  by (auto simp: schema_ok_def toMMDB_def Let_def ext_of_Some is_strings_dedupe)

lemma map_strings_ext_of:
  "map_strings (Some (MMap (ext_of ext))) k = (case ext k of Some v \<Rightarrow> if v = [] then None else Some v | None \<Rightarrow> None)"
  by (auto simp: map_strings_def ext_of_def split: option.splits)

text \<open>
  Reading back what \<open>toMMDB\<close> wrote: the scalar fields, the service and category sets in
  canonical order, the non-empty ext values, and the timestamp when it is after 1970.
\<close>

lemma stored_toMMDB:
  "stored_of (toMMDB r b) =
     \<lparr>sProvider = Provider r, sRegion = Region r, sServices = dedupeSorted (Services r),
      sCategories = dedupeSorted (Categories r), sIPv6 = b, sSource = Source r,
      sSyncedAt = synced_of (SyncedAt r),
      sExt = (\<lambda>k. case Ext r k of Some v \<Rightarrow> if v = [] then None else Some v | None \<Rightarrow> None)\<rparr>"
proof -
  have "slice_strings None = []" by (simp add: slice_strings_def)
  then show ?thesis
    by (auto simp: stored_of_def toMMDB_def Let_def str_field_def bool_field_def uint_field_def
        map_strings_ext_of fun_eq_iff dedupeSorted_eq)
qed

section \<open>Property: the stored form keeps the record\<close>

text \<open>
  C33. Writing a record and reading its schema back keeps provider, region and source, takes
  the family from the network, makes services and categories sorted and duplicate-free with
  the same elements, drops exactly the empty ext values, and keeps the timestamp to the
  second when it lies after the Unix epoch (anything earlier reads as the zero time).
\<close>

theorem storage_roundtrip:
  "let r' = toRecord (stored_of (toMMDB r b)) in
     Provider r' = Provider r \<and> Region r' = Region r \<and> Source r' = Source r \<and> IPv6 r' = b \<and>
     sorted (Services r') \<and> distinct (Services r') \<and> set (Services r') = set (Services r) \<and>
     sorted (Categories r') \<and> distinct (Categories r') \<and> set (Categories r') = set (Categories r) \<and>
     (\<forall>k. Ext r' k = (if Ext r k = Some [] then None else Ext r k)) \<and>
     SyncedAt r' = (if 0 <s time_Unix (SyncedAt r) \<and> \<not> time_IsZero (SyncedAt r)
       then unixTime (time_Unix (SyncedAt r)) else zeroTime)"
proof -
  have "0 <s u \<Longrightarrow> 0 < u" for u :: "64 word"
    by (metis signed_0 word_sless_alt word_gt_0 less_irrefl)
  then show ?thesis
    by (auto simp: Let_def stored_toMMDB toRecord_def synced_of_def split: option.splits)
qed

end
