(* ===== verification/Merge.thy ===== *)
theory Merge
  imports Storage
begin

text \<open>
  The merge inserter of \<open>attribution/build.go\<close>: what happens to the record already at a
  network when another entry covers it. The locales state its contract for the builder: the
  first writer keeps the identity, categories union across providers, the provider-scoped
  fields union among the records of the first writer's provider.
\<close>

section \<open>The inserter and its helpers\<close>

text \<open>A \<open>DataType\<close> interface value that is nil (a missing key, an empty slot) is \<open>None\<close>.\<close>

definition sameString :: "mmdb option \<Rightarrow> mmdb option \<Rightarrow> bool" where
  "sameString a b = (case (a, b) of (Some (MString x), Some (MString y)) \<Rightarrow> x = y | _ \<Rightarrow> False)"

definition maxUint64 :: "mmdb option \<Rightarrow> mmdb option \<Rightarrow> 64 word" where
  "maxUint64 a b =
     (let av = (case a of Some (MUint64 x) \<Rightarrow> x | _ \<Rightarrow> 0);
          bv = (case b of Some (MUint64 x) \<Rightarrow> x | _ \<Rightarrow> 0)
      in if av < bv then bv else av)"

text \<open>
  The Go code collects the keys of the map \<open>seen\<close> in the runtime's random order and then
  sorts them, so only the set of strings seen matters.
\<close>

definition unionSlices :: "mmdb option \<Rightarrow> mmdb option \<Rightarrow> mmdb list" where
  "unionSlices a b =
     (let seen = slice_strings a @ slice_strings b; keys = sort (remdups seen)
      in map MString keys)"

definition unionExt :: "mmdb option \<Rightarrow> mmdb option \<Rightarrow> mmdb_map" where
  "unionExt a b =
     (let out = (case a of Some (MMap m) \<Rightarrow> m | _ \<Rightarrow> Map.empty)
      in case b of Some (MMap m) \<Rightarrow> out ++ m | _ \<Rightarrow> out)"

definition mergeRecords :: "mmdb_map \<Rightarrow> mmdb option \<Rightarrow> mmdb" where
  "mergeRecords incoming existing = (case existing of
     Some (MMap cur) \<Rightarrow>
       (let cats = unionSlices (cur ''categories'') (incoming ''categories'');
            merged = (if 0 < length cats then cur(''categories'' \<mapsto> MSlice cats) else cur)
        in if \<not> sameString (cur ''provider'') (incoming ''provider'') then MMap merged
           else MMap (merged
             (''services'' \<mapsto> MSlice (unionSlices (cur ''services'') (incoming ''services'')),
              ''ext'' \<mapsto> MMap (unionExt (cur ''ext'') (incoming ''ext'')),
              ''synced_at'' \<mapsto> MUint64 (maxUint64 (cur ''synced_at'') (incoming ''synced_at'')))))
   | _ \<Rightarrow> MMap incoming)"

section \<open>The helpers, through the schema\<close>

lemma unionSlices_strings: "slice_strings (Some (MSlice (unionSlices a b))) =
    sorted_list_of_set (set (slice_strings a) \<union> set (slice_strings b))"
  by (simp add: unionSlices_def Let_def sorted_list_of_set_sort_remdups [symmetric])

lemma unionSlices_is_strings: "is_strings (MSlice (unionSlices a b))"
  by (auto simp: is_strings_def unionSlices_def Let_def)

lemma unionSlices_Nil [simp]:
  "unionSlices a b = [] \<longleftrightarrow> slice_strings a = [] \<and> slice_strings b = []"
  by (auto simp: unionSlices_def Let_def simp flip: set_empty)

lemma map_strings_unionExt:
  assumes "a = Some (MMap x)" "b = Some (MMap y)"
    "\<forall>k d. x k = Some d \<longrightarrow> (\<exists>s. d = MString s)" "\<forall>k d. y k = Some d \<longrightarrow> (\<exists>s. d = MString s)"
  shows "map_strings (Some (MMap (unionExt a b))) = map_strings a ++ map_strings b"
proof
  fix k
  show "map_strings (Some (MMap (unionExt a b))) k = (map_strings a ++ map_strings b) k"
    using assms by (cases "y k") (auto simp: map_strings_def unionExt_def map_add_def split: option.splits mmdb.splits)
qed

lemma maxUint64_max: "maxUint64 (Some (MUint64 x)) (Some (MUint64 y)) = max x y"
  by (auto simp: maxUint64_def max_def)

section \<open>The contract of the merge\<close>

text \<open>
  \<open>store\<close> is what an entry leaves in an empty slot, \<open>merge\<close> what it makes of an occupied
  one. \<open>first_writer\<close>: the identity of the first record stays, the tags of all accumulate.
\<close>

locale first_writer =
  fixes merge :: "'r \<Rightarrow> 'v option \<Rightarrow> 'v" and store :: "'r \<Rightarrow> 'v"
    and ok_in :: "'r \<Rightarrow> bool" and ok :: "'v \<Rightarrow> bool" and ident :: "'v \<Rightarrow> 'i" and tags :: "'v \<Rightarrow> 't set"
  assumes merge_empty: "merge r None = store r"
    and store_ok: "ok_in r \<Longrightarrow> ok (store r)"
    and merge_ok: "ok c \<Longrightarrow> ok_in r \<Longrightarrow> ok (merge r (Some c))"
    and merge_ident: "ok c \<Longrightarrow> ok_in r \<Longrightarrow> ident (merge r (Some c)) = ident c"
    and merge_tags: "ok c \<Longrightarrow> ok_in r \<Longrightarrow> tags (merge r (Some c)) = tags c \<union> tags (store r)"
begin

lemma fold_Some:
  assumes "ok c" "\<forall>r \<in> set rs. ok_in r"
  shows "\<exists>v. foldl (\<lambda>c r. Some (merge r c)) (Some c) rs = Some v \<and> ok v \<and> ident v = ident c \<and>
    tags v = tags c \<union> (\<Union>r \<in> set rs. tags (store r))"
  using assms
proof (induction rs arbitrary: c)
  case (Cons r rs)
  then have "ok (merge r (Some c))" "\<forall>r \<in> set rs. ok_in r" using merge_ok by auto
  then obtain v where "foldl (\<lambda>c r. Some (merge r c)) (Some (merge r (Some c))) rs = Some v"
    "ok v" "ident v = ident (merge r (Some c))"
    "tags v = tags (merge r (Some c)) \<union> (\<Union>r \<in> set rs. tags (store r))"
    using Cons.IH [of "merge r (Some c)"] by blast
  then show ?case using Cons.prems merge_ident merge_tags by auto
qed simp

text \<open>A whole build at one slot: nothing when no entry covers it, else one record.\<close>

lemma fold_first_writer:
  assumes "\<forall>r \<in> set rs. ok_in r"
  shows "foldl (\<lambda>c r. Some (merge r c)) None rs = None \<longleftrightarrow> rs = []"
    and "foldl (\<lambda>c r. Some (merge r c)) None rs = Some v \<Longrightarrow>
      ok v \<and> ident v = ident (store (hd rs)) \<and> tags v = (\<Union>r \<in> set rs. tags (store r))"
proof -
  have "\<exists>v. foldl (\<lambda>c r. Some (merge r c)) None rs = Some v \<and> ok v \<and>
      ident v = ident (store (hd rs)) \<and> tags v = (\<Union>r \<in> set rs. tags (store r))" if "rs \<noteq> []"
    using that assms fold_Some [of "store (hd rs)" "tl rs"] store_ok
    by (cases rs) (auto simp: merge_empty)
  then show "foldl (\<lambda>c r. Some (merge r c)) None rs = None \<longleftrightarrow> rs = []"
    "foldl (\<lambda>c r. Some (merge r c)) None rs = Some v \<Longrightarrow>
      ok v \<and> ident v = ident (store (hd rs)) \<and> tags v = (\<Union>r \<in> set rs. tags (store r))"
    by (cases "rs = []"; auto)+
qed

end

text \<open>
  \<open>owner_merge\<close> adds the fields that belong to the owner, the provider in the identity:
  services unite, ext values are overridden by later ones and the stamp keeps its maximum,
  each over the records of the owner only.
\<close>

locale owner_merge = first_writer merge store ok_in ok ident tags
  for merge :: "'r \<Rightarrow> 'v option \<Rightarrow> 'v" and store ok_in ok ident and tags :: "'v \<Rightarrow> 't set" +
  fixes owner :: "'i \<Rightarrow> 'o" and svcs :: "'v \<Rightarrow> 's set" and exts :: "'v \<Rightarrow> ('k \<rightharpoonup> 'e)"
    and stamp :: "'v \<Rightarrow> 'n::linorder"
  assumes merge_same: "ok c \<Longrightarrow> ok_in r \<Longrightarrow> owner (ident (store r)) = owner (ident c) \<Longrightarrow>
      svcs (merge r (Some c)) = svcs c \<union> svcs (store r) \<and>
      exts (merge r (Some c)) = exts c ++ exts (store r) \<and>
      stamp (merge r (Some c)) = max (stamp c) (stamp (store r))"
    and merge_other: "ok c \<Longrightarrow> ok_in r \<Longrightarrow> owner (ident (store r)) \<noteq> owner (ident c) \<Longrightarrow>
      svcs (merge r (Some c)) = svcs c \<and> exts (merge r (Some c)) = exts c \<and>
      stamp (merge r (Some c)) = stamp c"
begin

abbreviation owned :: "'v \<Rightarrow> 'r list \<Rightarrow> 'r list" where
  "owned c \<equiv> filter (\<lambda>r. owner (ident (store r)) = owner (ident c))"

lemma fold_owned:
  assumes "ok c" "\<forall>r \<in> set rs. ok_in r"
  shows "\<exists>v. foldl (\<lambda>c r. Some (merge r c)) (Some c) rs = Some v \<and>
    svcs v = svcs c \<union> (\<Union>r \<in> set (owned c rs). svcs (store r)) \<and>
    exts v = foldl (++) (exts c) (map (\<lambda>r. exts (store r)) (owned c rs)) \<and>
    stamp v = foldl max (stamp c) (map (\<lambda>r. stamp (store r)) (owned c rs))"
  using assms
proof (induction rs arbitrary: c)
  case (Cons r rs)
  have step: "ok (merge r (Some c))" "ident (merge r (Some c)) = ident c"
    using Cons.prems merge_ok merge_ident by auto
  obtain v where "foldl (\<lambda>c r. Some (merge r c)) (Some (merge r (Some c))) rs = Some v"
    "svcs v = svcs (merge r (Some c)) \<union> (\<Union>r \<in> set (owned (merge r (Some c)) rs). svcs (store r))"
    "exts v = foldl (++) (exts (merge r (Some c))) (map (\<lambda>r. exts (store r)) (owned (merge r (Some c)) rs))"
    "stamp v = foldl max (stamp (merge r (Some c))) (map (\<lambda>r. stamp (store r)) (owned (merge r (Some c)) rs))"
    using Cons.IH [of "merge r (Some c)"] Cons.prems step(1) by auto
  then show ?case
    using Cons.prems step(2) merge_same [of c r] merge_other [of c r] by auto
qed simp

end

section \<open>mergeRecords provides it\<close>

definition stored_map :: "mmdb \<Rightarrow> mmdb_map" where
  "stored_map d = (case d of MMap m \<Rightarrow> m | _ \<Rightarrow> Map.empty)"

definition record_ok :: "mmdb \<Rightarrow> bool" where
  "record_ok d \<longleftrightarrow> (\<exists>m. d = MMap m \<and> schema_ok m)"

text \<open>The identity of a stored record: provider, then region, family and source.\<close>

definition stored_ident :: "mmdb \<Rightarrow> string \<times> string \<times> bool \<times> string" where
  "stored_ident d = (let m = stored_map d in
     (str_field ''provider'' m, str_field ''region'' m, bool_field ''ipv6'' m, str_field ''source'' m))"

definition stored_categories :: "mmdb \<Rightarrow> string set" where
  "stored_categories d = set (slice_strings (stored_map d ''categories''))"

definition stored_services :: "mmdb \<Rightarrow> string set" where
  "stored_services d = set (slice_strings (stored_map d ''services''))"

definition stored_ext :: "mmdb \<Rightarrow> (string \<rightharpoonup> string)" where
  "stored_ext d = map_strings (stored_map d ''ext'')"

definition stored_synced :: "mmdb \<Rightarrow> 64 word" where
  "stored_synced d = uint_field ''synced_at'' (stored_map d)"

lemmas stored_views = stored_ident_def stored_categories_def stored_services_def stored_ext_def
  stored_synced_def stored_map_def

text \<open>The two branches of the merge, as maps.\<close>

lemma mergeRecords_Some:
  "mergeRecords inc (Some (MMap cur)) =
     (let cats = unionSlices (cur ''categories'') (inc ''categories'');
          merged = (if cats \<noteq> [] then cur(''categories'' \<mapsto> MSlice cats) else cur)
      in if \<not> sameString (cur ''provider'') (inc ''provider'') then MMap merged
         else MMap (merged
           (''services'' \<mapsto> MSlice (unionSlices (cur ''services'') (inc ''services'')),
            ''ext'' \<mapsto> MMap (unionExt (cur ''ext'') (inc ''ext'')),
            ''synced_at'' \<mapsto> MUint64 (maxUint64 (cur ''synced_at'') (inc ''synced_at'')))))"
  by (simp add: mergeRecords_def Let_def)

lemma sameString_provider:
  assumes "schema_ok cur" "schema_ok inc"
  shows "sameString (cur ''provider'') (inc ''provider'') \<longleftrightarrow>
    str_field ''provider'' cur = str_field ''provider'' inc"
  using assms by (auto simp: schema_ok_def sameString_def str_field_def)

lemma schema_ok_ext:
  "schema_ok m \<Longrightarrow> \<exists>x. m ''ext'' = Some (MMap x) \<and>
    (\<forall>k d. x k = Some d \<longrightarrow> (\<exists>s. d = MString s \<and> s \<noteq> []))"
  by (simp add: schema_ok_def)

lemma unionExt_ok:
  assumes "a = Some (MMap x)" "b = Some (MMap y)"
    "\<forall>k d. x k = Some d \<longrightarrow> (\<exists>s. d = MString s \<and> s \<noteq> [])" "\<forall>k d. y k = Some d \<longrightarrow> (\<exists>s. d = MString s \<and> s \<noteq> [])"
  shows "\<forall>k d. unionExt a b k = Some d \<longrightarrow> (\<exists>s. d = MString s \<and> s \<noteq> [])"
  using assms by (auto simp: unionExt_def map_add_def split: option.splits)

lemma schema_ok_update:
  assumes "schema_ok m"
  shows "is_strings d \<Longrightarrow> d \<noteq> MSlice [] \<Longrightarrow> schema_ok (m(''categories'' \<mapsto> d))"
    and "is_strings d \<Longrightarrow> schema_ok (m(''services'' \<mapsto> d))"
    and "schema_ok (m(''synced_at'' \<mapsto> MUint64 u))"
    and "\<forall>k d. x k = Some d \<longrightarrow> (\<exists>s. d = MString s \<and> s \<noteq> []) \<Longrightarrow> schema_ok (m(''ext'' \<mapsto> MMap x))"
  using assms by (simp_all add: schema_ok_def)

lemma mergeRecords_record_ok:
  assumes "record_ok c" "schema_ok inc"
  shows "record_ok (mergeRecords inc (Some c))"
proof -
  obtain cur where c: "c = MMap cur" and cur: "schema_ok cur"
    using assms(1) by (auto simp: record_ok_def)
  obtain x where x: "cur ''ext'' = Some (MMap x)" "\<forall>k d. x k = Some d \<longrightarrow> (\<exists>s. d = MString s \<and> s \<noteq> [])"
    using schema_ok_ext [OF cur] by blast
  obtain y where y: "inc ''ext'' = Some (MMap y)" "\<forall>k d. y k = Some d \<longrightarrow> (\<exists>s. d = MString s \<and> s \<noteq> [])"
    using schema_ok_ext [OF assms(2)] by blast
  note ok = unionExt_ok [OF x(1) y(1) x(2) y(2)] unionSlices_is_strings
  define merged where "merged = (if unionSlices (cur ''categories'') (inc ''categories'') \<noteq> []
    then cur(''categories'' \<mapsto> MSlice (unionSlices (cur ''categories'') (inc ''categories''))) else cur)"
  have "schema_ok merged"
    unfolding merged_def using cur schema_ok_update(1) [OF cur ok(2)] by simp
  then have "schema_ok (merged(''services'' \<mapsto> MSlice (unionSlices (cur ''services'') (inc ''services'')),
      ''ext'' \<mapsto> MMap (unionExt (cur ''ext'') (inc ''ext'')), ''synced_at'' \<mapsto> MUint64 u))" for u
    using ok by (intro schema_ok_update) auto
  with \<open>schema_ok merged\<close> show ?thesis
    by (simp add: record_ok_def c mergeRecords_Some Let_def merged_def)
qed

lemma mergeRecords_same:
  assumes "schema_ok cur" "schema_ok inc" "str_field ''provider'' inc = str_field ''provider'' cur"
  shows "slice_strings (stored_map (mergeRecords inc (Some (MMap cur))) ''services'') =
      sorted_list_of_set (set (slice_strings (cur ''services'')) \<union> set (slice_strings (inc ''services'')))"
    and "stored_ext (mergeRecords inc (Some (MMap cur))) =
      map_strings (cur ''ext'') ++ map_strings (inc ''ext'')"
    and "stored_synced (mergeRecords inc (Some (MMap cur))) =
      max (uint_field ''synced_at'' cur) (uint_field ''synced_at'' inc)"
proof -
  have same: "sameString (cur ''provider'') (inc ''provider'')"
    using assms sameString_provider by metis
  show "slice_strings (stored_map (mergeRecords inc (Some (MMap cur))) ''services'') =
      sorted_list_of_set (set (slice_strings (cur ''services'')) \<union> set (slice_strings (inc ''services'')))"
    using same by (simp add: mergeRecords_Some Let_def stored_map_def unionSlices_strings)
  have "stored_map (mergeRecords inc (Some (MMap cur))) ''ext'' =
      Some (MMap (unionExt (cur ''ext'') (inc ''ext'')))"
    using same by (simp add: mergeRecords_Some Let_def stored_map_def)
  moreover obtain x where "cur ''ext'' = Some (MMap x)" "\<forall>k d. x k = Some d \<longrightarrow> (\<exists>s. d = MString s)"
    using schema_ok_ext [OF assms(1)] by blast
  moreover obtain y where "inc ''ext'' = Some (MMap y)" "\<forall>k d. y k = Some d \<longrightarrow> (\<exists>s. d = MString s)"
    using schema_ok_ext [OF assms(2)] by blast
  ultimately show "stored_ext (mergeRecords inc (Some (MMap cur))) =
      map_strings (cur ''ext'') ++ map_strings (inc ''ext'')"
    using map_strings_unionExt by (simp add: stored_ext_def)
  show "stored_synced (mergeRecords inc (Some (MMap cur))) =
      max (uint_field ''synced_at'' cur) (uint_field ''synced_at'' inc)"
    using same assms(1,2) maxUint64_max
    by (auto simp: mergeRecords_Some Let_def stored_views uint_field_def schema_ok_def)
qed

lemma mergeRecords_other:
  assumes "schema_ok cur" "schema_ok inc" "str_field ''provider'' inc \<noteq> str_field ''provider'' cur"
  shows "stored_map (mergeRecords inc (Some (MMap cur))) = (if
      unionSlices (cur ''categories'') (inc ''categories'') = [] then cur
      else cur(''categories'' \<mapsto> MSlice (unionSlices (cur ''categories'') (inc ''categories''))))"
  using assms sameString_provider [of cur inc]
  by (auto simp: mergeRecords_Some Let_def stored_map_def)

lemma mergeRecords_categories:
  "stored_categories (mergeRecords inc (Some (MMap cur))) =
    set (slice_strings (cur ''categories'')) \<union> set (slice_strings (inc ''categories''))"
  by (auto simp: mergeRecords_Some Let_def stored_views unionSlices_strings)

lemma mergeRecords_ident:
  "stored_ident (mergeRecords inc (Some (MMap cur))) = stored_ident (MMap cur)"
  by (auto simp: mergeRecords_Some Let_def stored_views str_field_def bool_field_def)

interpretation build_merge: owner_merge mergeRecords MMap schema_ok record_ok stored_ident
  stored_categories fst stored_services stored_ext stored_synced
proof
  fix c r
  assume "record_ok c" and r: "schema_ok r"
  then obtain cur where c: "c = MMap cur" and cur: "schema_ok cur" by (auto simp: record_ok_def)
  show "record_ok (mergeRecords r (Some c))" using \<open>record_ok c\<close> r by (rule mergeRecords_record_ok)
  show "stored_ident (mergeRecords r (Some c)) = stored_ident c"
    by (simp add: c mergeRecords_ident)
  show "stored_categories (mergeRecords r (Some c)) = stored_categories c \<union> stored_categories (MMap r)"
    by (simp add: c mergeRecords_categories) (simp add: stored_views)
  {
    assume "fst (stored_ident (MMap r)) = fst (stored_ident c)"
    then have "str_field ''provider'' r = str_field ''provider'' cur" by (simp add: c stored_views)
    then show "stored_services (mergeRecords r (Some c)) = stored_services c \<union> stored_services (MMap r) \<and>
      stored_ext (mergeRecords r (Some c)) = stored_ext c ++ stored_ext (MMap r) \<and>
      stored_synced (mergeRecords r (Some c)) = max (stored_synced c) (stored_synced (MMap r))"
      using mergeRecords_same [OF cur r] c
      by (simp add: stored_services_def) (simp add: stored_views)
  next
    assume "fst (stored_ident (MMap r)) \<noteq> fst (stored_ident c)"
    then have "str_field ''provider'' r \<noteq> str_field ''provider'' cur" by (simp add: c stored_views)
    then show "stored_services (mergeRecords r (Some c)) = stored_services c \<and>
      stored_ext (mergeRecords r (Some c)) = stored_ext c \<and>
      stored_synced (mergeRecords r (Some c)) = stored_synced c"
      using mergeRecords_other [OF cur r] c
      by (auto simp: stored_services_def stored_ext_def stored_synced_def uint_field_def)
         (auto simp: stored_map_def)
  }
qed (simp_all add: mergeRecords_def record_ok_def)

section \<open>Property: what accumulates at one network\<close>

definition slot_merge :: "mmdb_map list \<Rightarrow> mmdb option" where
  "slot_merge rs = foldl (\<lambda>c r. Some (mergeRecords r c)) None rs"

definition nonempty_ext :: "Record \<Rightarrow> (string \<rightharpoonup> string)" where
  "nonempty_ext r k = (case Ext r k of Some v \<Rightarrow> if v = [] then None else Some v | None \<Rightarrow> None)"

lemma stored_views_toMMDB:
  "stored_ident (MMap (toMMDB r b)) = (Provider r, Region r, b, Source r)"
  "stored_categories (MMap (toMMDB r b)) = set (Categories r)"
  "stored_services (MMap (toMMDB r b)) = set (Services r)"
  "stored_ext (MMap (toMMDB r b)) = nonempty_ext r"
  "stored_synced (MMap (toMMDB r b)) = synced_of (SyncedAt r)"
  using stored_toMMDB [of r b] set_dedupeSorted
  by (simp_all add: stored_of_def stored_views Let_def nonempty_ext_def fun_eq_iff)

lemma slot_merge_append:
  "slot_merge (rs @ [r]) = Some (mergeRecords r (slot_merge rs))"
  by (simp add: slot_merge_def)

lemma slot_merge_Nil [simp]: "slot_merge [] = None"
  by (simp add: slot_merge_def)

lemma slot_merge_run:
  "\<exists>v. slot_merge (map (\<lambda>(r, b). toMMDB r b) ((r0, b0) # es)) = Some v \<and> record_ok v \<and>
     stored_ident v = (Provider r0, Region r0, b0, Source r0) \<and>
     stored_categories v = (\<Union>(r, b) \<in> set ((r0, b0) # es). set (Categories r)) \<and>
     (let own = filter (\<lambda>(r, b). Provider r = Provider r0) es in
       stored_services v = set (Services r0) \<union> (\<Union>(r, b) \<in> set own. set (Services r)) \<and>
       stored_ext v = foldl (++) (nonempty_ext r0) (map (\<lambda>(r, b). nonempty_ext r) own) \<and>
       stored_synced v = foldl max (synced_of (SyncedAt r0)) (map (\<lambda>(r, b). synced_of (SyncedAt r)) own))"
proof -
  let ?m = "\<lambda>(r, b). toMMDB r b"
  let ?c = "MMap (toMMDB r0 b0)"
  have ok: "record_ok ?c" "\<forall>r \<in> set (map ?m es). schema_ok r"
    using toMMDB_schema by (auto simp: record_ok_def)
  have run: "slot_merge (map ?m ((r0, b0) # es)) =
      foldl (\<lambda>c r. Some (mergeRecords r c)) (Some ?c) (map ?m es)"
    by (simp add: slot_merge_def build_merge.merge_empty)
  have own: "build_merge.owned ?c (map ?m es) = map ?m (filter (\<lambda>(r, b). Provider r = Provider r0) es)"
    by (induction es) (auto simp: stored_views_toMMDB)
  show ?thesis
    using build_merge.fold_Some [OF ok] build_merge.fold_owned [OF ok]
    unfolding run own
    by (auto simp: Let_def stored_views_toMMDB comp_def split_def cong: map_cong)
qed

text \<open>
  C5. The record that a run of covering entries leaves at a network: identity (provider,
  region, family, source) of the first entry; the union of all entries' categories, across
  providers; and, over the entries of the first one's provider only, the union of the
  services, the ext values with later non-empty ones overriding earlier ones, and the latest
  timestamp. The record keeps the schema's type invariant.
\<close>

theorem slot_merge_entries:
  "\<exists>v. slot_merge (map (\<lambda>(r, b). toMMDB r b) ((r0, b0) # es)) = Some v \<and> record_ok v \<and>
     stored_ident v = (Provider r0, Region r0, b0, Source r0) \<and>
     stored_categories v = (\<Union>(r, b) \<in> set ((r0, b0) # es). set (Categories r)) \<and>
     (let own = filter (\<lambda>(r, b). Provider r = Provider r0) es in
       stored_services v = set (Services r0) \<union> (\<Union>(r, b) \<in> set own. set (Services r)) \<and>
       stored_ext v = foldl (++) (nonempty_ext r0) (map (\<lambda>(r, b). nonempty_ext r) own) \<and>
       stored_synced v = foldl max (synced_of (SyncedAt r0)) (map (\<lambda>(r, b). synced_of (SyncedAt r)) own))"
  by (rule slot_merge_run)

end
