(* ===== verification/Builder.thy ===== *)
theory Builder
  imports Merge "HOL-Library.Sublist"
begin

text \<open>
  \<open>Build\<close> of \<open>attribution/build.go\<close>: normalizing prefixes, turning them into networks for the
  writer, and the loop that inserts every entry. The tree of \<open>mmdbwriter\<close> (a third-party
  package) is a parameter, the record \<open>mmdbwriter\<close> of its operations.
\<close>

section \<open>Prefixes and networks\<close>

definition normalizePrefix :: "prefix \<Rightarrow> prefix option" where
  "normalizePrefix p =
     (let addr = paddr p in
      if Is4In6 addr then
        if Bits p < 96 then None else Some (PrefixFrom (Unmap addr) (Bits p - 96))
      else Some p)"

text \<open>
  \<open>net.IP\<close> and \<open>net.IPMask\<close> are byte slices; the ones built here have 4 or 16 bytes, kept as
  words, or are nil.
\<close>

datatype netIP = Bytes4 "32 word" | Bytes16 "128 word"

record IPNet =
  IP :: "netIP option"
  Mask :: "netIP option"

definition AsSlice :: "addr \<Rightarrow> netIP option" where
  "AsSlice a = (case z a of Z0 \<Rightarrow> None | Z4 \<Rightarrow> Some (Bytes4 (ucast (ip a))) | Z6 _ \<Rightarrow> Some (Bytes16 (ip a)))"

definition CIDRMask :: "int \<Rightarrow> nat \<Rightarrow> netIP option" where
  "CIDRMask ones bits =
     (if bits \<noteq> 32 \<and> bits \<noteq> 128 \<or> ones < 0 \<or> int bits < ones then None
      else if bits = 32 then Some (Bytes4 (NOT (mask (32 - nat ones))))
      else Some (Bytes16 (NOT (mask (128 - nat ones)))))"

definition prefixToIPNet :: "prefix \<Rightarrow> IPNet" where
  "prefixToIPNet p =
     (let addr = paddr p; bits = Bits p in
      if Is4 addr then \<lparr>IP = AsSlice addr, Mask = CIDRMask bits 32\<rparr>
      else \<lparr>IP = AsSlice addr, Mask = CIDRMask bits 128\<rparr>)"

text \<open>The addresses a network denotes: those of its byte length that agree under the mask.\<close>

definition ipnet_covers :: "IPNet \<Rightarrow> addr \<Rightarrow> bool" where
  "ipnet_covers n a = (case (IP n, Mask n, AsSlice a) of
     (Some (Bytes4 x), Some (Bytes4 m), Some (Bytes4 y)) \<Rightarrow> x AND m = y AND m
   | (Some (Bytes16 x), Some (Bytes16 m), Some (Bytes16 y)) \<Rightarrow> x AND m = y AND m
   | _ \<Rightarrow> False)"

subsection \<open>Masking in 32 bits\<close>

lemma bit_ucast32: "bit (ucast x :: 32 word) n \<longleftrightarrow> n < 32 \<and> bit x n" for x :: "128 word"
  by (auto simp: bit_simps dest: bit_imp_le_length)

lemma v4_mapped_bits: "v4_mapped x \<Longrightarrow> v4_mapped y \<Longrightarrow> 32 \<le> n \<Longrightarrow> bit x n = bit y n"
  by (rule same_block_bits [where n = 32]) simp_all

lemma masked_eq_iff:
  "x AND NOT (mask n) = y AND NOT (mask n) \<longleftrightarrow> drop_bit n x = drop_bit n y" for x y :: "'a::len word"
proof
  show "x AND NOT (mask n) = y AND NOT (mask n) \<Longrightarrow> drop_bit n x = drop_bit n y"
    by (metis drop_bit_clear)
  assume "drop_bit n x = drop_bit n y"
  then show "x AND NOT (mask n) = y AND NOT (mask n)"
    by (intro bit_eqI) (use same_block_bits [of n y x] in \<open>auto simp: bit_simps not_less\<close>)
qed

lemma drop_bit_ucast32:
  assumes "v4_mapped x" "v4_mapped y" "n \<le> 32"
  shows "drop_bit n (ucast x :: 32 word) = drop_bit n (ucast y) \<longleftrightarrow> drop_bit n x = drop_bit n y"
proof
  assume eq: "drop_bit n (ucast x :: 32 word) = drop_bit n (ucast y)"
  have "bit x (n + i) = bit y (n + i)" for i
  proof (cases "n + i < 32")
    case True
    have "bit (drop_bit n (ucast x :: 32 word)) i = bit (drop_bit n (ucast y :: 32 word)) i"
      using eq by simp
    then show ?thesis using True by (simp add: bit_drop_bit_eq bit_ucast32)
  next
    case False
    then show ?thesis using v4_mapped_bits [OF assms(1,2), of "n + i"] by simp
  qed
  then show "drop_bit n x = drop_bit n y" by (intro bit_eqI) (simp add: bit_drop_bit_eq)
next
  assume eq: "drop_bit n x = drop_bit n y"
  have "bit x (n + i) = bit y (n + i)" for i
    using same_block_bits [OF eq [symmetric]] by simp
  then show "drop_bit n (ucast x :: 32 word) = drop_bit n (ucast y)"
    by (intro bit_eqI) (simp add: bit_drop_bit_eq bit_ucast32)
qed

subsection \<open>What a normalized network covers\<close>

lemma prefixToIPNet_covers:
  assumes "prefix_wf p"
  shows "Mask (prefixToIPNet p) \<noteq> None"
    and "plain a \<Longrightarrow> ipnet_covers (prefixToIPNet p) a \<longleftrightarrow> a \<in> prefix_span p"
proof -
  have b: "0 \<le> Bits p" "Bits p \<le> int (BitLen (paddr p))" using prefix_wf_Bits [OF assms] by auto
  have kind: "z (paddr p) = Z4 \<and> v4_mapped (ip (paddr p)) \<or> z (paddr p) = Z6 []"
    using assms by (auto simp: prefix_wf_def plain_def)
  show "Mask (prefixToIPNet p) \<noteq> None"
    using kind b by (auto simp: prefixToIPNet_def CIDRMask_def Is4_def BitLen_def Let_def)
  assume a: "plain a"
  show "ipnet_covers (prefixToIPNet p) a \<longleftrightarrow> a \<in> prefix_span p"
  proof (cases "z (paddr p) = Z4")
    case True
    then have n: "128 - fixedBits p = 32 - nat (Bits p)" by (simp add: fixedBits_def Is4_def)
    have "z a = Z4 \<Longrightarrow> v4_mapped (ip a)" using a by (auto simp: plain_def)
    then show ?thesis
      using True b kind a drop_bit_ucast32 [of "ip (paddr p)" "ip a" "32 - nat (Bits p)"]
      unfolding in_prefix_span [OF assms] n
      by (auto simp: prefixToIPNet_def ipnet_covers_def CIDRMask_def AsSlice_def Is4_def Let_def
          BitLen_def masked_eq_iff split: zkind.split)
  next
    case False
    then have "128 - fixedBits p = 128 - nat (Bits p)" by (simp add: fixedBits_def Is4_def)
    then show ?thesis
      using False b kind a unfolding in_prefix_span [OF assms]
      by (auto simp: prefixToIPNet_def ipnet_covers_def CIDRMask_def AsSlice_def Is4_def Let_def
          BitLen_def masked_eq_iff plain_def split: zkind.split)
  qed
qed

text \<open>Normalizing: what is rejected, and what the accepted prefix is.\<close>

lemma normalizePrefix_None:
  "normalizePrefix p = None \<longleftrightarrow> Is4In6 (paddr p) \<and> Bits p < 96"
  by (simp add: normalizePrefix_def Let_def)

lemma Unmap_4in6: "Is4In6 a \<Longrightarrow> Unmap a = Addr (ip a) Z4 \<and> plain (Unmap a)"
  by (simp add: Unmap_def Is4In6_def plain_def)

lemma normalizePrefix_4in6:
  assumes "prefix_wf p" "Is4In6 (paddr p)" "96 \<le> Bits p"
  obtains q where "normalizePrefix p = Some q" "prefix_wf q" "Bits q = Bits p - 96"
    "paddr q = Addr (ip (paddr p)) Z4" "fixedBits q = fixedBits p"
proof -
  let ?a = "Addr (ip (paddr p)) Z4"
  have z: "z (paddr p) = Z6 []"
    using assms by (auto simp: prefix_wf_def plain_def Is4In6_def Is6_def)
  then have "Bits p \<le> 128" using prefix_wf_Bits [OF assms(1)] by (simp add: BitLen_def)
  moreover have "addr_wf ?a" using assms(2) by (simp add: addr_wf_def Is4In6_def)
  ultimately have q: "prefix_wf (PrefixFrom ?a (Bits p - 96))"
      "Bits (PrefixFrom ?a (Bits p - 96)) = Bits p - 96"
    using PrefixFrom_wf [of ?a "Bits p - 96"] assms(3) by (auto simp: BitLen_def)
  have pa: "paddr (PrefixFrom ?a (Bits p - 96)) = ?a"
    by (simp add: PrefixFrom_def withoutZone_def Is6_def)
  have "fixedBits (PrefixFrom ?a (Bits p - 96)) = fixedBits p"
    using z assms(3) by (simp add: fixedBits_def pa q(2) Is4_def)
  then show ?thesis
    using that [of "PrefixFrom ?a (Bits p - 96)"] q pa assms(2,3) Unmap_4in6 [OF assms(2)]
    by (simp add: normalizePrefix_def Let_def)
qed

lemma normalizePrefix_wf:
  assumes "prefix_wf p" "normalizePrefix p = Some q"
  shows "prefix_wf q \<and> \<not> Is4In6 (paddr q)"
proof (cases "Is4In6 (paddr p)")
  case True
  then have "96 \<le> Bits p" using assms(2) normalizePrefix_None [of p] by auto
  then obtain q' where "normalizePrefix p = Some q'" "prefix_wf q'" "paddr q' = Addr (ip (paddr p)) Z4"
    using normalizePrefix_4in6 [OF assms(1) True] by metis
  then show ?thesis using assms(2) by (auto simp: Is4In6_def Is6_def)
next
  case False
  then show ?thesis using assms by (simp add: normalizePrefix_def Let_def)
qed

lemma normalizePrefix_span:
  assumes "prefix_wf p" "normalizePrefix p = Some q" "Is4In6 (paddr p)"
  shows "prefix_span q = Unmap ` prefix_span p"
proof -
  have "96 \<le> Bits p" using assms(2,3) normalizePrefix_None [of p] by auto
  then obtain q' where q': "normalizePrefix p = Some q'" "prefix_wf q'"
      "paddr q' = Addr (ip (paddr p)) Z4" "fixedBits q' = fixedBits p" "Bits q' = Bits p - 96"
    using normalizePrefix_4in6 [OF assms(1,3)] by metis
  have q: "q = q'" using q'(1) assms(2) by simp
  have zp: "z (paddr p) = Z6 []"
    using assms by (auto simp: prefix_wf_def plain_def Is4In6_def Is6_def)
  have fb: "128 - fixedBits p \<le> 32" using \<open>96 \<le> Bits p\<close> zp by (simp add: fixedBits_def Is4_def)
  have mapped: "v4_mapped x"
    if "drop_bit (128 - fixedBits p) x = drop_bit (128 - fixedBits p) (ip (paddr p))" for x
  proof -
    have d: "drop_bit 32 y = drop_bit (32 - (128 - fixedBits p)) (drop_bit (128 - fixedBits p) y)"
      for y :: "128 word" using fb by (simp add: drop_bit_drop_bit)
    then show ?thesis using that assms(3) by (metis Is4In6_def)
  qed
  have "a \<in> prefix_span q \<longleftrightarrow> a \<in> Unmap ` prefix_span p" for a
  proof
    assume a: "a \<in> prefix_span q"
    then have "z a = Z4" "drop_bit (128 - fixedBits p) (ip a) = drop_bit (128 - fixedBits p) (ip (paddr p))"
      using in_prefix_span [OF q'(2)] q' q by auto
    then have "Addr (ip a) (Z6 []) \<in> prefix_span p" "Unmap (Addr (ip a) (Z6 [])) = a"
      using in_prefix_span [OF assms(1)] zp mapped
      by (auto simp: plain_def Unmap_def Is4In6_def Is6_def addr.expand)
    then show "a \<in> Unmap ` prefix_span p" by (metis imageI)
  next
    assume "a \<in> Unmap ` prefix_span p"
    then obtain b where b: "b \<in> prefix_span p" "a = Unmap b" by blast
    then have zb: "z b = Z6 []"
      and db: "drop_bit (128 - fixedBits p) (ip b) = drop_bit (128 - fixedBits p) (ip (paddr p))"
      using in_prefix_span [OF assms(1)] zp by auto
    then have "a = Addr (ip b) Z4" using b mapped by (simp add: Unmap_def Is4In6_def Is6_def)
    then show "a \<in> prefix_span q"
      using in_prefix_span [OF q'(2)] q q' db mapped [OF db] by (simp add: plain_def)
  qed
  then show ?thesis by blast
qed

text \<open>
  C34. A well-formed entry network is rejected exactly when it is a 4-in-6 prefix shorter than
  /96. Otherwise the network handed to the tree has a mask and covers exactly the addresses of
  the entry, a 4-in-6 prefix as the native IPv4 addresses it maps; it never turns into
  0.0.0.0/0 by a nil mask.
\<close>

theorem normalized_network:
  assumes "prefix_wf p"
  shows "(normalizePrefix p = None \<longleftrightarrow> Is4In6 (paddr p) \<and> Bits p < 96) \<and>
    (\<forall>q. normalizePrefix p = Some q \<longrightarrow> prefix_wf q \<and> Mask (prefixToIPNet q) \<noteq> None \<and>
      (\<forall>a. plain a \<longrightarrow> ipnet_covers (prefixToIPNet q) a =
        (a \<in> (if Is4In6 (paddr p) then Unmap ` prefix_span p else prefix_span p))))"
proof -
  have "prefix_span q = (if Is4In6 (paddr p) then Unmap ` prefix_span p else prefix_span p)"
    if "normalizePrefix p = Some q" for q
    using that normalizePrefix_span [OF assms that] by (auto simp: normalizePrefix_def Let_def)
  then show ?thesis
    using normalizePrefix_None normalizePrefix_wf [OF assms] prefixToIPNet_covers by blast
qed

theorem normalized_network_witness:
  "let p = Prefix (Addr 0xffff05060700 (Z6 [])) 121; q = Prefix (Addr 0xffff05060700 Z4) 25 in
     normalizePrefix p = Some q \<and> ipnet_covers (prefixToIPNet q) (AddrFrom4 0x05060701) \<and>
     \<not> ipnet_covers (prefixToIPNet q) (AddrFrom4 0x08080808)"
proof -
  let ?p = "Prefix (Addr 0xffff05060700 (Z6 [])) 121" and ?q = "Prefix (Addr 0xffff05060700 Z4) 25"
  have wf: "prefix_wf ?p" by (simp add: prefix_wf_def plain_def prefix_IsValid_def BitLen_def)
  have q: "normalizePrefix ?p = Some ?q"
    by (simp add: normalizePrefix_def Is4In6_def Is6_def Bits_def Unmap_def PrefixFrom_def
        withoutZone_def BitLen_def)
  have "plain (AddrFrom4 0x05060701)" "plain (AddrFrom4 0x08080808)" by (rule AddrFrom4_wf)+
  with normalized_network [OF wf] q
  have "ipnet_covers (prefixToIPNet ?q) a = (a \<in> Unmap ` prefix_span ?p)"
    if "a = AddrFrom4 0x05060701 \<or> a = AddrFrom4 0x08080808" for a
    using that by (auto simp: Is4In6_def Is6_def)
  then show ?thesis
    using q by (auto simp: ipnet_covers_def prefixToIPNet_def AsSlice_def CIDRMask_def Is4_def
        Bits_def AddrFrom4_def mask_eq_exp_minus_1)
qed

section \<open>Build\<close>

text \<open>
  The writer's tree \<open>'t\<close> and the output \<open>'w\<close>. \<open>InsertFunc\<close> gets the function from the
  value a slot holds to the one it shall hold; it reports whether the network was accepted.
\<close>

record tree_options =
  DatabaseType :: string
  oDescription :: "string \<rightharpoonup> string"
  IPVersion :: int
  oRecordSize :: int
  IncludeReservedNetworks :: bool
  oBuildEpoch :: "64 word"

record ('t, 'w) mmdbwriter =
  NewTree :: "tree_options \<Rightarrow> error + 't"
  InsertFunc :: "'t \<Rightarrow> IPNet \<Rightarrow> (mmdb option \<Rightarrow> mmdb) \<Rightarrow> 't \<times> error option"
  WriteTo :: "'t \<Rightarrow> 'w \<Rightarrow> 'w \<times> error option"

record BuildOptions =
  RecordSize :: int
  Description :: "(string \<rightharpoonup> string) option"
  BuildEpoch :: "64 word"

record BuildStats =
  Inserted :: nat
  Skipped :: nat

definition databaseType :: string where
  "databaseType = ''Cloud-Attribution''"

definition treeOptions :: "BuildOptions \<Rightarrow> tree_options" where
  "treeOptions opts =
     (let recordSize = (if RecordSize opts = 0 then 28 else RecordSize opts);
          desc = (case Description opts of None \<Rightarrow> [''en'' \<mapsto> ''Cloud provider IP attribution''] | Some d \<Rightarrow> d)
      in \<lparr>DatabaseType = databaseType, oDescription = desc, IPVersion = 6,
          oRecordSize = recordSize, IncludeReservedNetworks = True,
          oBuildEpoch = (if BuildEpoch opts \<noteq> 0 then BuildEpoch opts else 0)\<rparr>)"

text \<open>The state of the range loop; \<open>failed\<close> is the error of an early return.\<close>

record 't build_state =
  tree :: 't
  stats :: BuildStats
  failed :: "error option"

definition build_body :: "('t, 'w) mmdbwriter \<Rightarrow> (item, 't build_state) yield" where
  "build_body W it st = (case it of
     Inl err \<Rightarrow> (False, st\<lparr>failed := Some (Errorf ''entry stream: %w'' [E err])\<rparr>)
   | Inr e \<Rightarrow>
       if \<not> prefix_IsValid (Network e) then
         (False, st\<lparr>failed := Some (Errorf ''invalid network in entry for provider %q'' [S (Provider (Rec e))])\<rparr>)
       else (case normalizePrefix (Network e) of
           None \<Rightarrow> (True, st\<lparr>stats := (stats st)\<lparr>Skipped := Skipped (stats st) + 1\<rparr>\<rparr>)
         | Some network \<Rightarrow>
             (let r = (Rec e)\<lparr>IPv6 := isV6Network network\<rparr>;
                  rec = toMMDB r (IPv6 r);
                  ipnet = prefixToIPNet network
              in case InsertFunc W (tree st) ipnet (mergeRecords rec) of
                   (t', Some err) \<Rightarrow>
                     (True, st\<lparr>tree := t', stats := (stats st)\<lparr>Skipped := Skipped (stats st) + 1\<rparr>\<rparr>)
                 | (t', None) \<Rightarrow>
                     (True, st\<lparr>tree := t', stats := (stats st)\<lparr>Inserted := Inserted (stats st) + 1\<rparr>\<rparr>))))"

text \<open>
  The stream of entries may do IO while the loop runs (it opens and reads feeds): its state
  has, beside the loop's, the environment \<open>'e\<close> and the cell \<open>'b\<close> of a buffering collector, which
  the loop's body does not touch.
\<close>

definition with_env :: "('a, 'l) yield \<Rightarrow> ('a, ('l \<times> 'e) \<times> 'b) yield" where
  "with_env body it s = (case s of ((st, e), b) \<Rightarrow> (case body it st of (running, st1) \<Rightarrow> (running, ((st1, e), b))))"

definition build_loop :: "('t, 'w) mmdbwriter \<Rightarrow> (item, ('t build_state \<times> 'e) \<times> 'b) seq \<Rightarrow> 't \<Rightarrow> 'e \<times> 'b \<Rightarrow>
    't build_state \<times> 'e \<times> 'b" where
  "build_loop W entries t env =
     (case entries (with_env (build_body W))
        ((\<lparr>tree = t, stats = \<lparr>Inserted = 0, Skipped = 0\<rparr>, failed = None\<rparr>, fst env), snd env) of
      (_, ((st, e), b)) \<Rightarrow> (st, e, b))"

definition Build :: "('t, 'w) mmdbwriter \<Rightarrow> (item, ('t build_state \<times> 'e) \<times> 'b) seq \<Rightarrow> 'w \<Rightarrow> BuildOptions \<Rightarrow> 'e \<times> 'b \<Rightarrow>
    'w \<times> BuildStats \<times> error option \<times> 'e \<times> 'b" where
  "Build W entries out opts env = (case NewTree W (treeOptions opts) of
     Inl err \<Rightarrow> (out, \<lparr>Inserted = 0, Skipped = 0\<rparr>, Some (Errorf ''new mmdb tree: %w'' [E err]), env)
   | Inr t \<Rightarrow>
       (case build_loop W entries t env of (st, env') \<Rightarrow>
          (case failed st of
             Some err \<Rightarrow> (out, stats st, Some err, env')
           | None \<Rightarrow>
               if Inserted (stats st) = 0 then
                 (out, stats st, Some (Errorf ''no networks inserted (%d skipped)'' [I (int (Skipped (stats st)))]), env')
               else (case WriteTo W (tree st) out of
                   (out', Some err) \<Rightarrow> (out', stats st, Some (Errorf ''write mmdb: %w'' [E err]), env')
                 | (out', None) \<Rightarrow> (out', stats st, None, env')))))"

text \<open>A stream without IO runs as it does on the loop's state alone.\<close>

lemma seq_of_with_env:
  "seq_of xs (with_env body) ((st, e), b) = (case seq_of xs body st of (running, st1) \<Rightarrow> (running, ((st1, e), b)))"
  by (induction xs arbitrary: st) (simp_all add: with_env_def split: prod.split)

lemma build_loop_seq_of:
  "build_loop W (seq_of xs) t env =
    (snd (seq_of xs (build_body W) \<lparr>tree = t, stats = \<lparr>Inserted = 0, Skipped = 0\<rparr>, failed = None\<rparr>), env)"
  by (simp add: build_loop_def seq_of_with_env split: prod.split)

section \<open>What the code relies on in the writer\<close>

text \<open>
  \<open>get t p\<close> is the value of the slot \<open>p\<close> of the tree and \<open>covers n p\<close> that the network \<open>n\<close>
  holds the slot; both are the reader's business. A fresh tree is empty; an accepted insert
  applies its function at exactly the covered slots; a rejected one changes nothing.
\<close>

definition tree_contract ::
    "('t, 'w) mmdbwriter \<Rightarrow> ('t \<Rightarrow> 'p \<Rightarrow> mmdb option) \<Rightarrow> (IPNet \<Rightarrow> 'p \<Rightarrow> bool) \<Rightarrow> bool" where
  "tree_contract W get covers \<longleftrightarrow>
     (\<forall>opts t. NewTree W opts = Inr t \<longrightarrow> (\<forall>p. get t p = None)) \<and>
     (\<forall>t n f t'. InsertFunc W t n f = (t', None) \<longrightarrow>
        (\<forall>p. get t' p = (if covers n p then Some (f (get t p)) else get t p))) \<and>
     (\<forall>t n f t' err. InsertFunc W t n f = (t', Some err) \<longrightarrow> (\<forall>p. get t' p = get t p))"

lemma tree_contractD:
  assumes "tree_contract W get covers"
  shows "NewTree W opts = Inr t \<Longrightarrow> get t p = None"
    and "InsertFunc W t n f = (t', None) \<Longrightarrow> get t' p = (if covers n p then Some (f (get t p)) else get t p)"
    and "InsertFunc W t n f = (t', Some err) \<Longrightarrow> get t' p = get t p"
  using assms unfolding tree_contract_def by blast+

definition normalized :: "Entry \<Rightarrow> prefix" where
  "normalized e = (case normalizePrefix (Network e) of Some q \<Rightarrow> q | None \<Rightarrow> zeroPrefix)"

text \<open>The stored map of an entry, and whether its network covers a slot.\<close>

definition entry_map :: "Entry \<Rightarrow> mmdb_map" where
  "entry_map e = toMMDB (Rec e) (isV6Network (normalized e))"

definition entry_covers :: "(IPNet \<Rightarrow> 'p \<Rightarrow> bool) \<Rightarrow> 'p \<Rightarrow> Entry \<Rightarrow> bool" where
  "entry_covers covers p e \<longleftrightarrow> covers (prefixToIPNet (normalized e)) p"

text \<open>The insertions a run of the loop made, in order, and the slots they leave.\<close>

definition inserted_as :: "('t, 'w) mmdbwriter \<Rightarrow> ('t \<Rightarrow> 'p \<Rightarrow> mmdb option) \<Rightarrow> (IPNet \<Rightarrow> 'p \<Rightarrow> bool) \<Rightarrow>
    't build_state \<Rightarrow> Entry list \<Rightarrow> 't build_state \<Rightarrow> Entry list \<Rightarrow> bool" where
  "inserted_as W get covers st es st' acc \<longleftrightarrow> subseq acc es \<and> failed st' = failed st \<and>
     Inserted (stats st') = Inserted (stats st) + length acc \<and>
     Inserted (stats st') + Skipped (stats st') =
       Inserted (stats st) + Skipped (stats st) + length es \<and>
     (\<forall>e \<in> set acc. normalizePrefix (Network e) \<noteq> None) \<and>
     (\<forall>p. get (tree st') p =
       foldl (\<lambda>c m. Some (mergeRecords m c)) (get (tree st) p)
         (map entry_map (filter (entry_covers covers p) acc)))"

lemma toMMDB_IPv6 [simp]: "toMMDB (r\<lparr>IPv6 := b\<rparr>) c = toMMDB r c"
  by (simp add: toMMDB_def)

lemma build_body_valid:
  assumes "tree_contract W get covers" "prefix_IsValid (Network e)"
  obtains st' acc where "build_body W (Inr e) st = (True, st')" "inserted_as W get covers st [e] st' acc"
proof (cases "normalizePrefix (Network e)")
  case None
  then show ?thesis
    using assms(2) that [of _ "[]"] by (simp add: build_body_def inserted_as_def)
next
  case (Some q)
  define f where "f = mergeRecords (entry_map e)"
  define n where "n = prefixToIPNet q"
  have body: "build_body W (Inr e) st = (case InsertFunc W (tree st) n f of
      (t', Some err) \<Rightarrow> (True, st\<lparr>tree := t', stats := (stats st)\<lparr>Skipped := Suc (Skipped (stats st))\<rparr>\<rparr>)
    | (t', None) \<Rightarrow> (True, st\<lparr>tree := t', stats := (stats st)\<lparr>Inserted := Suc (Inserted (stats st))\<rparr>\<rparr>))"
    using Some assms(2)
    by (simp add: build_body_def f_def n_def entry_map_def normalized_def Let_def)
  obtain t' err where ins: "InsertFunc W (tree st) n f = (t', err)" by (cases "InsertFunc W (tree st) n f")
  show ?thesis
  proof (cases err)
    case None
    have "get t' p = (if covers n p then Some (f (get (tree st) p)) else get (tree st) p)" for p
      using tree_contractD(2) [OF assms(1)] ins None by simp
    then show ?thesis
      using that [of _ "[e]"] ins None body Some
      by (simp add: inserted_as_def entry_covers_def normalized_def n_def f_def)
  next
    case (Some x)
    have "get t' p = get (tree st) p" for p
      using tree_contractD(3) [OF assms(1)] ins Some by simp
    then show ?thesis using that [of _ "[]"] ins Some body by (simp add: inserted_as_def)
  qed
qed

lemma inserted_as_trans:
  assumes "inserted_as W get covers st es st' acc" "inserted_as W get covers st' fs st'' acc'"
  shows "inserted_as W get covers st (es @ fs) st'' (acc @ acc')"
  using assms by (auto simp: inserted_as_def list_emb_append_mono)

lemma build_entries:
  assumes "tree_contract W get covers" "\<forall>e \<in> set es. prefix_IsValid (Network e)"
  obtains st' acc where "seq_of (map Inr es @ rest) (build_body W) st = seq_of rest (build_body W) st'"
    "inserted_as W get covers st es st' acc"
  using assms(2)
proof (induction es arbitrary: st thesis)
  case Nil
  show ?case by (rule Nil.prems(1) [of st "[]"]) (simp_all add: inserted_as_def)
next
  case (Cons e es)
  obtain st1 a1 where 1: "build_body W (Inr e) st = (True, st1)" "inserted_as W get covers st [e] st1 a1"
    using build_body_valid [OF assms(1), of e st] Cons.prems(2) by auto
  obtain st' acc where 2: "seq_of (map Inr es @ rest) (build_body W) st1 = seq_of rest (build_body W) st'"
    "inserted_as W get covers st1 es st' acc"
    using Cons.IH [of st1] Cons.prems(2) by auto
  show ?case
    using Cons.prems(1) [of st' "a1 @ acc"] 1 2 inserted_as_trans [OF 1(2) 2(2)] by simp
qed

text \<open>
  A writer that satisfies the contract: the tree is the function of its slots, the addresses,
  and writing hands the tree over. The witnesses use it.
\<close>

definition function_writer :: "(addr \<Rightarrow> mmdb option, addr \<Rightarrow> mmdb option) mmdbwriter" where
  "function_writer =
     \<lparr>NewTree = (\<lambda>opts. Inr (\<lambda>a. None)),
      InsertFunc = (\<lambda>t n f. ((\<lambda>a. if ipnet_covers n a then Some (f (t a)) else t a), None)),
      WriteTo = (\<lambda>t out. (t, None))\<rparr>"

lemma function_writer_contract: "tree_contract function_writer (\<lambda>t a. t a) ipnet_covers"
  by (simp add: tree_contract_def function_writer_def)

section \<open>Properties of Build\<close>

lemma build_body_stops:
  "build_body W (Inl err) st = (False, st\<lparr>failed := Some (Errorf ''entry stream: %w'' [E err])\<rparr>)"
  "\<not> prefix_IsValid (Network e) \<Longrightarrow> build_body W (Inr e) st =
    (False, st\<lparr>failed := Some (Errorf ''invalid network in entry for provider %q'' [S (Provider (Rec e))])\<rparr>)"
  by (simp_all add: build_body_def)

text \<open>The items before the first that stops the loop.\<close>

lemma split_items:
  obtains es where "xs = map Inr es" "\<forall>e \<in> set es. prefix_IsValid (Network e)"
  | es it rest where "xs = map Inr es @ it # rest" "\<forall>e \<in> set es. prefix_IsValid (Network e)"
      "\<forall>e. it = Inr e \<longrightarrow> \<not> prefix_IsValid (Network e)"
proof (induction xs arbitrary: thesis)
  case Nil
  show ?case by (rule Nil(1) [of "[]"]) simp_all
next
  case (Cons x xs)
  show ?case
  proof (cases "\<exists>e. x = Inr e \<and> prefix_IsValid (Network e)")
    case False
    then show ?thesis using Cons.prems(2) [of "[]" x xs] by auto
  next
    case True
    then obtain e where e: "x = Inr e" "prefix_IsValid (Network e)" by blast
    show ?thesis
    proof (rule Cons.IH)
      fix es assume "xs = map Inr es" "\<forall>e \<in> set es. prefix_IsValid (Network e)"
      then show ?thesis using Cons.prems(1) [of "e # es"] e by simp
    next
      fix es it rest assume "xs = map Inr es @ it # rest" "\<forall>e \<in> set es. prefix_IsValid (Network e)"
        "\<forall>e. it = Inr e \<longrightarrow> \<not> prefix_IsValid (Network e)"
      then show ?thesis using Cons.prems(2) [of "e # es" it rest] e by simp
    qed
  qed
qed

lemma Build_success_run:
  assumes "tree_contract W get covers" and "Build W (seq_of xs) out opts env = (out', sts, None, env')"
  shows "\<exists>es acc t. xs = map Inr es \<and> subseq acc es \<and> acc \<noteq> [] \<and>
    Inserted sts = length acc \<and> Inserted sts + Skipped sts = length es \<and>
    (\<forall>e \<in> set acc. normalizePrefix (Network e) \<noteq> None) \<and> WriteTo W t out = (out', None) \<and>
    (\<forall>p. get t p = slot_merge (map entry_map (filter (entry_covers covers p) acc)))"
proof -
  define st0 where "st0 t = \<lparr>tree = t, stats = \<lparr>Inserted = 0, Skipped = 0\<rparr>, failed = None\<rparr>" for t :: 'a
  obtain t where t: "NewTree W (treeOptions opts) = Inr t"
    using assms(2) by (cases "NewTree W (treeOptions opts)") (auto simp: Build_def)
  define st where "st = snd (seq_of xs (build_body W) (st0 t))"
  have loop: "build_loop W (seq_of xs) t env = (st, env)" by (simp add: build_loop_seq_of st_def st0_def)
  have ok: "failed st = None" "Inserted (stats st) \<noteq> 0" "WriteTo W (tree st) out = (out', None)" "stats st = sts"
    using assms(2) t loop
    by (auto simp: Build_def Let_def split: option.splits if_splits prod.splits)
  show ?thesis
  proof (rule split_items [of xs])
    fix es assume xs: "xs = map Inr es" and valid: "\<forall>e \<in> set es. prefix_IsValid (Network e)"
    obtain st' acc where run: "seq_of (map Inr es @ []) (build_body W) (st0 t) = seq_of [] (build_body W) st'"
      and acc: "inserted_as W get covers (st0 t) es st' acc"
      using build_entries [OF assms(1) valid] by metis
    then have "st = st'" by (simp add: st_def xs)
    moreover have "get t p = None" for p using tree_contractD(1) [OF assms(1) t] .
    ultimately show ?thesis
      using acc ok xs by (intro exI [of _ es] exI [of _ acc] exI [of _ "tree st"])
        (auto simp: inserted_as_def st0_def slot_merge_def)
  next
    fix es it rest assume xs: "xs = map Inr es @ it # rest"
      and valid: "\<forall>e \<in> set es. prefix_IsValid (Network e)"
      and stop: "\<forall>e. it = Inr e \<longrightarrow> \<not> prefix_IsValid (Network e)"
    obtain st' where "seq_of xs (build_body W) (st0 t) = seq_of (it # rest) (build_body W) st'"
      using build_entries [OF assms(1) valid, of "it # rest" "st0 t"] xs by metis
    then have "failed st \<noteq> None"
      using stop by (cases it) (auto simp: st_def build_body_stops)
    then show ?thesis using ok by simp
  qed
qed

text \<open>
  C12. A successful build wrote a tree in which every slot holds exactly the merge, in stream
  order, of the inserted entries that cover it (nothing where none does). The inserted entries
  are a subsequence of the stream, the counters account for every entry, and at least one was
  inserted.
\<close>

theorem Build_success:
  assumes "tree_contract W get covers" and "Build W (seq_of xs) out opts env = (out', sts, None, env')"
  shows "\<exists>es acc t. xs = map Inr es \<and> subseq acc es \<and> acc \<noteq> [] \<and>
    Inserted sts = length acc \<and> Inserted sts + Skipped sts = length es \<and>
    (\<forall>e \<in> set acc. normalizePrefix (Network e) \<noteq> None) \<and> WriteTo W t out = (out', None) \<and>
    (\<forall>p. get t p = slot_merge (map entry_map (filter (entry_covers covers p) acc)))"
  using assms by (rule Build_success_run)


text \<open>
  C13. The first error of the stream, or the first entry without a valid network, ends the
  build: its error is returned, nothing is written, and nothing after it is looked at.
\<close>

theorem Build_stops:
  assumes "tree_contract W get covers" and "NewTree W (treeOptions opts) = Inr t"
    and "\<forall>e \<in> set es. prefix_IsValid (Network e)"
    and "\<forall>e. it = Inr e \<longrightarrow> \<not> prefix_IsValid (Network e)"
  shows "\<exists>sts. Inserted sts + Skipped sts = length es \<and>
    Build W (seq_of (map Inr es @ it # rest)) out opts env = (out, sts, Some (case it of
      Inl err \<Rightarrow> Errorf ''entry stream: %w'' [E err]
    | Inr e \<Rightarrow> Errorf ''invalid network in entry for provider %q'' [S (Provider (Rec e))]), env)"
proof -
  obtain st' acc where run: "seq_of (map Inr es @ it # rest) (build_body W)
      \<lparr>tree = t, stats = \<lparr>Inserted = 0, Skipped = 0\<rparr>, failed = None\<rparr> = seq_of (it # rest) (build_body W) st'"
    and acc: "inserted_as W get covers \<lparr>tree = t, stats = \<lparr>Inserted = 0, Skipped = 0\<rparr>, failed = None\<rparr> es st' acc"
    using build_entries [OF assms(1,3)] by metis
  then show ?thesis
    using assms(2,4) by (cases it)
      (auto simp: Build_def build_loop_seq_of Let_def run build_body_stops inserted_as_def)
qed

text \<open>An entry for the witnesses: 52.94.0.0/22 of the given provider and service.\<close>

definition sample_entry :: "string \<Rightarrow> string \<Rightarrow> Entry" where
  "sample_entry provider service =
     \<lparr>Network = Prefix (Addr 0xffff345e0000 Z4) 23,
      Rec = zeroRecord\<lparr>Provider := provider, Services := [service]\<rparr>\<rparr>"

lemma sample_entry_simps [simp]:
  "normalizePrefix (Network (sample_entry p s)) = Some (Prefix (Addr 0xffff345e0000 Z4) 23)"
  "prefix_IsValid (Network (sample_entry p s))" "Provider (Rec (sample_entry p s)) = p"
  by (simp_all add: sample_entry_def normalizePrefix_def Is4In6_def Is6_def prefix_IsValid_def)

lemma function_writer_build:
  assumes "es \<noteq> []" "\<forall>e \<in> set es. prefix_IsValid (Network e) \<and> normalizePrefix (Network e) \<noteq> None"
  shows "\<exists>out'. Build function_writer (seq_of (map Inr es)) out opts env =
    (out', \<lparr>Inserted = length es, Skipped = 0\<rparr>, None, env)"
proof -
  have "\<exists>t'. seq_of (map Inr es) (build_body function_writer) \<lparr>tree = t, stats = \<lparr>Inserted = n, Skipped = 0\<rparr>, failed = None\<rparr> =
      (True, \<lparr>tree = t', stats = \<lparr>Inserted = n + length es, Skipped = 0\<rparr>, failed = None\<rparr>)" for t n
    using assms(2)
  proof (induction es arbitrary: t n)
    case (Cons e es)
    obtain q where "normalizePrefix (Network e) = Some q" using Cons.prems by auto
    then show ?case
      using Cons.prems Cons.IH [of _ "Suc n"] by (simp add: build_body_def function_writer_def Let_def)
  qed simp
  then obtain t' where "build_loop function_writer (seq_of (map Inr es)) (\<lambda>a. None) env =
      (\<lparr>tree = t', stats = \<lparr>Inserted = length es, Skipped = 0\<rparr>, failed = None\<rparr>, env)"
    unfolding build_loop_seq_of by (metis add_0 snd_conv)
  then show ?thesis
    using assms(1) by (simp add: Build_def function_writer_def)
qed

definition sample_opts :: BuildOptions where
  "sample_opts = \<lparr>RecordSize = 0, Description = None, BuildEpoch = 0\<rparr>"

theorem Build_success_witness:
  "\<exists>acc t. subseq acc [sample_entry ''aws'' ''EC2'', sample_entry ''aws'' ''S3''] \<and> length acc = 2 \<and>
    (\<forall>a. t a = slot_merge (map entry_map (filter (entry_covers ipnet_covers a) acc)))"
proof -
  let ?es = "[sample_entry ''aws'' ''EC2'', sample_entry ''aws'' ''S3'']"
  obtain out' where "Build function_writer (seq_of (map Inr ?es)) (\<lambda>a. None) sample_opts ((), ()) =
      (out', \<lparr>Inserted = length ?es, Skipped = 0\<rparr>, None, ((), ()))"
    using function_writer_build [of ?es "\<lambda>a. None" sample_opts "((), ())"] by auto
  from Build_success [OF function_writer_contract this] obtain es acc t where
    r: "map Inr ?es = (map Inr es :: item list)" "subseq acc es"
      "Inserted \<lparr>Inserted = length ?es, Skipped = 0\<rparr> = length acc"
      "\<forall>p. t p = slot_merge (map entry_map (filter (entry_covers ipnet_covers p) acc))"
    by (elim exE conjE) (rule that)
  have "es = ?es" using inj_map_eq_map [OF inj_Inr, of ?es es] r(1) by blast
  then have "subseq acc ?es" "length acc = 2" using r(2,3) by simp_all
  then show ?thesis using r(4) by blast
qed

theorem Build_stops_witness:
  "\<exists>sts. Inserted sts + Skipped sts = 1 \<and>
    Build function_writer (seq_of [Inr (sample_entry ''aws'' ''EC2''), Inl (LibErr ''bad'' [])]) (\<lambda>a. None)
      sample_opts ((), ()) =
    (\<lambda>a. None, sts, Some (Errorf ''entry stream: %w'' [E (LibErr ''bad'' [])]), ((), ()))"
  using Build_stops [OF function_writer_contract, where es = "[sample_entry ''aws'' ''EC2'']"
      and it = "Inl (LibErr ''bad'' [])" and rest = "[]" and out = "\<lambda>a. None" and opts = sample_opts
      and t = "\<lambda>a. None" and env = "((), ())"]
  by (simp add: function_writer_def)

end
