(* ===== verification/Asn.thy ===== *)
theory Asn
  imports Builder "HOL-Library.Multiset"
begin

text \<open>
  \<open>attribution/asn.go\<close>: the IP-to-AS table, its normalization into disjoint ranges, and the
  enrichment that cuts every entry at announcement boundaries. \<open>netipx\<close> (third party) is a
  parameter, and so is \<open>sort.Slice\<close>, which promises a sorted permutation but no order
  of equal elements.
\<close>

section \<open>Rows and tables\<close>

record ASNRange =
  First :: addr
  Last :: addr
  ASN :: "32 word"
  Org :: string

record ASNTable =
  v4 :: "ASNRange list"
  v6 :: "ASNRange list"

type_synonym row_sort = "(ASNRange \<Rightarrow> ASNRange \<Rightarrow> bool) \<Rightarrow> ASNRange list \<Rightarrow> ASNRange list"

definition first_less :: "ASNRange \<Rightarrow> ASNRange \<Rightarrow> bool" where
  "first_less r r' \<longleftrightarrow> addr_Compare (First r) (First r') < 0"

text \<open>The contract of \<open>sort.Slice\<close> for the comparison used here.\<close>

definition sort_contract :: "row_sort \<Rightarrow> bool" where
  "sort_contract srt \<longleftrightarrow> (\<forall>rows. mset (srt first_less rows) = mset rows \<and>
     sorted_wrt (\<lambda>r r'. \<not> first_less r' r) (srt first_less rows))"

section \<open>Coalescing\<close>

text \<open>One iteration of the loop: \<open>prev\<close> points at the last row of the output.\<close>

definition coalesce_step :: "ASNRange list \<Rightarrow> ASNRange \<Rightarrow> ASNRange list" where
  "coalesce_step out r =
     (if length out = 0 then out @ [r]
      else let prev = last out;
          sameFamily = (Is4 (Last prev) = Is4 (First r));
          overlap = (sameFamily \<and> addr_Compare (First r) (Last prev) \<le> 0);
          next = Next (Last prev)
        in if overlap \<and> (\<not> addr_IsValid next \<or> addr_Compare next (Last r) > 0) then out
           else let r' = (if overlap then r\<lparr>First := next\<rparr> else r)
             in if sameFamily \<and> ASN prev = ASN r' \<and> Org prev = Org r' \<and> Next (Last prev) = First r'
                then butlast out @ [prev\<lparr>Last := Last r'\<rparr>]
                else out @ [r'])"

definition CoalesceASNRanges :: "row_sort \<Rightarrow> ASNRange list \<Rightarrow> ASNRange list" where
  "CoalesceASNRanges srt rows = inplace_loop coalesce_step (srt first_less rows) 0 0"

definition newtable_step :: "ASNTable \<Rightarrow> ASNRange \<Rightarrow> ASNTable" where
  "newtable_step t r =
     (let r = r\<lparr>First := Unmap (First r), Last := Unmap (Last r)\<rparr> in
      if \<not> addr_IsValid (First r) \<or> \<not> addr_IsValid (Last r) \<or> Is4 (First r) \<noteq> Is4 (Last r) \<or>
         addr_Compare (First r) (Last r) > 0 then t
      else if Is4 (First r) then t\<lparr>v4 := v4 t @ [r]\<rparr> else t\<lparr>v6 := v6 t @ [r]\<rparr>)"

definition NewASNTable :: "row_sort \<Rightarrow> ASNRange list \<Rightarrow> ASNTable" where
  "NewASNTable srt rows =
     (let t = foldl newtable_step \<lparr>v4 = [], v6 = []\<rparr> rows;
          t = t\<lparr>v4 := CoalesceASNRanges srt (v4 t)\<rparr>
      in t\<lparr>v6 := CoalesceASNRanges srt (v6 t)\<rparr>)"

definition Len :: "ASNTable \<Rightarrow> nat" where
  "Len t = length (v4 t) + length (v6 t)"

text \<open>
  What a list of rows says about an address: the AS of the first row that contains it.
\<close>

definition row_has :: "ASNRange \<Rightarrow> addr \<Rightarrow> bool" where
  "row_has r a \<longleftrightarrow> First r \<le> a \<and> a \<le> Last r"

definition owner :: "ASNRange list \<Rightarrow> addr \<Rightarrow> (32 word \<times> string) option" where
  "owner rows a = map_option (\<lambda>r. (ASN r, Org r)) (find (\<lambda>r. row_has r a) rows)"

text \<open>A usable row, and the normal form: disjoint, increasing, nothing left to merge.\<close>

definition row_ok :: "ASNRange \<Rightarrow> bool" where
  "row_ok r \<longleftrightarrow> plain (First r) \<and> plain (Last r) \<and> z (Last r) = z (First r) \<and> First r \<le> Last r"

definition disjoint_rows :: "ASNRange list \<Rightarrow> bool" where
  "disjoint_rows rows \<longleftrightarrow> (\<forall>r \<in> set rows. row_ok r) \<and> sorted_wrt (\<lambda>r r'. Last r < First r') rows"

definition mergeable :: "ASNRange \<Rightarrow> ASNRange \<Rightarrow> bool" where
  "mergeable r r' \<longleftrightarrow> ASN r = ASN r' \<and> Org r = Org r' \<and> Next (Last r) = First r'"

definition coalesced :: "ASNRange list \<Rightarrow> bool" where
  "coalesced rows \<longleftrightarrow> disjoint_rows rows \<and> successively (\<lambda>r r'. \<not> mergeable r r') rows"

lemma owner_append: "owner (xs @ ys) a = (case owner xs a of None \<Rightarrow> owner ys a | Some x \<Rightarrow> Some x)"
  by (induction xs) (auto simp: owner_def)

lemma owner_Nil [simp]: "owner [] a = None"
  by (simp add: owner_def)

lemma owner_Cons: "owner (r # rs) a = (if row_has r a then Some (ASN r, Org r) else owner rs a)"
  by (simp add: owner_def)

lemma owner_None: "owner rows a = None \<longleftrightarrow> (\<forall>r \<in> set rows. \<not> row_has r a)"
  by (auto simp: owner_def find_None_iff)

lemma row_has_z: "row_ok r \<Longrightarrow> plain a \<Longrightarrow> row_has r a \<Longrightarrow> z a = z (First r)"
  using plain_convex [of "First r" "Last r" a] by (auto simp: row_ok_def row_has_def)

lemma coalesce_step_length: "length (coalesce_step out r) \<le> Suc (length out)"
  by (simp add: coalesce_step_def Let_def)

text \<open>Hence the loop over the shared backing array is a fold over the sorted rows.\<close>

lemma Coalesce_foldl: "CoalesceASNRanges srt rows = foldl coalesce_step [] (srt first_less rows)"
  by (simp add: CoalesceASNRanges_def inplace_loop_whole coalesce_step_length)

text \<open>
  The loop invariant: the output is in normal form, its last row has the family of the last
  row read, and covers every address from the start of the last row read to its own end.
\<close>

definition coalesce_inv :: "ASNRange list \<Rightarrow> addr \<Rightarrow> bool" where
  "coalesce_inv out f \<longleftrightarrow> out \<noteq> [] \<and> coalesced out \<and> plain f \<and> z f = z (Last (last out)) \<and>
     (\<forall>a. plain a \<and> f \<le> a \<and> a \<le> Last (last out) \<longrightarrow> owner out a \<noteq> None)"

lemma z_or: "plain a \<Longrightarrow> z a = Z4 \<or> z a = Z6 []"
  by (auto simp: plain_def)

lemma Is4_same_z: "plain a \<Longrightarrow> plain b \<Longrightarrow> Is4 a = Is4 b \<longleftrightarrow> z a = z b"
  using z_or [of a] z_or [of b] by (auto simp: Is4_def)

lemma v4_less_v6: "z a = Z4 \<Longrightarrow> z b = Z6 [] \<Longrightarrow> a < b"
  by (simp add: less_addr_def BitLen_def)

text \<open>The row a step appends or merges, when it is not dropped.\<close>

lemma clamp_row:
  assumes r: "row_ok r" and p: "plain l" "z l = z (First r)" "First r \<le> l"
    and keep: "addr_IsValid (Next l)" "Next l \<le> Last r"
  shows "row_ok (r\<lparr>First := Next l\<rparr>)" "l < Next l"
    "plain a \<Longrightarrow> row_has (r\<lparr>First := Next l\<rparr>) a \<longleftrightarrow> row_has r a \<and> l < a"
proof -
  have n: "plain (Next l)" "z (Next l) = z l" "l < Next l" using Next_plain [OF p(1) keep(1)] by auto
  show ok: "row_ok (r\<lparr>First := Next l\<rparr>)" using r n p keep by (simp add: row_ok_def)
  show "l < Next l" by (rule n)
  assume a: "plain a"
  show "row_has (r\<lparr>First := Next l\<rparr>) a \<longleftrightarrow> row_has r a \<and> l < a"
  proof
    assume "row_has (r\<lparr>First := Next l\<rparr>) a"
    then show "row_has r a \<and> l < a" using n(3) p(3) by (auto simp: row_has_def)
  next
    assume h: "row_has r a \<and> l < a"
    then have "z a = z l" using row_has_z [OF r a] p(2) by simp
    then have "Next l \<le> a" using Next_least [OF p(1) a] h by simp
    then show "row_has (r\<lparr>First := Next l\<rparr>) a" using h by (simp add: row_has_def)
  qed
qed

lemma disjoint_rows_snoc:
  "disjoint_rows (rows @ [r]) \<longleftrightarrow> disjoint_rows rows \<and> row_ok r \<and> (\<forall>r' \<in> set rows. Last r' < First r)"
  by (auto simp: disjoint_rows_def last_sorted_wrt)

lemma disjoint_rows_last:
  "disjoint_rows rows \<Longrightarrow> r \<in> set rows \<Longrightarrow> Last r \<le> Last (last rows)"
proof (induction rows rule: rev_induct)
  case (snoc x xs)
  then show ?case by (auto simp: disjoint_rows_snoc row_ok_def)
qed simp

text \<open>Appending a row in normal form, or merging it into its predecessor.\<close>

lemma coalesced_snoc:
  "coalesced (out @ [r]) \<longleftrightarrow> coalesced out \<and> row_ok r \<and> (\<forall>r' \<in> set out. Last r' < First r) \<and>
     (out \<noteq> [] \<longrightarrow> \<not> mergeable (last out) r)"
  by (auto simp: coalesced_def disjoint_rows_snoc successively_append_iff)

lemma owner_snoc: "owner (out @ [r]) a = (case owner out a of
    None \<Rightarrow> if row_has r a then Some (ASN r, Org r) else None | Some x \<Rightarrow> Some x)"
  by (simp add: owner_append owner_Cons split: option.split)

lemma row_has_merged:
  assumes "row_ok p" "row_ok r" "mergeable p r" "plain a"
  shows "row_has (p\<lparr>Last := Last r\<rparr>) a \<longleftrightarrow> row_has p a \<or> row_has r a"
proof
  have v: "addr_IsValid (Next (Last p))"
    using assms(2,3) plain_wf by (auto simp: mergeable_def row_ok_def)
  have lt: "Last p < First r"
    using Next_plain [OF _ v] assms by (auto simp: row_ok_def mergeable_def)
  show "row_has p a \<or> row_has r a" if h: "row_has (p\<lparr>Last := Last r\<rparr>) a"
  proof (cases "a \<le> Last p")
    case True
    then show ?thesis using h by (simp add: row_has_def)
  next
    case False
    have "z (First r) = z (First p)"
      using Next_plain [OF _ v] assms by (auto simp: row_ok_def mergeable_def)
    then have "z a = z (Last p)"
      using plain_convex [of "First p" "Last r" a] h assms by (auto simp: row_ok_def row_has_def)
    then have "First r \<le> a"
      using Next_least [of "Last p" a] False assms by (auto simp: row_ok_def mergeable_def)
    then show ?thesis using h by (simp add: row_has_def)
  qed
  show "row_has (p\<lparr>Last := Last r\<rparr>) a" if "row_has p a \<or> row_has r a"
    using that lt assms(1,2) by (auto simp: row_has_def row_ok_def)
qed

lemma merge_last:
  assumes c: "coalesced (out @ [p])" and r: "row_ok r" "Last p < First r" and m: "mergeable p r"
  shows "coalesced (out @ [p\<lparr>Last := Last r\<rparr>])"
    "plain a \<Longrightarrow> owner (out @ [p\<lparr>Last := Last r\<rparr>]) a = owner (out @ [p, r]) a"
proof -
  have p: "row_ok p" using c by (simp add: coalesced_snoc)
  have "addr_IsValid (Next (Last p))"
    using r m plain_wf by (auto simp: mergeable_def row_ok_def)
  then have zr: "z (First r) = z (First p)"
    using Next_plain [of "Last p"] m p by (auto simp: row_ok_def mergeable_def)
  have "First p \<le> Last r" using p r by (auto simp: row_ok_def)
  then have "row_ok (p\<lparr>Last := Last r\<rparr>)" using p r zr by (simp add: row_ok_def)
  then show "coalesced (out @ [p\<lparr>Last := Last r\<rparr>])"
    using c by (auto simp: coalesced_snoc mergeable_def)
  assume a: "plain a"
  show "owner (out @ [p\<lparr>Last := Last r\<rparr>]) a = owner (out @ [p, r]) a"
    using row_has_merged [OF p r(1) m a] m
    by (auto simp: owner_append owner_Cons mergeable_def split: option.splits)
qed

lemma coalesce_step_snoc:
  assumes "overlap \<longleftrightarrow> Is4 (Last p) = Is4 (First r) \<and> First r \<le> Last p"
    and "r' = (if overlap then r\<lparr>First := Next (Last p)\<rparr> else r)"
  shows "coalesce_step (out @ [p]) r =
    (if overlap \<and> (\<not> addr_IsValid (Next (Last p)) \<or> Last r < Next (Last p)) then out @ [p]
     else if Is4 (Last p) = Is4 (First r) \<and> mergeable p r' then out @ [p\<lparr>Last := Last r'\<rparr>]
     else out @ [p, r'])"
  unfolding assms mergeable_def coalesce_step_def Let_def last_snoc butlast_snoc
    addr_Compare_le addr_Compare_greater conj_assoc [symmetric]
  by (rule trans [OF if_not_P]) simp_all

lemma coalesce_step_inv:
  assumes inv: "coalesce_inv out f" and r: "row_ok r" and le: "f \<le> First r"
  shows "coalesce_inv (coalesce_step out r) (First r)"
    and "plain a \<Longrightarrow> owner (coalesce_step out r) a = owner (out @ [r]) a"
proof -
  define l where "l = Last (last out)"
  obtain out' p where out: "out = out' @ [p]" using inv by (metis coalesce_inv_def rev_exhaust)
  have l: "l = Last p" by (simp add: l_def out)
  have c: "coalesced out" and pf: "plain f" "z f = z l"
    and cov: "\<And>a. plain a \<Longrightarrow> f \<le> a \<Longrightarrow> a \<le> l \<Longrightarrow> owner out a \<noteq> None"
    using inv by (auto simp: coalesce_inv_def l_def)
  have p: "row_ok p" using c out by (simp add: coalesced_snoc)
  have pl: "plain l" using p l by (simp add: row_ok_def)
  have fam: "z (First r) = z l \<or> l < First r"
    using le pf pl r plain_convex [of f l "First r"] by (auto simp: row_ok_def not_less)
  let ?same = "Is4 l = Is4 (First r)"
  have same: "?same \<longleftrightarrow> z (First r) = z l" using Is4_same_z [OF pl] r by (auto simp: row_ok_def)
  define overlap where "overlap \<longleftrightarrow> ?same \<and> First r \<le> l"
  have main: "coalesce_inv (coalesce_step out r) (First r) \<and>
      (plain a \<longrightarrow> owner (coalesce_step out r) a = owner (out @ [r]) a)" for a
  proof (cases "overlap \<and> (\<not> addr_IsValid (Next l) \<or> Last r < Next l)")
    case True
    then have o: "First r \<le> l" "z (First r) = z l" by (auto simp: overlap_def same)
    have "Last r \<le> l"
      using True Next_least [OF pl, of "Last r"] r o by (auto simp: row_ok_def not_le [symmetric])
    then have "row_has r a \<and> plain a \<longrightarrow> owner out a \<noteq> None"
      using cov [of a] le by (auto simp: row_has_def)
    then have "plain a \<longrightarrow> owner out a = owner (out @ [r]) a"
      by (auto simp: owner_snoc split: option.splits)
    moreover have "coalesce_inv out (First r)"
      using inv le o r pf by (auto simp: coalesce_inv_def l_def row_ok_def)
    moreover have "coalesce_step out r = out"
      using True out by (simp add: coalesce_step_def overlap_def l Let_def)
    ultimately show ?thesis by simp
  next
    case False
    define r' where "r' = (if overlap then r\<lparr>First := Next l\<rparr> else r)"
    have "l < First r' \<and> row_ok r' \<and> (\<forall>b. plain b \<longrightarrow> row_has r' b = (row_has r b \<and> l < b))"
    proof (cases overlap)
      case True
      then have "z l = z (First r)" "First r \<le> l" "addr_IsValid (Next l)" "Next l \<le> Last r"
        using False same by (auto simp: overlap_def)
      then show ?thesis using clamp_row [OF r pl] True by (simp add: r'_def)
    next
      case False
      then have "l < First r" using fam same by (auto simp: overlap_def)
      then show ?thesis using False r by (auto simp: r'_def row_has_def)
    qed
    then have lt: "l < First r'" and r': "row_ok r'"
      and has: "plain b \<Longrightarrow> row_has r' b = (row_has r b \<and> l < b)" for b by auto
    have same': "ASN r' = ASN r" "Org r' = Org r" "Last r' = Last r" "z (First r') = z (First r)"
      using r r' by (auto simp: r'_def row_ok_def)
    have own: "owner (out @ [r']) b = owner (out @ [r]) b" if b: "plain b" for b
    proof -
      have "row_has r b \<Longrightarrow> \<not> l < b \<Longrightarrow> owner out b \<noteq> None"
        using cov [OF b] le by (auto simp: row_has_def)
      then show ?thesis
        using has [OF b] by (auto simp: owner_snoc same' split: option.split)
    qed
    have before: "\<forall>q \<in> set out. Last q < First r'"
      using disjoint_rows_last [of out] c lt by (force simp: coalesced_def l_def)
    have step: "coalesce_step out r = (if mergeable p r' then out' @ [p\<lparr>Last := Last r\<rparr>] else out @ [r'])"
    proof -
      have "z (First r) = z l" if "Next l = First r'"
        using that Next_plain [OF pl] plain_wf r' same'(4) by (metis row_ok_def)
      then have "mergeable p r' \<Longrightarrow> ?same" using same l by (simp add: mergeable_def)
      then have b: "Is4 (Last p) = Is4 (First r) \<and> mergeable p r' \<longleftrightarrow> mergeable p r'" using l by blast
      have "overlap \<longleftrightarrow> Is4 (Last p) = Is4 (First r) \<and> First r \<le> Last p"
        by (simp only: overlap_def l)
      moreover have "r' = (if overlap then r\<lparr>First := Next (Last p)\<rparr> else r)"
        by (simp only: r'_def l)
      ultimately have e: "coalesce_step (out' @ [p]) r =
        (if overlap \<and> (\<not> addr_IsValid (Next (Last p)) \<or> Last r < Next (Last p)) then out' @ [p]
         else if Is4 (Last p) = Is4 (First r) \<and> mergeable p r' then out' @ [p\<lparr>Last := Last r'\<rparr>]
         else out' @ [p, r'])"
        by (rule coalesce_step_snoc)
      show ?thesis unfolding out e if_not_P [OF False [unfolded l]] b same'(3)
        by (simp only: append_assoc append.simps)
    qed
    have o2: "plain b \<Longrightarrow> owner (coalesce_step out r) b = owner (out @ [r]) b" for b
      using step own merge_last(2) [of out' p r' b] c out r' lt l same' by simp
    have c2: "coalesced (coalesce_step out r)"
    proof (cases "mergeable p r'")
      case True
      then show ?thesis using step merge_last(1) [of out' p r'] c out r' lt l same' by simp
    next
      case False
      then have "coalesced (out @ [r'])" using c r' before out by (subst coalesced_snoc) simp
      then show ?thesis using False step by simp
    qed
    have "owner (coalesce_step out r) b \<noteq> None" if "plain b" "First r \<le> b" "b \<le> Last r" for b
      using o2 [OF that(1)] that by (auto simp: owner_snoc row_has_def split: option.splits)
    then have "coalesce_inv (coalesce_step out r) (First r)"
      using c2 step r same' by (auto simp: coalesce_inv_def row_ok_def)
    then show ?thesis using o2 by blast
  qed
  show "coalesce_inv (coalesce_step out r) (First r)" using main by blast
  show "plain a \<Longrightarrow> owner (coalesce_step out r) a = owner (out @ [r]) a" using main by blast
qed

lemma coalesce_fold:
  assumes "coalesce_inv out f" "\<forall>r \<in> set rows. row_ok r \<and> f \<le> First r"
    "sorted_wrt (\<lambda>r r'. First r \<le> First r') rows"
  shows "coalesced (foldl coalesce_step out rows) \<and>
    (\<forall>a. plain a \<longrightarrow> owner (foldl coalesce_step out rows) a = owner (out @ rows) a)"
  using assms
proof (induction rows arbitrary: out f)
  case Nil
  then show ?case by (simp add: coalesce_inv_def)
next
  case (Cons r rows)
  have r: "row_ok r" "f \<le> First r" using Cons.prems by auto
  note step = coalesce_step_inv [OF Cons.prems(1) r]
  have "owner ((out @ [r]) @ rows) a = owner (coalesce_step out r @ rows) a" if "plain a" for a
    using step(2) [OF that] by (simp only: owner_append)
  then show ?case using Cons.IH [OF step(1)] Cons.prems(2,3) by simp
qed

lemma coalesce_sorted:
  assumes "\<forall>r \<in> set rows. row_ok r" "sorted_wrt (\<lambda>r r'. First r \<le> First r') rows"
  shows "coalesced (foldl coalesce_step [] rows) \<and>
    (\<forall>a. plain a \<longrightarrow> owner (foldl coalesce_step [] rows) a = owner rows a)"
proof (cases rows)
  case Nil
  then show ?thesis by (simp add: coalesced_def disjoint_rows_def)
next
  case (Cons r rs)
  have "coalesce_inv [r] (First r)"
    using assms(1) Cons
    by (auto simp: coalesce_inv_def coalesced_def disjoint_rows_def row_ok_def owner_def row_has_def)
  then have "coalesced (foldl coalesce_step [r] rs) \<and>
      (\<forall>a. plain a \<longrightarrow> owner (foldl coalesce_step [r] rs) a = owner ([r] @ rs) a)"
    by (rule coalesce_fold) (use assms Cons in auto)
  then show ?thesis by (simp add: Cons coalesce_step_def)
qed

lemma sort_contractD:
  assumes "sort_contract srt"
  shows "set (srt first_less rows) = set rows"
    "sorted_wrt (\<lambda>r r'. First r \<le> First r') (srt first_less rows)"
proof -
  show "set (srt first_less rows) = set rows" using assms by (metis sort_contract_def set_mset_mset)
  show "sorted_wrt (\<lambda>r r'. First r \<le> First r') (srt first_less rows)"
    using assms by (simp add: sort_contract_def first_less_def not_less)
qed

text \<open>
  C29. \<open>CoalesceASNRanges\<close> returns usable rows that are pairwise disjoint, increasing, and
  minimal: no row could be merged with its successor. It announces every address that some row
  announces, from the AS of the first such row in sorted order, and no other address.
\<close>

theorem Coalesce_normal_form:
  assumes "sort_contract srt" "\<forall>r \<in> set rows. row_ok r"
  shows "coalesced (CoalesceASNRanges srt rows) \<and>
    (\<forall>a. plain a \<longrightarrow> owner (CoalesceASNRanges srt rows) a = owner (srt first_less rows) a)"
  unfolding Coalesce_foldl
  by (rule coalesce_sorted) (use assms sort_contractD in auto)

text \<open>A stable sort satisfies the contract; the witnesses use it.\<close>

definition stable_sort :: row_sort where
  "stable_sort cmp rows = sort_key First rows"

lemma stable_sort_contract: "sort_contract stable_sort"
  unfolding sort_contract_def stable_sort_def first_less_def
  using sorted_sort_key [of "First :: ASNRange \<Rightarrow> addr"] by (simp add: sorted_map not_less)

definition sample_rows :: "ASNRange list" where
  "sample_rows =
     [\<lparr>First = AddrFrom4 0x0a000004, Last = AddrFrom4 0x0a000009, ASN = 2, Org = ''B''\<rparr>,
      \<lparr>First = AddrFrom4 0x0a000000, Last = AddrFrom4 0x0a000003, ASN = 1, Org = ''A''\<rparr>,
      \<lparr>First = AddrFrom4 0x0a000002, Last = AddrFrom4 0x0a000005, ASN = 1, Org = ''A''\<rparr>]"

lemma sample_rows_ok: "\<forall>r \<in> set sample_rows. row_ok r"
  using AddrFrom4_wf
  by (auto simp: sample_rows_def row_ok_def plain_le) (auto simp: AddrFrom4_def less_eq_addr_def BitLen_def)

theorem Coalesce_normal_form_witness:
  "coalesced (CoalesceASNRanges stable_sort sample_rows) \<and>
   owner (CoalesceASNRanges stable_sort sample_rows) (AddrFrom4 0x0a000005) = Some (1, ''A'')"
proof -
  have "stable_sort first_less sample_rows = [sample_rows ! 1, sample_rows ! 2, sample_rows ! 0]"
    by code_simp
  then have "owner (stable_sort first_less sample_rows) (AddrFrom4 0x0a000005) = Some (1, ''A'')"
    by code_simp
  then show ?thesis
    using Coalesce_normal_form [OF stable_sort_contract sample_rows_ok] AddrFrom4_wf by simp
qed

section \<open>NewASNTable\<close>

text \<open>The usable rows of one family, unmapped, in input order.\<close>

definition unmap_row :: "ASNRange \<Rightarrow> ASNRange" where
  "unmap_row r = r\<lparr>First := Unmap (First r), Last := Unmap (Last r)\<rparr>"

definition usable :: "bool \<Rightarrow> ASNRange list \<Rightarrow> ASNRange list" where
  "usable four rows = filter (\<lambda>r. row_ok r \<and> Is4 (First r) = four) (map unmap_row rows)"

definition table_rows :: "ASNTable \<Rightarrow> bool \<Rightarrow> ASNRange list" where
  "table_rows t four = (if four then v4 t else v6 t)"

definition table_ok :: "ASNTable \<Rightarrow> bool" where
  "table_ok t \<longleftrightarrow> (\<forall>four. coalesced (table_rows t four) \<and> (\<forall>r \<in> set (table_rows t four). Is4 (First r) = four))"

text \<open>What the code's test keeps of rows without zones is exactly the usable ones.\<close>

definition bound_ok :: "addr \<Rightarrow> bool" where
  "bound_ok a \<longleftrightarrow> addr_wf a \<and> Zone a = []"

lemma bound_ok_Unmap: "bound_ok a \<Longrightarrow> addr_IsValid (Unmap a) \<longleftrightarrow> plain (Unmap a)"
  by (cases "z a")
     (auto simp: bound_ok_def addr_wf_def Unmap_def Is4In6_def Is6_def addr_IsValid_def plain_def Zone_def)

lemma plain_not_Z0: "plain a \<Longrightarrow> addr_IsValid a"
  using plain_wf by blast

lemma newtable_keeps:
  assumes "bound_ok (First r)" "bound_ok (Last r)"
  shows "newtable_step t r = (if row_ok (unmap_row r)
    then if Is4 (First (unmap_row r)) then t\<lparr>v4 := v4 t @ [unmap_row r]\<rparr> else t\<lparr>v6 := v6 t @ [unmap_row r]\<rparr>
    else t)"
proof -
  have "row_ok (unmap_row r) \<longleftrightarrow> addr_IsValid (Unmap (First r)) \<and> addr_IsValid (Unmap (Last r)) \<and>
      Is4 (Unmap (First r)) = Is4 (Unmap (Last r)) \<and> Unmap (First r) \<le> Unmap (Last r)"
    using bound_ok_Unmap [OF assms(1)] bound_ok_Unmap [OF assms(2)] Is4_same_z
    by (auto simp: row_ok_def unmap_row_def)
  then show ?thesis by (auto simp: newtable_step_def unmap_row_def Let_def not_less)
qed

lemma newtable_foldl:
  assumes "\<forall>r \<in> set rows. bound_ok (First r) \<and> bound_ok (Last r)"
  shows "foldl newtable_step t rows =
    t\<lparr>v4 := v4 t @ usable True rows, v6 := v6 t @ usable False rows\<rparr>"
  using assms
  by (induction rows arbitrary: t) (simp_all add: newtable_keeps usable_def)

lemma newtable_rows:
  assumes "sort_contract srt" "\<forall>r \<in> set rows. bound_ok (First r) \<and> bound_ok (Last r)"
  shows "table_rows (NewASNTable srt rows) four = CoalesceASNRanges srt (usable four rows)"
    "coalesced (CoalesceASNRanges srt (usable four rows))"
    "plain a \<Longrightarrow> owner (CoalesceASNRanges srt (usable four rows)) a = owner (srt first_less (usable four rows)) a"
proof -
  show "table_rows (NewASNTable srt rows) four = CoalesceASNRanges srt (usable four rows)"
    using newtable_foldl [OF assms(2)] by (simp add: NewASNTable_def table_rows_def Let_def)
  have "coalesced (foldl coalesce_step [] (srt first_less (usable four rows))) \<and>
      (\<forall>a. plain a \<longrightarrow> owner (foldl coalesce_step [] (srt first_less (usable four rows))) a =
        owner (srt first_less (usable four rows)) a)"
    by (rule coalesce_sorted) (use sort_contractD [OF assms(1)] in \<open>auto simp: usable_def\<close>)
  then show "coalesced (CoalesceASNRanges srt (usable four rows))"
    "plain a \<Longrightarrow> owner (CoalesceASNRanges srt (usable four rows)) a = owner (srt first_less (usable four rows)) a"
    by (simp_all add: Coalesce_foldl)
qed

lemma NewASNTable_ok:
  assumes "sort_contract srt" "\<forall>r \<in> set rows. bound_ok (First r) \<and> bound_ok (Last r)"
  shows "table_ok (NewASNTable srt rows)"
proof -
  have "Is4 (First r) = four" if r: "r \<in> set (CoalesceASNRanges srt (usable four rows))" for r four
  proof -
    have "row_ok r"
      using newtable_rows(2) [OF assms] r by (auto simp: coalesced_def disjoint_rows_def)
    then have a: "plain (First r)" "row_has r (First r)" by (auto simp: row_ok_def row_has_def)
    then have "owner (srt first_less (usable four rows)) (First r) \<noteq> None"
      using newtable_rows(3) [OF assms a(1), of four] r owner_None by metis
    then obtain q where "q \<in> set (usable four rows)" "row_has q (First r)"
      using sort_contractD(1) [OF assms(1)] by (auto simp: owner_None)
    then show ?thesis using row_has_z [OF _ a(1)] by (auto simp: usable_def Is4_def)
  qed
  then show ?thesis using newtable_rows(1,2) [OF assms] by (auto simp: table_ok_def)
qed

text \<open>
  C30. For any rows whose bounds carry no zone (invalid, mixed-family, inverted and 4-in-6 rows
  included), the table is in normal form in both families, and says of every address what the
  first usable row of its family that contains it says.
\<close>

theorem NewASNTable_sound:
  assumes "sort_contract srt" "\<forall>r \<in> set rows. bound_ok (First r) \<and> bound_ok (Last r)"
  shows "table_ok (NewASNTable srt rows) \<and>
    (\<forall>a. plain a \<longrightarrow> owner (table_rows (NewASNTable srt rows) (Is4 a)) a =
      owner (srt first_less (usable (Is4 a) rows)) a)"
  using NewASNTable_ok [OF assms] newtable_rows(1,3) [OF assms] by simp

theorem NewASNTable_sound_witness:
  "table_ok (NewASNTable stable_sort
     [\<lparr>First = AddrFrom16 0xffff0a000000, Last = AddrFrom4 0x0a0000ff, ASN = 1, Org = []\<rparr>,
      \<lparr>First = AddrFrom4 1, Last = AddrFrom16 7, ASN = 2, Org = []\<rparr>]) \<and>
   v4 (NewASNTable stable_sort
     [\<lparr>First = AddrFrom16 0xffff0a000000, Last = AddrFrom4 0x0a0000ff, ASN = 1, Org = []\<rparr>,
      \<lparr>First = AddrFrom4 1, Last = AddrFrom16 7, ASN = 2, Org = []\<rparr>]) =
     [\<lparr>First = AddrFrom4 0x0a000000, Last = AddrFrom4 0x0a0000ff, ASN = 1, Org = []\<rparr>]"
  (is "table_ok (NewASNTable _ ?rows) \<and> ?v4")
proof -
  have "\<forall>r \<in> set ?rows. bound_ok (First r) \<and> bound_ok (Last r)" by code_simp
  from NewASNTable_sound [OF stable_sort_contract this] have "table_ok (NewASNTable stable_sort ?rows)" ..
  moreover have ?v4 by code_simp
  ultimately show ?thesis ..
qed

section \<open>Enrichment\<close>

text \<open>
  What \<open>netipx\<close> provides: the ends of a prefix (\<open>RangeOfPrefix\<close>), whether two addresses bound a
  range (\<open>IPRangeFrom(lo, hi).IsValid()\<close>) and the prefixes the range consists of
  (\<open>IPRangeFrom(lo, hi).Prefixes()\<close>).
\<close>

record netipx =
  RangeOfPrefix :: "prefix \<Rightarrow> addr \<times> addr"
  RangeIsValid :: "addr \<Rightarrow> addr \<Rightarrow> bool"
  RangePrefixes :: "addr \<Rightarrow> addr \<Rightarrow> prefix list"

text \<open>A list of prefixes that cuts a set of addresses into disjoint parts.\<close>

definition partitions :: "prefix list \<Rightarrow> addr set \<Rightarrow> bool" where
  "partitions ps A \<longleftrightarrow> (\<forall>p \<in> set ps. prefix_wf p) \<and> (\<Union>p \<in> set ps. prefix_span p) = A \<and>
     sorted_wrt (\<lambda>p q. prefix_span p \<inter> prefix_span q = {}) ps"

definition netipx_contract :: "netipx \<Rightarrow> bool" where
  "netipx_contract X \<longleftrightarrow>
     (\<forall>p. prefix_wf p \<longrightarrow> RangeOfPrefix X p = (prefix_first p, prefix_last p)) \<and>
     (\<forall>lo hi. plain lo \<and> plain hi \<longrightarrow> RangeIsValid X lo hi = (z hi = z lo \<and> lo \<le> hi)) \<and>
     (\<forall>lo hi. \<forall>p \<in> set (RangePrefixes X lo hi). prefix_wf p) \<and>
     (\<forall>lo hi. plain lo \<and> plain hi \<and> z hi = z lo \<and> lo \<le> hi \<longrightarrow> partitions (RangePrefixes X lo hi) (span lo hi))"

definition minAddr :: "addr \<Rightarrow> addr \<Rightarrow> addr" where
  "minAddr a b = (if addr_Compare a b \<le> 0 then a else b)"

definition maxAddr :: "addr \<Rightarrow> addr \<Rightarrow> addr" where
  "maxAddr a b = (if addr_Compare a b \<ge> 0 then a else b)"

definition ExtASN :: string where "ExtASN = ''asn''"
definition ExtASOrg :: string where "ExtASOrg = ''as_org''"

text \<open>\<open>sort.Search\<close> (standard library): binary search for the least index with \<open>f\<close>.\<close>

function sort_Search_loop :: "(nat \<Rightarrow> bool) \<Rightarrow> nat \<Rightarrow> nat \<Rightarrow> nat" where
  "sort_Search_loop f i j =
     (if i < j then let h = (i + j) div 2 in
        if \<not> f h then sort_Search_loop f (h + 1) j else sort_Search_loop f i h
      else i)"
  by pat_completeness auto
termination
  by (relation "measure (\<lambda>(_, i, j). j - i)") (auto simp: Let_def)

declare sort_Search_loop.simps [simp del]

definition sort_Search :: "nat \<Rightarrow> (nat \<Rightarrow> bool) \<Rightarrow> nat" where
  "sort_Search n f = sort_Search_loop f 0 n"

definition yieldRange :: "netipx \<Rightarrow> Entry \<Rightarrow> addr \<Rightarrow> addr \<Rightarrow> ASNRange option \<Rightarrow> (item, 's) seq" where
  "yieldRange X e lo hi row =
     (let r = (case row of
          None \<Rightarrow> Rec e
        | Some row \<Rightarrow>
            (let ext = (Ext (Rec e))(ExtASN \<mapsto> FormatUint (uint (ASN row)));
                 ext = (if Org row \<noteq> [] then ext(ExtASOrg \<mapsto> Org row) else ext)
             in (Rec e)\<lparr>Ext := ext\<rparr>))
      in seq_for (RangePrefixes X lo hi) (\<lambda>p. seq_yield (Inr \<lparr>Network = p, Rec = r\<rparr>)))"

text \<open>The loop of \<open>enrichEntry\<close> from row \<open>i\<close> on, with \<open>cur\<close> the next address to emit.\<close>

function enrich_loop :: "netipx \<Rightarrow> Entry \<Rightarrow> ASNRange list \<Rightarrow> addr \<Rightarrow> nat \<Rightarrow> addr \<Rightarrow> (item, 's) seq" where
  "enrich_loop X e rows hi i cur =
     (if i < length rows \<and> addr_Compare (First (rows ! i)) hi \<le> 0 then
        let row = rows ! i; ovLo = maxAddr (First row) cur; ovHi = minAddr (Last row) hi in
        if addr_Compare ovLo ovHi > 0 then enrich_loop X e rows hi (Suc i) cur
        else seq_then
          (if addr_Compare cur ovLo < 0 then yieldRange X e cur (Prev ovLo) None else seq_nil)
          (seq_then (yieldRange X e ovLo ovHi (Some row))
            (if addr_Compare ovHi hi \<ge> 0 then seq_nil
             else enrich_loop X e rows hi (Suc i) (Next ovHi)))
      else yieldRange X e cur hi None)"
  by pat_completeness auto
termination
  by (relation "measure (\<lambda>(_, _, rows, _, i, _). length rows - i)") auto

declare enrich_loop.simps [simp del]

definition enrichEntry :: "netipx \<Rightarrow> Entry \<Rightarrow> ASNTable \<Rightarrow> (item, 's) seq" where
  "enrichEntry X e t = (case normalizePrefix (Network e) of
     None \<Rightarrow> seq_yield (Inr e)
   | Some network \<Rightarrow>
       (let rows = (if Is4 (paddr network) then v4 t else v6 t);
            (lo, hi) = RangeOfPrefix X network;
            i = sort_Search (length rows) (\<lambda>i. addr_Compare (Last (rows ! i)) lo \<ge> 0)
        in if i = length rows \<or> addr_Compare (First (rows ! i)) hi > 0
           then seq_yield (Inr (e\<lparr>Network := network\<rparr>))
           else enrich_loop X e rows hi i lo))"

definition EnrichASN :: "netipx \<Rightarrow> (item, 's) seq \<Rightarrow> ASNTable \<Rightarrow> (item, 's) seq" where
  "EnrichASN X entries t = seq_range entries (\<lambda>it. case it of
     Inl err \<Rightarrow> seq_yield it
   | Inr e \<Rightarrow> enrichEntry X e t)"

text \<open>What stamping means, and what the pieces of an entry must be.\<close>

definition stamped :: "(32 word \<times> string) option \<Rightarrow> Record \<Rightarrow> Record" where
  "stamped own r = (case own of
     None \<Rightarrow> r
   | Some (asn, org) \<Rightarrow> r\<lparr>Ext := (\<lambda>k.
       if k = ExtASOrg \<and> org \<noteq> [] then Some org
       else if k = ExtASN then Some (FormatUint (uint asn)) else Ext r k)\<rparr>)"

definition pieces :: "ASNRange list \<Rightarrow> Record \<Rightarrow> addr set \<Rightarrow> Entry list \<Rightarrow> bool" where
  "pieces rows r A es \<longleftrightarrow> partitions (map Network es) A \<and>
     (\<forall>e \<in> set es. \<forall>a \<in> prefix_span (Network e). Rec e = stamped (owner rows a) r)"

lemma ExtASN_neq: "ExtASN \<noteq> ExtASOrg"
  by (simp add: ExtASN_def ExtASOrg_def)

lemma partitions_append:
  "partitions ps A \<Longrightarrow> partitions qs B \<Longrightarrow> A \<inter> B = {} \<Longrightarrow> partitions (ps @ qs) (A \<union> B)"
  by (auto simp: partitions_def sorted_wrt_append)

lemma pieces_append:
  "pieces rows r A es \<Longrightarrow> pieces rows r B fs \<Longrightarrow> A \<inter> B = {} \<Longrightarrow> pieces rows r (A \<union> B) (es @ fs)"
  by (auto simp: pieces_def intro: partitions_append)

lemma pieces_Nil: "pieces rows r {} []"
  by (simp add: pieces_def partitions_def)

text \<open>One emitted range.\<close>

lemma yieldRange_pieces:
  assumes X: "netipx_contract X" and ends: "plain lo" "plain hi" "z hi = z lo" "lo \<le> hi"
    and own: "\<And>a. a \<in> span lo hi \<Longrightarrow> owner rows a = map_option (\<lambda>r. (ASN r, Org r)) row"
  obtains es where "yieldRange X e lo hi row = seq_of (map Inr es)" "pieces rows (Rec e) (span lo hi) es"
proof -
  define own' where "own' = map_option (\<lambda>r. (ASN r, Org r)) row"
  define es where "es = map (\<lambda>p. \<lparr>Network = p, Rec = stamped own' (Rec e)\<rparr>) (RangePrefixes X lo hi)"
  have "(case row of None \<Rightarrow> Rec e | Some row \<Rightarrow>
      (let ext = (Ext (Rec e))(ExtASN \<mapsto> FormatUint (uint (ASN row)));
           ext = (if Org row \<noteq> [] then ext(ExtASOrg \<mapsto> Org row) else ext)
       in (Rec e)\<lparr>Ext := ext\<rparr>)) = stamped own' (Rec e)"
    by (auto simp: stamped_def own'_def Let_def fun_eq_iff ExtASN_neq split: option.split
        intro!: arg_cong2 [where f = Ext_update])
  then have "yieldRange X e lo hi row = seq_for (RangePrefixes X lo hi)
      (\<lambda>p. seq_yield (Inr \<lparr>Network = p, Rec = stamped own' (Rec e)\<rparr>))"
    by (simp only: yieldRange_def Let_def)
  then have "yieldRange X e lo hi row = seq_of (map Inr es)"
    by (simp add: iter es_def comp_def)
  moreover have "pieces rows (Rec e) (span lo hi) es"
  proof -
    have part: "partitions (RangePrefixes X lo hi) (span lo hi)"
      using X ends by (simp add: netipx_contract_def)
    have "owner rows a = own'" if "p \<in> set (RangePrefixes X lo hi)" "a \<in> prefix_span p" for p a
      using part own [of a] that unfolding partitions_def own'_def by blast
    then show ?thesis using part by (simp add: pieces_def es_def comp_def)
  qed
  ultimately show ?thesis by (rule that)
qed

text \<open>Binary search finds the least index, on a predicate that stays true.\<close>

lemma sort_Search_loop_least:
  assumes "\<forall>k l. k \<le> l \<longrightarrow> l < n \<longrightarrow> f k \<longrightarrow> f l"
    and "i \<le> j" "j \<le> n" "\<forall>k < i. \<not> f k" "\<forall>k. j \<le> k \<and> k < n \<longrightarrow> f k"
  shows "sort_Search_loop f i j \<le> n \<and> (\<forall>k < sort_Search_loop f i j. \<not> f k) \<and>
    (\<forall>k. sort_Search_loop f i j \<le> k \<and> k < n \<longrightarrow> f k)"
  using assms
proof (induction f i j rule: sort_Search_loop.induct)
  case (1 f i j)
  show ?case
  proof (cases "i < j")
    case False
    then show ?thesis using "1.prems" by (subst (1 2 3) sort_Search_loop.simps) simp
  next
    case True
    define h where "h = (i + j) div 2"
    have h: "i \<le> h" "h < j" "h < n" using True "1.prems" by (auto simp: h_def)
    have eq: "sort_Search_loop f i j = (if \<not> f h then sort_Search_loop f (h + 1) j else sort_Search_loop f i h)"
      using True by (subst sort_Search_loop.simps) (simp add: h_def Let_def)
    show ?thesis
    proof (cases "f h")
      case fh: True
      then have "\<forall>k. h \<le> k \<and> k < n \<longrightarrow> f k" using "1.prems"(1) by blast
      moreover have "h \<le> n" using h by simp
      ultimately have "sort_Search_loop f i h \<le> n \<and> (\<forall>k < sort_Search_loop f i h. \<not> f k) \<and>
          (\<forall>k. sort_Search_loop f i h \<le> k \<and> k < n \<longrightarrow> f k)"
        using "1.IH"(2) [OF True h_def] fh "1.prems"(1,4) h(1) by blast
      then show ?thesis unfolding eq if_not_P [OF not_not [THEN iffD2, OF fh]] .
    next
      case fh: False
      then have "\<forall>k < h + 1. \<not> f k"
        using "1.prems"(1) h(3) by (metis Suc_eq_plus1 less_Suc_eq_le)
      moreover have "h + 1 \<le> j" using h by simp
      ultimately have "sort_Search_loop f (h + 1) j \<le> n \<and> (\<forall>k < sort_Search_loop f (h + 1) j. \<not> f k) \<and>
          (\<forall>k. sort_Search_loop f (h + 1) j \<le> k \<and> k < n \<longrightarrow> f k)"
        using "1.IH"(1) [OF True h_def fh] "1.prems"(1,3,5) by blast
      then show ?thesis unfolding eq if_P [OF fh] .
    qed
  qed
qed

lemma sort_Search_least:
  assumes "\<forall>k l. k \<le> l \<longrightarrow> l < n \<longrightarrow> f k \<longrightarrow> f l"
  shows "sort_Search n f \<le> n \<and> (\<forall>k < sort_Search n f. \<not> f k) \<and>
    (\<forall>k. sort_Search n f \<le> k \<and> k < n \<longrightarrow> f k)"
  unfolding sort_Search_def by (rule sort_Search_loop_least [OF assms]) (auto simp: not_le [symmetric])

text \<open>The rows around a gap, and the row that owns an address.\<close>

lemma owner_row:
  assumes "disjoint_rows rows" "i < length rows" "row_has (rows ! i) a"
  shows "owner rows a = Some (ASN (rows ! i), Org (rows ! i))"
  using assms
proof (induction rows arbitrary: i)
  case (Cons r rs)
  show ?case
  proof (cases i)
    case 0
    then show ?thesis using Cons.prems by (simp add: owner_Cons)
  next
    case (Suc j)
    then have "rs ! j \<in> set rs" using Cons.prems by simp
    then have "Last r < First (rs ! j)" using Cons.prems by (simp add: disjoint_rows_def)
    then have "\<not> row_has r a" using Cons.prems Suc by (auto simp: row_has_def)
    then show ?thesis using Cons Suc by (simp add: owner_Cons disjoint_rows_def)
  qed
qed simp

lemma rows_nth:
  assumes "disjoint_rows rows" "i < length rows"
  shows "row_ok (rows ! i)" "i < j \<Longrightarrow> j < length rows \<Longrightarrow> Last (rows ! i) < First (rows ! j)"
    "i \<le> j \<Longrightarrow> j < length rows \<Longrightarrow> First (rows ! i) \<le> First (rows ! j) \<and> Last (rows ! i) \<le> Last (rows ! j)"
proof -
  show ok: "row_ok (rows ! i)" using assms by (auto simp: disjoint_rows_def)
  show lt: "i < j \<Longrightarrow> j < length rows \<Longrightarrow> Last (rows ! i) < First (rows ! j)" for j
    using assms by (auto simp: disjoint_rows_def sorted_wrt_iff_nth_less)
  assume ij: "i \<le> j" "j < length rows"
  have "row_ok (rows ! j)" using assms ij by (auto simp: disjoint_rows_def)
  then show "First (rows ! i) \<le> First (rows ! j) \<and> Last (rows ! i) \<le> Last (rows ! j)"
    using lt [of j] ij ok by (cases "i = j") (auto simp: row_ok_def)
qed

lemma owner_gap:
  assumes "disjoint_rows rows" "\<forall>j < i. Last (rows ! j) < a"
    and "i < length rows \<longrightarrow> a < First (rows ! i)" "i \<le> length rows"
  shows "owner rows a = None"
proof -
  have "\<not> row_has (rows ! j) a" if j: "j < length rows" for j
  proof (cases "j < i")
    case True
    then show ?thesis using assms(2) by (auto simp: row_has_def)
  next
    case False
    then have "First (rows ! i) \<le> First (rows ! j)" "i < length rows"
      using rows_nth(3) [OF assms(1), of i j] j by auto
    then show ?thesis using assms(3) by (auto simp: row_has_def)
  qed
  then show ?thesis unfolding owner_None by (metis in_set_conv_nth)
qed

lemma span_before:
  assumes "plain lo" "plain m" "z lo = z m" "lo < m"
  shows "plain (Prev m)" "z (Prev m) = z lo" "lo \<le> Prev m"
    "a \<in> span lo (Prev m) \<longleftrightarrow> plain a \<and> lo \<le> a \<and> a < m"
proof -
  note p = addr_succ.prv_nxt [OF assms] and q = addr_succ.prv_less [OF assms]
  show "plain (Prev m)" "z (Prev m) = z lo" "lo \<le> Prev m" using p q assms(3) by auto
  have "plain a \<Longrightarrow> lo \<le> a \<Longrightarrow> a \<le> Prev m \<longleftrightarrow> a < m"
    using q addr_succ.le_prv_iff [of lo m a] plain_convex [of lo m a] assms
    by (metis less_imp_le order.strict_trans1)
  then show "a \<in> span lo (Prev m) \<longleftrightarrow> plain a \<and> lo \<le> a \<and> a < m" by auto
qed

lemma span_after:
  assumes "plain hi" "plain m" "z m = z hi" "m < hi"
  shows "plain (Next m)" "z (Next m) = z m" "Next m \<le> hi"
    "a \<in> span (Next m) hi \<longleftrightarrow> plain a \<and> m < a \<and> a \<le> hi"
proof -
  have n: "addr_IsValid (Next m)" "Next m \<le> hi" using Next_least [of m hi] assms by auto
  note p = Next_plain [OF assms(2) n(1)]
  show "plain (Next m)" "z (Next m) = z m" "Next m \<le> hi" using p n by auto
  show "a \<in> span (Next m) hi \<longleftrightarrow> plain a \<and> m < a \<and> a \<le> hi"
    using p n assms Next_least [of m a] plain_convex [of m hi a] by auto
qed

text \<open>The part before a row, the row's own part, and the end of the loop.\<close>

lemma enrich_gap:
  assumes X: "netipx_contract X" and rows: "disjoint_rows rows" "\<forall>j < i. Last (rows ! j) < cur"
      "i < length rows" "cur < m \<longrightarrow> m \<le> First (rows ! i)"
    and ends: "plain cur" "plain m" "z cur = z m"
  obtains es where "(if cur < m then yieldRange X e cur (Prev m) None else seq_nil) = (seq_of (map Inr es) :: (item, 's) seq)"
    "pieces rows (Rec e) {a. plain a \<and> cur \<le> a \<and> a < m} es"
proof (cases "cur < m")
  case True
  note b = span_before [OF ends True]
  have "owner rows a = None" if "a \<in> span cur (Prev m)" for a
    using owner_gap [OF rows(1), of i a] that rows b(4) True by force
  then obtain es where "yieldRange X e cur (Prev m) None = (seq_of (map Inr es) :: (item, 's) seq)"
      "pieces rows (Rec e) (span cur (Prev m)) es"
    using yieldRange_pieces [OF X ends(1) b(1-3), of rows None e] by auto
  moreover have "span cur (Prev m) = {a. plain a \<and> cur \<le> a \<and> a < m}" using b(4) by blast
  ultimately show ?thesis using that True by simp
next
  case False
  then have "{a. plain a \<and> cur \<le> a \<and> a < m} = {}" by auto
  then show ?thesis using that [of "[]"] False pieces_Nil [of rows "Rec e"] by (simp only: iter if_False list.map)
qed

lemma enrich_row:
  assumes X: "netipx_contract X" and rows: "disjoint_rows rows" "i < length rows"
    and ends: "plain lo" "plain hi" "z hi = z lo" "lo \<le> hi"
    and inside: "First (rows ! i) \<le> lo" "hi \<le> Last (rows ! i)"
  obtains es where "yieldRange X e lo hi (Some (rows ! i)) = (seq_of (map Inr es) :: (item, 's) seq)"
    "pieces rows (Rec e) (span lo hi) es"
proof -
  have "owner rows a = Some (ASN (rows ! i), Org (rows ! i))" if "a \<in> span lo hi" for a
    using owner_row [OF rows, of a] that inside by (force simp: row_has_def)
  then show ?thesis using that yieldRange_pieces [OF X ends, of rows "Some (rows ! i)" e] by auto
qed

lemma enrich_end:
  assumes X: "netipx_contract X" and rows: "disjoint_rows rows" "\<forall>j < i. Last (rows ! j) < cur"
      "i \<le> length rows" "i < length rows \<longrightarrow> hi < First (rows ! i)"
    and ends: "plain cur" "plain hi" "z hi = z cur" "cur \<le> hi"
  obtains es where "yieldRange X e cur hi None = (seq_of (map Inr es) :: (item, 's) seq)"
    "pieces rows (Rec e) (span cur hi) es"
proof -
  have "owner rows a = None" if "a \<in> span cur hi" for a
    using owner_gap [OF rows(1), of i a] rows that by force
  then show ?thesis using that yieldRange_pieces [OF X ends, of rows None e] by auto
qed

lemma enrich_loop_unfold:
  assumes "i < length rows" "First (rows ! i) \<le> hi"
  shows "enrich_loop X e rows hi i cur =
    (let lo = max (First (rows ! i)) cur; m = min (Last (rows ! i)) hi in
     if m < lo then enrich_loop X e rows hi (Suc i) cur
     else seq_then (if cur < lo then yieldRange X e cur (Prev lo) None else seq_nil)
      (seq_then (yieldRange X e lo m (Some (rows ! i)))
        (if hi \<le> m then seq_nil else enrich_loop X e rows hi (Suc i) (Next m))))"
proof -
  have m: "minAddr = min" "maxAddr = max"
    by (auto simp: fun_eq_iff minAddr_def maxAddr_def)
  show ?thesis using assms by (subst enrich_loop.simps) (simp add: Let_def m)
qed

lemma enrich_loop_pieces:
  assumes X: "netipx_contract X" and rows: "disjoint_rows rows" "\<forall>r \<in> set rows. z (First r) = z hi"
    and hi: "plain hi" and cur: "plain cur" "z cur = z hi" "cur \<le> hi"
    and past: "\<forall>j < i. Last (rows ! j) < cur" and i: "i \<le> length rows"
  shows "\<exists>es. enrich_loop X e rows hi i cur = (seq_of (map Inr es) :: (item, 's) seq) \<and> pieces rows (Rec e) (span cur hi) es"
  using cur past i
proof (induction "length rows - i" arbitrary: i cur rule: less_induct)
  case less
  note cur = less.prems(1-3) and past = less.prems(4)
  show ?case
  proof (cases "i < length rows \<and> First (rows ! i) \<le> hi")
    case False
    then have "enrich_loop X e rows hi i cur = yieldRange X e cur hi None"
      by (subst enrich_loop.simps) auto
    moreover have "i < length rows \<longrightarrow> hi < First (rows ! i)" using False by auto
    ultimately show ?thesis
      using enrich_end [OF X rows(1) past less.prems(5) _ cur(1) hi cur(2)[symmetric] cur(3), of e] by metis
  next
    case True
    then have i: "i < length rows" and first: "First (rows ! i) \<le> hi" by auto
    have ok: "row_ok (rows ! i)" "z (First (rows ! i)) = z hi" using rows_nth(1) [OF rows(1) i] rows(2) i by auto
    define lo where "lo = max (First (rows ! i)) cur"
    define m where "m = min (Last (rows ! i)) hi"
    have lo: "plain lo" "z lo = z hi" "cur \<le> lo" "First (rows ! i) \<le> lo" "cur < lo \<longrightarrow> lo \<le> First (rows ! i)"
      and m: "plain m" "z m = z hi" "m \<le> hi" "m \<le> Last (rows ! i)"
      using ok cur hi by (auto simp: lo_def m_def max_def min_def row_ok_def)
    have IH: "\<exists>es. enrich_loop X e rows hi (Suc i) c = (seq_of (map Inr es) :: (item, 's) seq) \<and> pieces rows (Rec e) (span c hi) es"
      if "plain c" "z c = z hi" "c \<le> hi" "Last (rows ! i) < c" "cur \<le> c" for c
      by (rule less.hyps) (use that past i in \<open>auto simp: less_Suc_eq\<close>)
    note eq = enrich_loop_unfold [OF i first, of X e cur, folded lo_def m_def, unfolded Let_def]
    show ?thesis
    proof (cases "m < lo")
      case empty: True
      have "Last (rows ! i) < cur"
        using empty ok first cur by (auto simp: lo_def m_def max_def min_def row_ok_def split: if_splits)
      then show ?thesis using IH [OF cur] empty by (simp add: eq)
    next
      case False
      then have le: "lo \<le> m" by simp
      obtain es1 where e1: "(if cur < lo then yieldRange X e cur (Prev lo) None else seq_nil) = (seq_of (map Inr es1) :: (item, 's) seq)"
          "pieces rows (Rec e) {a. plain a \<and> cur \<le> a \<and> a < lo} es1"
        using enrich_gap [OF X rows(1) past i lo(5) cur(1) lo(1)] lo(2) cur(2) by metis
      obtain es2 where e2: "yieldRange X e lo m (Some (rows ! i)) = (seq_of (map Inr es2) :: (item, 's) seq)"
          "pieces rows (Rec e) (span lo m) es2"
        using enrich_row [OF X rows(1) i lo(1) m(1) _ le lo(4) m(4)] lo(2) m(2) by metis
      obtain es3 where e3: "(if hi \<le> m then seq_nil else enrich_loop X e rows hi (Suc i) (Next m)) = (seq_of (map Inr es3) :: (item, 's) seq)"
          "pieces rows (Rec e) {a. plain a \<and> m < a \<and> a \<le> hi} es3"
      proof (cases "hi \<le> m")
        case True
        then have "{a. plain a \<and> m < a \<and> a \<le> hi} = {}" by auto
        then show ?thesis using that [of "[]"] True pieces_Nil [of rows "Rec e"] by (simp only: iter if_True list.map)
      next
        case False
        then have lt: "m < hi" by simp
        then have "m = Last (rows ! i)" by (auto simp: m_def min_def split: if_splits)
        moreover note n = span_after [OF hi m(1,2) lt]
        moreover have lt': "m < Next m" using n(1) Next_plain [OF m(1)] plain_wf by blast
        moreover have "cur \<le> Next m" using lo(3) le lt' by order
        moreover have "span (Next m) hi = {a. plain a \<and> m < a \<and> a \<le> hi}" using n(4) by blast
        ultimately show ?thesis using that IH [of "Next m"] False m(2) by auto
      qed
      have "pieces rows (Rec e) ({a. plain a \<and> cur \<le> a \<and> a < lo} \<union> (span lo m \<union> {a. plain a \<and> m < a \<and> a \<le> hi}))
          (es1 @ es2 @ es3)"
        by (intro pieces_append e1 e2 e3) (use le in auto)
      moreover have "{a. plain a \<and> cur \<le> a \<and> a < lo} \<union> (span lo m \<union> {a. plain a \<and> m < a \<and> a \<le> hi}) = span cur hi"
        using lo(3) m(3) le by auto
      moreover have "enrich_loop X e rows hi i cur = (seq_of (map Inr (es1 @ es2 @ es3)) :: (item, 's) seq)"
        unfolding eq e1(1) e2(1) e3(1) using False by (simp add: iter)
      ultimately show ?thesis by metis
    qed
  qed
qed

lemma rows_z:
  assumes "table_ok t" "plain a"
  shows "disjoint_rows (table_rows t (Is4 a))" "\<forall>r \<in> set (table_rows t (Is4 a)). z (First r) = z a"
proof -
  show d: "disjoint_rows (table_rows t (Is4 a))" using assms(1) by (auto simp: table_ok_def coalesced_def)
  show "\<forall>r \<in> set (table_rows t (Is4 a)). z (First r) = z a"
  proof
    fix r assume r: "r \<in> set (table_rows t (Is4 a))"
    then have "plain (First r)" "Is4 (First r) = Is4 a"
      using assms(1) d by (auto simp: table_ok_def disjoint_rows_def row_ok_def)
    then show "z (First r) = z a" using Is4_same_z assms(2) by simp
  qed
qed

lemma search_least:
  assumes "disjoint_rows rows"
  shows "sort_Search (length rows) (\<lambda>i. addr_Compare (Last (rows ! i)) lo \<ge> 0) \<le> length rows \<and>
    (\<forall>j < sort_Search (length rows) (\<lambda>i. addr_Compare (Last (rows ! i)) lo \<ge> 0). Last (rows ! j) < lo)"
proof -
  have "\<forall>k l. k \<le> l \<longrightarrow> l < length rows \<longrightarrow> addr_Compare (Last (rows ! k)) lo \<ge> 0 \<longrightarrow>
      addr_Compare (Last (rows ! l)) lo \<ge> 0"
    using rows_nth(3) [OF assms] by (auto intro: order_trans)
  from sort_Search_least [OF this] show ?thesis by (simp add: not_le)
qed

lemma enrichEntry_pieces:
  assumes X: "netipx_contract X" and t: "table_ok t" and wf: "prefix_wf (Network e)"
    and n: "normalizePrefix (Network e) = Some q"
  shows "\<exists>es. enrichEntry X e t = (seq_of (map Inr es) :: (item, 's) seq) \<and>
    pieces (table_rows t (Is4 (paddr q))) (Rec e) (prefix_span q) es"
proof -
  define rows where "rows = table_rows t (Is4 (paddr q))"
  define lo where "lo = prefix_first q"
  define hi where "hi = prefix_last q"
  define i where "i = sort_Search (length rows) (\<lambda>i. addr_Compare (Last (rows ! i)) lo \<ge> 0)"
  have q: "prefix_wf q" using normalizePrefix_wf [OF wf n] by blast
  note ends = prefix_ends_plain [OF q, folded lo_def hi_def]
  have le: "lo \<le> hi" using prefix_first_le_last [OF q] by (simp add: lo_def hi_def)
  have R: "RangeOfPrefix X q = (lo, hi)" using X q by (simp add: netipx_contract_def lo_def hi_def)
  have "Is4 hi = Is4 (paddr q)" using ends(4) by (simp add: Is4_def)
  then have rows: "disjoint_rows rows" "\<forall>r \<in> set rows. z (First r) = z hi"
    using rows_z [OF t ends(2)] by (simp_all add: rows_def)
  have i: "i \<le> length rows" "\<forall>j < i. Last (rows ! j) < lo"
    using search_least [OF rows(1), of lo] by (auto simp: i_def)
  have rows': "rows = (if Is4 (paddr q) then v4 t else v6 t)" by (simp add: rows_def table_rows_def)
  have eq: "enrichEntry X e t = (if i = length rows \<or> hi < First (rows ! i)
      then seq_yield (Inr (e\<lparr>Network := q\<rparr>)) else (enrich_loop X e rows hi i lo :: (item, 's) seq))"
    unfolding enrichEntry_def n i_def rows' by (simp add: R Let_def)
  show ?thesis
  proof (cases "i = length rows \<or> hi < First (rows ! i)")
    case True
    have "owner rows a = None" if "a \<in> prefix_span q" for a
      using owner_gap [OF rows(1) _ _ i(1), of a] True i(2) that by (force simp: prefix_span_def lo_def hi_def)
    then have "pieces rows (Rec e) (prefix_span q) [e\<lparr>Network := q\<rparr>]"
      using q by (auto simp: pieces_def partitions_def stamped_def)
    then show ?thesis
      using True unfolding eq rows_def by (intro exI [of _ "[e\<lparr>Network := q\<rparr>]"]) (simp add: iter)
  next
    case False
    then show ?thesis
      using enrich_loop_pieces [OF X rows ends(2,1) _ le i(2,1), of e] ends(3,4)
      by (auto simp: eq rows_def prefix_span_def lo_def hi_def)
  qed
qed

text \<open>What enrichment may make of one value of the stream.\<close>

definition enriched :: "ASNTable \<Rightarrow> item \<Rightarrow> item list \<Rightarrow> bool" where
  "enriched t it ys = (case it of
     Inl err \<Rightarrow> ys = [Inl err]
   | Inr e \<Rightarrow> (case normalizePrefix (Network e) of
       None \<Rightarrow> ys = [Inr e]
     | Some q \<Rightarrow> (\<exists>es. ys = map Inr es \<and>
         pieces (table_rows t (Is4 (paddr q))) (Rec e) (prefix_span q) es)))"

lemma enrich_item:
  assumes "netipx_contract X" "table_ok t" "\<forall>e. it = Inr e \<longrightarrow> prefix_wf (Network e)"
  shows "\<exists>ys. (case it of Inl err \<Rightarrow> seq_yield it | Inr e \<Rightarrow> enrichEntry X e t) = (seq_of ys :: (item, 's) seq) \<and>
    enriched t it ys"
proof (cases it)
  case (Inl err)
  then show ?thesis by (intro exI [of _ "[Inl err]"]) (simp add: iter enriched_def)
next
  case (Inr e)
  show ?thesis
  proof (cases "normalizePrefix (Network e)")
    case None
    then show ?thesis using Inr
      by (intro exI [of _ "[Inr e]"]) (simp add: iter enriched_def enrichEntry_def)
  next
    case (Some q)
    then show ?thesis
      using Inr enrichEntry_pieces [OF assms(1,2) _ Some] assms(3) by (auto simp: enriched_def)
  qed
qed

text \<open>
  C7. Enrichment of a stream of well-formed entries is the stream in which every entry is
  replaced, in place, by prefixes that partition its addresses; each piece carries the record
  of the entry, stamped with the AS that announces all of its addresses, and unstamped exactly
  where no AS does. Errors and too-short 4-in-6 entries pass through. The consumer may stop at
  any point: the iterator is that of a list.
\<close>

theorem EnrichASN_partitions:
  assumes "netipx_contract X" "table_ok t" "\<forall>e. Inr e \<in> set xs \<longrightarrow> prefix_wf (Network e)"
  shows "\<exists>yss. EnrichASN X (seq_of xs) t = (seq_of (concat yss) :: (item, 's) seq) \<and>
    list_all2 (enriched t) xs yss"
proof -
  obtain f :: "item \<Rightarrow> item list" where
    f: "\<And>it. it \<in> set xs \<Longrightarrow> (case it of Inl err \<Rightarrow> seq_yield it | Inr e \<Rightarrow> enrichEntry X e t) =
        (seq_of (f it) :: (item, 's) seq) \<and> enriched t it (f it)"
  proof -
    have "\<forall>it. \<exists>ys. it \<in> set xs \<longrightarrow> (case it of Inl err \<Rightarrow> seq_yield it | Inr e \<Rightarrow> enrichEntry X e t) =
        (seq_of ys :: (item, 's) seq) \<and> enriched t it ys"
      using enrich_item [OF assms(1,2), where 's = 's] assms(3) by metis
    then show thesis using that by metis
  qed
  have "EnrichASN X (seq_of xs) t = seq_range (seq_of xs) (\<lambda>it. (seq_of (f it) :: (item, 's) seq))"
    unfolding EnrichASN_def by (rule seq_range_cong) (use f in blast)
  moreover have "list_all2 (enriched t) xs (map f xs)"
    using f by (auto simp: list_all2_map2 list.rel_refl_strong intro!: list.rel_refl_strong)
  ultimately show ?thesis by (intro exI [of _ "map f xs"]) (simp add: iter)
qed

section \<open>An instance of the range package\<close>

text \<open>One host prefix per address: it meets the contract, and the witnesses use it.\<close>

definition host_prefix :: "addr \<Rightarrow> prefix" where
  "host_prefix a = Prefix a (BitLen a + 1)"

definition host_netipx :: netipx where
  "host_netipx =
     \<lparr>RangeOfPrefix = (\<lambda>p. (prefix_first p, prefix_last p)),
      RangeIsValid = (\<lambda>lo hi. plain lo \<and> plain hi \<and> z hi = z lo \<and> lo \<le> hi),
      RangePrefixes = (\<lambda>lo hi. if plain lo \<and> plain hi \<and> z hi = z lo \<and> lo \<le> hi
        then map (\<lambda>k. host_prefix (Addr (ip lo + word_of_nat k) (z lo))) [0..<Suc (unat (ip hi - ip lo))]
        else [])\<rparr>"

lemma host_prefix_span:
  assumes "plain a"
  shows "prefix_wf (host_prefix a)" "prefix_span (host_prefix a) = {a}"
proof -
  show wf: "prefix_wf (host_prefix a)"
    using assms by (simp add: host_prefix_def prefix_wf_def prefix_IsValid_def)
  have "fixedBits (host_prefix a) = 128"
    using assms by (auto simp: host_prefix_def fixedBits_def Bits_def Is4_def BitLen_def plain_def)
  then show "prefix_span (host_prefix a) = {a}"
    using in_prefix_span [OF wf] assms by (auto simp: host_prefix_def addr.expand)
qed

lemma range_word:
  fixes lo hi x :: "128 word"
  assumes "lo \<le> hi"
  shows "lo \<le> x \<and> x \<le> hi \<longleftrightarrow> (\<exists>k \<le> unat (hi - lo). x = lo + word_of_nat k)"
proof
  assume "lo \<le> x \<and> x \<le> hi"
  then have "unat (x - lo) \<le> unat (hi - lo)"
    by (metis word_le_nat_alt word_le_minus_mono_left word_le_minus_mono order_refl)
  then show "\<exists>k \<le> unat (hi - lo). x = lo + word_of_nat k"
    by (intro exI [of _ "unat (x - lo)"]) simp
next
  assume "\<exists>k \<le> unat (hi - lo). x = lo + word_of_nat k"
  then obtain k where k: "k \<le> unat (hi - lo)" "x = lo + word_of_nat k" by blast
  have d: "unat (hi - lo) = unat hi - unat lo" using assms by (rule unat_sub)
  have lt: "unat w < 2 ^ LENGTH(128)" for w :: "128 word" by (rule unsigned_less)
  have "k < 2 ^ LENGTH(128)" using k(1) lt by (rule le_less_trans)
  then have u: "unat (word_of_nat k :: 128 word) = k" by (simp add: unat_of_nat take_bit_nat_eq_self)
  have "unat lo + k < 2 ^ LENGTH(128)"
    using k(1) d assms lt [of hi] by (simp only: word_le_nat_alt)
  then have "unat x = unat lo + k" using u k(2) by (simp add: unat_word_ariths)
  then show "lo \<le> x \<and> x \<le> hi" using k(1) d assms by (simp add: word_le_nat_alt)
qed

lemma host_netipx_contract: "netipx_contract host_netipx"
proof -
  have "partitions (RangePrefixes host_netipx lo hi) (span lo hi)"
    if ends: "plain lo" "plain hi" "z hi = z lo" "lo \<le> hi" for lo hi
  proof -
    define w where "w k = Addr (ip lo + word_of_nat k) (z lo)" for k
    have le: "ip lo \<le> ip hi" using plain_le [of lo hi] ends by simp
    have sp: "a \<in> span lo hi \<longleftrightarrow> (\<exists>k \<le> unat (ip hi - ip lo). a = w k) \<and> plain a" for a
    proof (cases "plain a")
      case True
      have "a \<in> span lo hi \<longleftrightarrow> z a = z lo \<and> ip lo \<le> ip a \<and> ip a \<le> ip hi"
        using True ends plain_convex [of lo hi a] plain_le [of lo a] plain_le [of a hi] by auto
      then show ?thesis using True range_word [OF le, of "ip a"] by (cases a) (auto simp: w_def)
    qed simp
    have pl: "plain (w k)" if "k \<le> unat (ip hi - ip lo)" for k
    proof -
      have r: "ip lo \<le> ip (w k)" "ip (w k) \<le> ip hi" using range_word [OF le, of "ip (w k)"] that by (auto simp: w_def)
      have "drop_bit 32 (ip (w k)) = 0xffff" if z4: "z lo = Z4"
      proof -
        have "v4_mapped (ip lo)" "v4_mapped (ip hi)" using ends z4 by (auto simp: plain_def)
        then show ?thesis using drop_bit_mono [OF r(1), of 32] drop_bit_mono [OF r(2), of 32] by simp
      qed
      then show ?thesis using ends(1) by (auto simp: plain_def w_def)
    qed
    have inj: "w j \<noteq> w k" if "j < k" "k \<le> unat (ip hi - ip lo)" for j k
    proof -
      have "k < 2 ^ LENGTH(128)" using that(2) unsigned_less by (rule le_less_trans)
      then have "word_of_nat j \<noteq> (word_of_nat k :: 128 word)"
        using that(1) by (simp add: word_of_nat_eq_iff take_bit_nat_eq_self)
      then show ?thesis by (simp add: w_def)
    qed
    have ps: "RangePrefixes host_netipx lo hi = map (\<lambda>k. host_prefix (w k)) [0..<Suc (unat (ip hi - ip lo))]"
      using ends by (simp add: host_netipx_def w_def del: upt_Suc)
    have span: "span lo hi = w ` {0..<Suc (unat (ip hi - ip lo))}"
    proof (intro set_eqI)
      show "a \<in> span lo hi \<longleftrightarrow> a \<in> w ` {0..<Suc (unat (ip hi - ip lo))}" for a
        unfolding sp using pl by (auto simp: less_Suc_eq_le)
    qed
    show ?thesis
      unfolding partitions_def ps span
      using pl host_prefix_span inj
      by (auto simp: sorted_wrt_map sorted_wrt_iff_nth_less less_Suc_eq_le simp del: upt_Suc)
  qed
  note part = this
  have "prefix_wf p" if "p \<in> set (RangePrefixes host_netipx lo hi)" for lo hi p
  proof (cases "plain lo \<and> plain hi \<and> z hi = z lo \<and> lo \<le> hi")
    case True
    then show ?thesis using part [of lo hi] that by (simp add: partitions_def)
  next
    case False
    then have "RangePrefixes host_netipx lo hi = []" by (simp add: host_netipx_def)
    then show ?thesis using that by simp
  qed
  moreover have "RangeIsValid host_netipx lo hi = (z hi = z lo \<and> lo \<le> hi)" if "plain lo" "plain hi" for lo hi
    using that by (simp add: host_netipx_def)
  moreover have "RangeOfPrefix host_netipx p = (prefix_first p, prefix_last p)" for p
    by (simp add: host_netipx_def)
  ultimately show ?thesis using part unfolding netipx_contract_def by blast
qed

definition boundary_entry :: Entry where
  "boundary_entry = \<lparr>Network = Prefix (AddrFrom4 0x0a000000) 31,
     Rec = zeroRecord\<lparr>Provider := ''aws'', Ext := [''owner'' \<mapsto> ''x'']\<rparr>\<rparr>"

theorem EnrichASN_partitions_witness:
  "table_ok (NewASNTable stable_sort [\<lparr>First = AddrFrom4 0x0a000001, Last = AddrFrom4 0x0a000002, ASN = 16509, Org = ''AMAZON-02''\<rparr>]) \<and>
   (\<exists>yss. EnrichASN host_netipx (seq_of [Inl (LibErr ''x'' []), Inr boundary_entry])
      (NewASNTable stable_sort [\<lparr>First = AddrFrom4 0x0a000001, Last = AddrFrom4 0x0a000002, ASN = 16509, Org = ''AMAZON-02''\<rparr>]) =
      (seq_of (concat yss) :: (item, item list) seq) \<and> length yss = 2)"
proof -
  let ?rows = "[\<lparr>First = AddrFrom4 0x0a000001, Last = AddrFrom4 0x0a000002, ASN = 16509, Org = ''AMAZON-02''\<rparr>]"
  let ?t = "NewASNTable stable_sort ?rows"
  have "\<forall>r \<in> set ?rows. bound_ok (First r) \<and> bound_ok (Last r)" by code_simp
  then have t: "table_ok ?t" by (rule NewASNTable_ok [OF stable_sort_contract])
  have "prefix_wf (Network boundary_entry)" by code_simp
  then have "\<forall>e. Inr e \<in> set [Inl (LibErr ''x'' []), Inr boundary_entry] \<longrightarrow> prefix_wf (Network e)" by simp
  from EnrichASN_partitions [OF host_netipx_contract t this] obtain yss where
    "EnrichASN host_netipx (seq_of [Inl (LibErr ''x'' []), Inr boundary_entry]) ?t = (seq_of (concat yss) :: (item, item list) seq)"
    "list_all2 (enriched ?t) [Inl (LibErr ''x'' []), Inr boundary_entry] yss" by blast
  then show ?thesis using t list_all2_lengthD by fastforce
qed

lemma enrich_example:
  "map (map_sum (\<lambda>_. ()) (\<lambda>e. (Network e, Ext (Rec e) ''owner'', Ext (Rec e) ''asn'', Ext (Rec e) ''as_org'')))
     (collect_all (EnrichASN host_netipx (seq_of [Inr boundary_entry])
       (NewASNTable stable_sort [\<lparr>First = AddrFrom4 0x0a000001, Last = AddrFrom4 0x0a000002, ASN = 16509, Org = ''AMAZON-02''\<rparr>]))) =
   [Inr (Prefix (AddrFrom4 0x0a000000) 33, Some ''x'', None, None),
    Inr (Prefix (AddrFrom4 0x0a000001) 33, Some ''x'', Some ''16509'', Some ''AMAZON-02''),
    Inr (Prefix (AddrFrom4 0x0a000002) 33, Some ''x'', Some ''16509'', Some ''AMAZON-02''),
    Inr (Prefix (AddrFrom4 0x0a000003) 33, Some ''x'', None, None)]"
  by code_simp

end
