(* ===== verification/Text.thy ===== *)
theory Text
  imports Records
begin

text \<open>
  The string functions of the Go standard library that the feeds, the commands and the
  server use: UTF-8, \<open>strings\<close>, and the line scanner of \<open>bufio\<close>.
\<close>

section \<open>UTF-8\<close>

abbreviation cont_byte :: "char \<Rightarrow> bool" where
  "cont_byte c \<equiv> 0x80 \<le> byte c \<and> byte c \<le> 0xbf"

text \<open>\<open>utf8.DecodeRuneInString\<close>: the first rune and its width; (U+FFFD, 1) on an invalid byte.\<close>

definition decode_rune :: "string \<Rightarrow> int \<times> nat" where
  "decode_rune s = (case s of
     [] \<Rightarrow> (0xfffd, 0)
   | c # cs \<Rightarrow>
       let b = byte c; bad = (0xfffd, 1) in
       if b < 0x80 then (b, 1)
       else if 0xc2 \<le> b \<and> b \<le> 0xdf then
         (case cs of c1 # _ \<Rightarrow> if cont_byte c1 then ((b - 0xc0) * 64 + (byte c1 - 0x80), 2) else bad | _ \<Rightarrow> bad)
       else if 0xe0 \<le> b \<and> b \<le> 0xef then
         (case cs of c1 # c2 # _ \<Rightarrow>
            if cont_byte c1 \<and> cont_byte c2 \<and> (b = 0xe0 \<longrightarrow> 0xa0 \<le> byte c1) \<and> (b = 0xed \<longrightarrow> byte c1 \<le> 0x9f)
            then ((b - 0xe0) * 4096 + (byte c1 - 0x80) * 64 + (byte c2 - 0x80), 3) else bad | _ \<Rightarrow> bad)
       else if 0xf0 \<le> b \<and> b \<le> 0xf4 then
         (case cs of c1 # c2 # c3 # _ \<Rightarrow>
            if cont_byte c1 \<and> cont_byte c2 \<and> cont_byte c3 \<and>
               (b = 0xf0 \<longrightarrow> 0x90 \<le> byte c1) \<and> (b = 0xf4 \<longrightarrow> byte c1 \<le> 0x8f)
            then ((b - 0xf0) * 262144 + (byte c1 - 0x80) * 4096 + (byte c2 - 0x80) * 64 + (byte c3 - 0x80), 4)
            else bad | _ \<Rightarrow> bad)
       else bad)"

text \<open>\<open>utf8.AppendRune\<close>; a surrogate or an out-of-range value is written as U+FFFD.\<close>

definition encode_rune :: "int \<Rightarrow> string" where
  "encode_rune r0 =
     (let r = (if r0 < 0 \<or> 0x10ffff < r0 \<or> 0xd800 \<le> r0 \<and> r0 \<le> 0xdfff then 0xfffd else r0) in
      if r < 0x80 then [char_of r]
      else if r < 0x800 then [char_of (0xc0 + r div 64), char_of (0x80 + r mod 64)]
      else if r < 0x10000 then
        [char_of (0xe0 + r div 4096), char_of (0x80 + r div 64 mod 64), char_of (0x80 + r mod 64)]
      else [char_of (0xf0 + r div 262144), char_of (0x80 + r div 4096 mod 64),
        char_of (0x80 + r div 64 mod 64), char_of (0x80 + r mod 64)])"

lemma decode_rune_width: "s \<noteq> [] \<Longrightarrow> 0 < snd (decode_rune s)"
  by (auto simp: decode_rune_def Let_def split: list.splits)

section \<open>The package strings\<close>

text \<open>\<open>unicode.IsSpace\<close>, as the byte sequences of the space characters.\<close>

definition spaces :: "string list" where
  "spaces = [[CHR 0x20], [CHR 0x09], [CHR 0x0a], [CHR 0x0b], [CHR 0x0c], [CHR 0x0d]] @
     map encode_rune ([0x85, 0xa0, 0x1680] @ map (\<lambda>k. 0x2000 + k) [0..10] @
       [0x2028, 0x2029, 0x202f, 0x205f, 0x3000])"

function strip :: "string list \<Rightarrow> string \<Rightarrow> string" where
  "strip ps s = (case find (\<lambda>p. p \<noteq> [] \<and> has_prefix s p) ps of
     None \<Rightarrow> s
   | Some p \<Rightarrow> strip ps (drop (length p) s))"
  by pat_completeness auto
termination
proof (relation "measure (\<lambda>(_, s). length s)")
  fix ps :: "string list" and s p
  assume "find (\<lambda>p. p \<noteq> [] \<and> has_prefix s p) ps = Some p"
  then have p: "p \<noteq> []" "has_prefix s p" by (auto simp: find_Some_iff)
  then have "s \<noteq> []" by (auto simp: has_prefix_def)
  then have "0 < length s" "0 < length p" using p(1) by auto
  then show "((ps, drop (length p) s), (ps, s)) \<in> measure (\<lambda>(_, s). length s)" by simp
qed simp

declare strip.simps [simp del]

definition TrimSpace :: "string \<Rightarrow> string" where
  "TrimSpace s = rev (strip (map rev spaces) (rev (strip spaces s)))"

text \<open>\<open>strings.Split\<close> and \<open>strings.Join\<close> with a one-byte separator.\<close>

fun split_char :: "char \<Rightarrow> string \<Rightarrow> string list" where
  "split_char c [] = [[]]"
| "split_char c (x # xs) =
     (if x = c then [] # split_char c xs
      else (case split_char c xs of p # ps \<Rightarrow> (x # p) # ps | [] \<Rightarrow> [[x]]))"

fun strings_Join :: "string list \<Rightarrow> string \<Rightarrow> string" where
  "strings_Join [] sep = []"
| "strings_Join [s] sep = s"
| "strings_Join (s # ss) sep = s @ sep @ strings_Join ss sep"

text \<open>
  \<open>strings.EqualFold\<close> where one side is ASCII without k and s (the letters with a non-ASCII
  fold): equality of the lower-cased bytes.
\<close>

definition lower_char :: "char \<Rightarrow> char" where
  "lower_char c = (if char_in (CHR ''A'') c (CHR ''Z'') then char_of (byte c + 32) else c)"

definition EqualFold :: "string \<Rightarrow> string \<Rightarrow> bool" where
  "EqualFold s t \<longleftrightarrow> map lower_char s = map lower_char t"

lemma split_char_nonempty: "split_char c s \<noteq> []"
  by (cases s) (auto split: list.split)

lemma split_char_join: "strings_Join (split_char c s) [c] = s"
proof (induction s)
  case (Cons x xs)
  obtain p ps where p: "split_char c xs = p # ps" using split_char_nonempty by (metis list.exhaust)
  then show ?case using Cons p by (cases ps) auto
qed simp

lemma split_char_free: "p \<in> set (split_char c s) \<Longrightarrow> c \<notin> set p"
  by (induction s arbitrary: p) (auto split: list.splits if_splits)

text \<open>A trimmed string starts and ends with no space.\<close>

lemma strip_no_prefix: "q \<in> set ps \<Longrightarrow> q \<noteq> [] \<Longrightarrow> \<not> has_prefix (strip ps s) q"
proof (induction ps s rule: strip.induct)
  case (1 ps s)
  show ?case
  proof (cases "find (\<lambda>p. p \<noteq> [] \<and> has_prefix s p) ps")
    case None
    then have "strip ps s = s" by (simp add: strip.simps [of ps s])
    then show ?thesis using None 1 by (auto simp: find_None_iff)
  next
    case (Some p)
    then show ?thesis using 1 by (simp add: strip.simps [of ps s])
  qed
qed

lemma strip_suffix: "\<exists>pre. s = pre @ strip ps s"
proof (induction ps s rule: strip.induct)
  case (1 ps s)
  show ?case
  proof (cases "find (\<lambda>p. p \<noteq> [] \<and> has_prefix s p) ps")
    case None
    then show ?thesis by (simp add: strip.simps [of ps s])
  next
    case (Some p)
    then obtain pre where "drop (length p) s = pre @ strip ps s"
      using 1 by (auto simp: strip.simps [of ps s])
    then have "s = take (length p) s @ pre @ strip ps s" by (metis append_take_drop_id)
    then show ?thesis by (metis append.assoc)
  qed
qed

lemma TrimSpace_infix: "\<exists>pre post. s = pre @ TrimSpace s @ post"
proof -
  obtain pre where s: "s = pre @ strip spaces s" using strip_suffix by blast
  obtain pre' where "rev (strip spaces s) = pre' @ strip (map rev spaces) (rev (strip spaces s))"
    using strip_suffix by blast
  then have "strip spaces s = TrimSpace s @ rev pre'"
    by (metis TrimSpace_def rev_append rev_rev_ident)
  then show ?thesis using s by metis
qed

lemma set_TrimSpace: "set (TrimSpace s) \<subseteq> set s"
  using TrimSpace_infix [of s] by (metis UnCI set_append subsetI)

section \<open>The scanner of bufio\<close>

text \<open>
  \<open>bufio.Scanner\<close> with \<open>ScanLines\<close>: the tokens it yields and what \<open>Err\<close> reports. A line does
  not fit the buffer of \<open>lim\<close> bytes when it has \<open>lim\<close> bytes or more before its newline.
  A read error ends the scan after the bytes read so far were split.
\<close>

definition drop_cr :: "string \<Rightarrow> string" where
  "drop_cr l = trim_suffix l [CHR 0x0d]"

definition ErrTooLong :: error where
  "ErrTooLong = LibErr ''bufio.Scanner: token too long'' []"

fun scan_raw :: "int \<Rightarrow> error option \<Rightarrow> string list \<Rightarrow> string list \<times> error option" where
  "scan_raw lim err [] = ([], err)"
| "scan_raw lim err [l] =
     (if int (length l) \<ge> lim then ([], Some ErrTooLong)
      else (if l = [] then [] else [drop_cr l], err))"
| "scan_raw lim err (l # ls) =
     (if int (length l) \<ge> lim then ([], Some ErrTooLong)
      else (case scan_raw lim err ls of (toks, e) \<Rightarrow> (drop_cr l # toks, e)))"

definition scan_lines :: "int \<Rightarrow> reader \<Rightarrow> string list \<times> error option" where
  "scan_lines lim r = scan_raw lim (fault r) (split_char (CHR 0x0a) (content r))"

abbreviation MaxScanTokenSize :: int where
  "MaxScanTokenSize \<equiv> 65536"

end
