(* ===== verification/Json.thy ===== *)
theory Json
  imports Text
begin

text \<open>
  \<open>encoding/json\<close> of the Go standard library, as far as the feeds use it: reading one value
  (a lexer and a stack machine, so no fuel is needed), decoding a value into a struct, and
  the streaming decoder (\<open>Token\<close>, \<open>More\<close>, \<open>Decode\<close>).
\<close>

section \<open>Values and tokens\<close>

datatype json = JNull | JBool bool | JNum string | JStr string | JArr "json list"
  | JObj "(string \<times> json) list"

datatype token = TLBrack | TRBrack | TLBrace | TRBrace | TComma | TColon | TVal json

text \<open>The input may end within a token: that is told apart from a syntax error.\<close>

datatype lexed = LEnd | LBad | LTok token string

definition json_space :: "char \<Rightarrow> bool" where
  "json_space c \<longleftrightarrow> c \<in> {CHR '' '', CHR 0x09, CHR 0x0a, CHR 0x0d}"

definition skip_space :: "string \<Rightarrow> string" where
  "skip_space s = dropWhile json_space s"

subsection \<open>Strings\<close>

definition hex_val :: "char \<Rightarrow> int option" where
  "hex_val c =
     (if char_in (CHR ''0'') c (CHR ''9'') then Some (byte c - 48)
      else if char_in (CHR ''a'') c (CHR ''f'') then Some (byte c - 87)
      else if char_in (CHR ''A'') c (CHR ''F'') then Some (byte c - 55) else None)"

definition hex4 :: "string \<Rightarrow> int option" where
  "hex4 s = (case s of
     a # b # c # d # _ \<Rightarrow> (case (hex_val a, hex_val b, hex_val c, hex_val d) of
         (Some h, Some i, Some j, Some k) \<Rightarrow> Some (((h * 16 + i) * 16 + j) * 16 + k)
       | _ \<Rightarrow> None)
   | _ \<Rightarrow> None)"

datatype str_lexed = SEnd | SBad | SOk string string

text \<open>The raw body of a string literal, up to its closing quote: the body and the rest.\<close>

fun raw_string :: "string \<Rightarrow> string \<Rightarrow> str_lexed" where
  "raw_string acc [] = SEnd"
| "raw_string acc (c # cs) =
     (if c = CHR 0x22 then SOk (rev acc) cs
      else if c = CHR 0x5c then
        (case cs of
           [] \<Rightarrow> SEnd
         | e # es \<Rightarrow>
             if e \<in> {CHR 0x22, CHR 0x5c, CHR ''/'', CHR ''b'', CHR ''f'', CHR ''n'', CHR ''r'', CHR ''t''}
             then raw_string (e # c # acc) es
             else if e = CHR ''u'' then
               (if \<exists>x \<in> set (take 4 es). hex_val x = None then SBad
                else if length es < 4 then SEnd else raw_string (e # c # acc) es)
             else SBad)
      else if byte c < 0x20 then SBad
      else raw_string (c # acc) cs)"

text \<open>
  Unquoting: escapes are replaced, surrogate pairs joined, and what is no valid UTF-8 becomes
  U+FFFD.
\<close>

function unquote :: "string \<Rightarrow> string" where
  "unquote [] = []"
| "unquote (c # cs) =
     (if c = CHR 0x5c then
        (case cs of
           [] \<Rightarrow> []
         | e # es \<Rightarrow>
             if e = CHR ''u'' then
               (case hex4 es of
                  None \<Rightarrow> unquote es
                | Some r \<Rightarrow>
                    let t = drop 4 es in
                    if 0xd800 \<le> r \<and> r < 0xdc00 \<and> take 2 t = [CHR 0x5c, CHR ''u''] then
                      (case hex4 (drop 2 t) of
                         Some q \<Rightarrow>
                           if 0xdc00 \<le> q \<and> q < 0xe000
                           then encode_rune (0x10000 + (r - 0xd800) * 1024 + (q - 0xdc00)) @ unquote (drop 6 t)
                           else encode_rune 0xfffd @ unquote t
                       | None \<Rightarrow> encode_rune 0xfffd @ unquote t)
                    else encode_rune r @ unquote t)
             else (if e = CHR ''b'' then CHR 0x08 else if e = CHR ''f'' then CHR 0x0c
                   else if e = CHR ''n'' then CHR 0x0a else if e = CHR ''r'' then CHR 0x0d
                   else if e = CHR ''t'' then CHR 0x09 else e) # unquote es)
      else
        let (r, n) = decode_rune (c # cs) in
        encode_rune r @ unquote (drop (n - 1) cs))"
  by pat_completeness auto
termination
  by (relation "measure length") auto

subsection \<open>Numbers\<close>

text \<open>
  A number literal: the longest match of the grammar, the input that follows it, and whether
  the input ended where the grammar still wants a digit.
\<close>

datatype num_lexed = NEnd | NBad | NOk string string

definition digits1 :: "string \<Rightarrow> num_lexed" where
  "digits1 s = (case s of [] \<Rightarrow> NEnd | c # _ \<Rightarrow>
     if is_digit c then NOk (takeWhile is_digit s) (dropWhile is_digit s) else NBad)"

definition num_then :: "num_lexed \<Rightarrow> (string \<Rightarrow> string \<Rightarrow> num_lexed) \<Rightarrow> num_lexed" where
  "num_then r f = (case r of NOk lit rest \<Rightarrow> f lit rest | _ \<Rightarrow> r)"

definition num_int :: "string \<Rightarrow> num_lexed" where
  "num_int s = (if s \<noteq> [] \<and> hd s = CHR ''0'' then NOk ''0'' (tl s) else digits1 s)"

definition num_frac :: "string \<Rightarrow> string \<Rightarrow> num_lexed" where
  "num_frac lit s =
     (if s \<noteq> [] \<and> hd s = CHR ''.'' then num_then (digits1 (tl s)) (\<lambda>d rest. NOk (lit @ ''.'' @ d) rest)
      else NOk lit s)"

definition num_exp :: "string \<Rightarrow> string \<Rightarrow> num_lexed" where
  "num_exp lit s = (case s of
     [] \<Rightarrow> NOk lit s
   | e # cs \<Rightarrow>
       if e = CHR ''e'' \<or> e = CHR ''E'' then
         (case cs of
            sg # ds \<Rightarrow>
              if sg = CHR ''+'' \<or> sg = CHR ''-''
              then num_then (digits1 ds) (\<lambda>d rest. NOk (lit @ [e, sg] @ d) rest)
              else num_then (digits1 cs) (\<lambda>d rest. NOk (lit @ [e] @ d) rest)
          | [] \<Rightarrow> NEnd)
       else NOk lit s)"

definition number :: "string \<Rightarrow> num_lexed" where
  "number s =
     (if s \<noteq> [] \<and> hd s = CHR ''-''
      then num_then (num_int (tl s)) (\<lambda>i rest. num_then (num_frac (''-'' @ i) rest) num_exp)
      else num_then (num_int s) (\<lambda>i rest. num_then (num_frac i rest) num_exp))"

subsection \<open>The lexer\<close>

definition literal :: "string \<Rightarrow> json \<Rightarrow> string \<Rightarrow> lexed" where
  "literal word v s =
     (if has_prefix s word then LTok (TVal v) (drop (length word) s)
      else if take (length s) word = s then LEnd else LBad)"

definition punctuation :: "(char \<times> token) list" where
  "punctuation = [(CHR ''['', TLBrack), (CHR '']'', TRBrack), (CHR ''{'', TLBrace), (CHR ''}'', TRBrace),
     (CHR '','', TComma), (CHR '':'', TColon)]"

definition lex_scalar :: "char \<Rightarrow> string \<Rightarrow> lexed" where
  "lex_scalar c cs =
     (if c = CHR 0x22 then
        (case raw_string [] cs of SEnd \<Rightarrow> LEnd | SBad \<Rightarrow> LBad | SOk raw rest \<Rightarrow> LTok (TVal (JStr (unquote raw))) rest)
      else if c = CHR ''-'' \<or> is_digit c then
        (case number (c # cs) of NEnd \<Rightarrow> LEnd | NBad \<Rightarrow> LBad | NOk lit rest \<Rightarrow> LTok (TVal (JNum lit)) rest)
      else if c = CHR ''t'' then literal ''true'' (JBool True) (c # cs)
      else if c = CHR ''f'' then literal ''false'' (JBool False) (c # cs)
      else if c = CHR ''n'' then literal ''null'' JNull (c # cs)
      else LBad)"

definition lex :: "string \<Rightarrow> lexed" where
  "lex s = (case skip_space s of
     [] \<Rightarrow> LEnd
   | c # cs \<Rightarrow> (case map_of punctuation c of Some t \<Rightarrow> LTok t cs | None \<Rightarrow> lex_scalar c cs))"

lemma raw_string_rest: "raw_string acc s = SOk raw rest \<Longrightarrow> length rest < length s"
proof (induction acc s rule: raw_string.induct)
  case (2 acc c cs)
  show ?case
  proof (cases cs)
    case Nil
    then show ?thesis using 2 by (auto split: if_splits)
  next
    case (Cons e es)
    then show ?thesis using 2 by (auto split: if_splits)
  qed
qed simp

lemma length_dropWhile_less: "s \<noteq> [] \<Longrightarrow> P (hd s) \<Longrightarrow> length (dropWhile P s) < length s"
  by (cases s) (auto simp: less_Suc_eq_le length_dropWhile_le)

lemma digits1_rest: "digits1 s = NOk lit rest \<Longrightarrow> length rest < length s"
  using length_dropWhile_less [of s is_digit] by (auto simp: digits1_def split: list.splits if_splits)

lemma num_then_rest:
  assumes "num_then r f = NOk lit rest"
  obtains l t where "r = NOk l t" "f l t = NOk lit rest"
  using assms by (auto simp: num_then_def split: num_lexed.splits)

lemma num_int_rest: "num_int s = NOk lit rest \<Longrightarrow> length rest < length s"
  by (auto simp: num_int_def dest: digits1_rest split: if_splits)

lemma num_frac_rest: "num_frac lit s = NOk lit' rest \<Longrightarrow> length rest \<le> length s"
  by (cases s) (auto simp: num_frac_def split: if_splits elim!: num_then_rest dest!: digits1_rest)

lemma num_exp_rest: "num_exp lit s = NOk lit' rest \<Longrightarrow> length rest \<le> length s"
  by (auto simp: num_exp_def split: list.splits if_splits elim!: num_then_rest dest!: digits1_rest)

lemma number_rest: "number s = NOk lit rest \<Longrightarrow> length rest < length s"
  by (cases s) (auto simp: number_def split: if_splits elim!: num_then_rest
      dest!: num_int_rest num_frac_rest num_exp_rest)

lemma literal_rest: "literal word v s = LTok t rest \<Longrightarrow> word \<noteq> [] \<Longrightarrow> s \<noteq> [] \<Longrightarrow> length rest < length s"
  by (auto simp: literal_def split: if_splits)

lemma lex_scalar_rest:
  assumes "lex_scalar c cs = LTok t rest"
  shows "length rest \<le> length cs"
proof -
  have lit: "length rest \<le> length cs" if "literal word v (c # cs) = LTok t rest" "word \<noteq> []" for word v
    using literal_rest [OF that] by simp
  show ?thesis
  proof (cases "c = CHR 0x22")
    case True
    then show ?thesis
      using assms raw_string_rest [of "[]" cs] by (cases "raw_string [] cs") (auto simp: lex_scalar_def)
  next
    case False
    show ?thesis
    proof (cases "c = CHR ''-'' \<or> is_digit c")
      case True
      then show ?thesis
        using assms False number_rest [of "c # cs"] by (cases "number (c # cs)") (auto simp: lex_scalar_def)
    next
      case num: False
      have "literal ''true'' (JBool True) (c # cs) = LTok t rest \<or>
          literal ''false'' (JBool False) (c # cs) = LTok t rest \<or> literal ''null'' JNull (c # cs) = LTok t rest"
        using assms unfolding lex_scalar_def if_not_P [OF False] if_not_P [OF num]
        by (metis lexed.distinct(5))
      then show ?thesis using lit by blast
    qed
  qed
qed

lemma lex_rest: "lex s = LTok t rest \<Longrightarrow> length rest < length s"
proof -
  assume l: "lex s = LTok t rest"
  obtain c cs where s: "skip_space s = c # cs"
    using l by (cases "skip_space s") (auto simp: lex_def)
  have "length rest \<le> length cs"
    using l lex_scalar_rest [of c cs t rest] by (auto simp: lex_def s split: option.splits)
  moreover have "length (c # cs) \<le> length s"
    unfolding s [symmetric] skip_space_def by (rule length_dropWhile_le)
  ultimately show ?thesis by simp
qed

section \<open>Reading a value\<close>

text \<open>
  The open arrays and objects around the current position, innermost first, and what may come
  next: a value, a value or the closing bracket, a key, a key or the closing brace, the colon
  after a key, or a comma or the closing bracket.
\<close>

datatype frame = FArr "json list" | FObj "(string \<times> json) list" | FKey "(string \<times> json) list" string

datatype expect = XValue | XValueOrClose | XKey | XKeyOrClose | XColon | XCommaOrClose

datatype advance = Fail | Done json | Go expect "frame list"

definition maxNestingDepth :: int where
  "maxNestingDepth = 10000"

text \<open>A complete value goes into the innermost open frame.\<close>

definition put_value :: "json \<Rightarrow> frame list \<Rightarrow> advance" where
  "put_value v stack = (case stack of
     [] \<Rightarrow> Done v
   | FArr vs # st \<Rightarrow> Go XCommaOrClose (FArr (vs @ [v]) # st)
   | FKey kvs k # st \<Rightarrow> Go XCommaOrClose (FObj (kvs @ [(k, v)]) # st)
   | FObj kvs # st \<Rightarrow> Fail)"

definition close_frame :: "frame list \<Rightarrow> token \<Rightarrow> advance" where
  "close_frame stack t = (case stack of
     FArr vs # st \<Rightarrow> if t = TRBrack then put_value (JArr vs) st else Fail
   | FObj kvs # st \<Rightarrow> if t = TRBrace then put_value (JObj kvs) st else Fail
   | _ \<Rightarrow> Fail)"

definition open_value :: "token \<Rightarrow> frame list \<Rightarrow> advance" where
  "open_value t stack = (case t of
     TVal v \<Rightarrow> put_value v stack
   | TLBrack \<Rightarrow> if int (length stack) \<ge> maxNestingDepth then Fail else Go XValueOrClose (FArr [] # stack)
   | TLBrace \<Rightarrow> if int (length stack) \<ge> maxNestingDepth then Fail else Go XKeyOrClose (FObj [] # stack)
   | _ \<Rightarrow> Fail)"

definition key_value :: "token \<Rightarrow> frame list \<Rightarrow> advance" where
  "key_value t stack = (case (t, stack) of
     (TVal (JStr k), FObj kvs # st) \<Rightarrow> Go XColon (FKey kvs k # st)
   | _ \<Rightarrow> Fail)"

definition json_step :: "token \<Rightarrow> expect \<Rightarrow> frame list \<Rightarrow> advance" where
  "json_step t x stack = (case x of
     XValue \<Rightarrow> open_value t stack
   | XValueOrClose \<Rightarrow> if t = TRBrack then close_frame stack t else open_value t stack
   | XKey \<Rightarrow> key_value t stack
   | XKeyOrClose \<Rightarrow> if t = TRBrace then close_frame stack t else key_value t stack
   | XColon \<Rightarrow> if t = TColon then Go XValue stack else Fail
   | XCommaOrClose \<Rightarrow>
       if t = TComma then (case stack of FArr _ # _ \<Rightarrow> Go XValue stack | _ \<Rightarrow> Go XKey stack)
       else close_frame stack t)"

text \<open>The value at the start of the input and what follows it; or the input ends within it.\<close>

datatype value_read = VEnd | VBad | VOk json string

function read_value :: "string \<Rightarrow> expect \<Rightarrow> frame list \<Rightarrow> value_read" where
  "read_value s x stack = (case lex s of
     LEnd \<Rightarrow> VEnd
   | LBad \<Rightarrow> VBad
   | LTok t rest \<Rightarrow> (case json_step t x stack of
       Fail \<Rightarrow> VBad
     | Done v \<Rightarrow> VOk v rest
     | Go x' stack' \<Rightarrow> read_value rest x' stack'))"
  by pat_completeness auto
termination
  by (relation "measure (\<lambda>(s, _, _). length s)") (auto dest: lex_rest)

declare read_value.simps [simp del]

lemma read_value_rest: "read_value s x stack = VOk v rest \<Longrightarrow> length rest < length s"
proof (induction s x stack rule: read_value.induct)
  case (1 s x stack)
  show ?case
    using "1.prems" lex_rest [of s] "1.IH"
    by (subst (asm) read_value.simps) (fastforce split: lexed.splits advance.splits)
qed

section \<open>The decoder\<close>

definition EOF :: error where "EOF = LibErr ''EOF'' []"
definition ErrUnexpectedEOF :: error where "ErrUnexpectedEOF = LibErr ''unexpected EOF'' []"
definition SyntaxError :: "string \<Rightarrow> error" where "SyntaxError msg = LibErr ''SyntaxError'' [msg]"
definition TypeError :: "string \<Rightarrow> error" where "TypeError typ = LibErr ''UnmarshalTypeError'' [typ]"

text \<open>What a reader that ran out reports: its read error, or one of the two end-of-file errors.\<close>

definition end_error :: "reader \<Rightarrow> error" where
  "end_error r = (case fault r of Some e \<Rightarrow> e
     | None \<Rightarrow> if skip_space (content r) = [] then EOF else ErrUnexpectedEOF)"

text \<open>A number at the very end is complete only at a regular end of file.\<close>

definition at_fault :: "json \<Rightarrow> string \<Rightarrow> reader \<Rightarrow> bool" where
  "at_fault v rest r \<longleftrightarrow> rest = [] \<and> fault r \<noteq> None \<and> (case v of JNum _ \<Rightarrow> True | _ \<Rightarrow> False)"

definition readValue :: "reader \<Rightarrow> error + json \<times> reader" where
  "readValue r = (case read_value (content r) XValue [] of
     VEnd \<Rightarrow> Inl (end_error r)
   | VBad \<Rightarrow> Inl (SyntaxError ''invalid character'')
   | VOk v rest \<Rightarrow> if at_fault v rest r then Inl (end_error r) else Inr (v, Reader rest (fault r)))"

definition json_Unmarshal :: "string \<Rightarrow> error + json" where
  "json_Unmarshal s = (case read_value s XValue [] of
     VEnd \<Rightarrow> Inl (SyntaxError ''unexpected end of JSON input'')
   | VBad \<Rightarrow> Inl (SyntaxError ''invalid character'')
   | VOk v rest \<Rightarrow>
       if skip_space rest = [] then Inr v else Inl (SyntaxError ''invalid character after top-level value''))"

subsection \<open>Streaming\<close>

text \<open>The token state of the decoder, as far as one \<open>Token\<close> and later \<open>Decode\<close>s reach.\<close>

datatype token_state = TopValue | ArrayStart | ArrayComma | ObjectStart

record decoder =
  tokenState :: token_state
  buf :: reader

definition json_Token :: "reader \<Rightarrow> error + decoder" where
  "json_Token r = (case skip_space (content r) of
     [] \<Rightarrow> Inl (end_error r)
   | c # cs \<Rightarrow>
       if c = CHR ''['' then Inr \<lparr>tokenState = ArrayStart, buf = Reader cs (fault r)\<rparr>
       else if c = CHR ''{'' then Inr \<lparr>tokenState = ObjectStart, buf = Reader cs (fault r)\<rparr>
       else if c \<in> {CHR '']'', CHR ''}'', CHR '','', CHR '':''} then Inl (SyntaxError ''invalid token'')
       else (case readValue r of Inl e \<Rightarrow> Inl e | Inr (v, r') \<Rightarrow> Inr \<lparr>tokenState = TopValue, buf = r'\<rparr>))"

definition json_More :: "decoder \<Rightarrow> bool" where
  "json_More d \<longleftrightarrow> (case skip_space (content (buf d)) of
     [] \<Rightarrow> False
   | c # _ \<Rightarrow> c \<noteq> CHR '']'' \<and> c \<noteq> CHR ''}'')"

text \<open>\<open>tokenPrepareForDecode\<close> and \<open>tokenValueAllowed\<close>: the comma before a later element.\<close>

definition prepare_decode :: "decoder \<Rightarrow> error + reader" where
  "prepare_decode d = (case tokenState d of
     ArrayComma \<Rightarrow> (case skip_space (content (buf d)) of
         [] \<Rightarrow> Inl (end_error (buf d))
       | c # cs \<Rightarrow> if c = CHR '','' then Inr (Reader cs (fault (buf d)))
           else Inl (SyntaxError ''expected comma after array element''))
   | ObjectStart \<Rightarrow> Inl (SyntaxError ''not at beginning of value'')
   | _ \<Rightarrow> Inr (buf d))"

definition json_Decode :: "decoder \<Rightarrow> error + json \<times> decoder" where
  "json_Decode d = (case prepare_decode d of
     Inl e \<Rightarrow> Inl e
   | Inr r \<Rightarrow> (case readValue r of
         Inl e \<Rightarrow> Inl e
       | Inr (v, r') \<Rightarrow> Inr (v, \<lparr>tokenState = (if tokenState d = TopValue then TopValue else ArrayComma), buf = r'\<rparr>)))"

lemma readValue_rest: "readValue r = Inr (v, r') \<Longrightarrow> length (content r') < length (content r)"
  using read_value_rest by (auto simp: readValue_def split: value_read.splits if_splits)

lemma json_Decode_rest:
  assumes "json_Decode d = Inr (v, d')"
  shows "length (content (buf d')) < length (content (buf d))"
proof -
  obtain r r' where p: "prepare_decode d = Inr r" and r: "readValue r = Inr (v, r')" and d': "buf d' = r'"
    using assms by (auto simp: json_Decode_def split: sum.splits prod.splits)
  have "length (skip_space s) \<le> length s" for s by (simp add: skip_space_def length_dropWhile_le)
  then have "length (content r) \<le> length (content (buf d))"
    using p unfolding prepare_decode_def
    by (auto split: token_state.splits list.splits if_splits) (metis Suc_leD length_Cons)
  then show ?thesis using readValue_rest [OF r] d' by simp
qed

section \<open>Decoding into structs\<close>

text \<open>
  A struct decoder is the list of its fields: the JSON name and how a value updates the
  struct. Names match exactly, else under case folding (U+017F and U+212A fold to s and k).
  Unknown keys are ignored, \<open>null\<close> changes nothing, and the first type mismatch is the error.
\<close>

type_synonym 'r field_decoder = "json \<Rightarrow> 'r \<Rightarrow> error + 'r"
type_synonym 'r fields = "(string \<times> 'r field_decoder) list"

fun fold_key :: "string \<Rightarrow> string" where
  "fold_key [] = []"
| "fold_key (c # cs) =
     (if c = CHR 0xc5 \<and> take 1 cs = [CHR 0xbf] then CHR ''s'' # fold_key (drop 1 cs)
      else if c = CHR 0xe2 \<and> take 2 cs = [CHR 0x84, CHR 0xaa] then CHR ''k'' # fold_key (drop 2 cs)
      else lower_char c # fold_key cs)"

definition find_field :: "'r fields \<Rightarrow> string \<Rightarrow> 'r field_decoder option" where
  "find_field fs k = (case map_of fs k of
     Some d \<Rightarrow> Some d
   | None \<Rightarrow> map_option snd (find (\<lambda>(n, d). fold_key n = fold_key k) fs))"

fun decode_members :: "'r fields \<Rightarrow> (string \<times> json) list \<Rightarrow> 'r \<Rightarrow> error + 'r" where
  "decode_members fs [] r = Inr r"
| "decode_members fs ((k, v) # kvs) r = (case find_field fs k of
     None \<Rightarrow> decode_members fs kvs r
   | Some d \<Rightarrow> (case d v r of Inl e \<Rightarrow> Inl e | Inr r' \<Rightarrow> decode_members fs kvs r'))"

definition decode_struct :: "string \<Rightarrow> 'r fields \<Rightarrow> 'r field_decoder" where
  "decode_struct typ fs v r = (case v of
     JObj kvs \<Rightarrow> decode_members fs kvs r
   | JNull \<Rightarrow> Inr r
   | _ \<Rightarrow> Inl (TypeError typ))"

definition dec_string :: "(string \<Rightarrow> 'r \<Rightarrow> 'r) \<Rightarrow> 'r field_decoder" where
  "dec_string upd v r = (case v of JStr s \<Rightarrow> Inr (upd s r) | JNull \<Rightarrow> Inr r | _ \<Rightarrow> Inl (TypeError ''string''))"

definition ParseInt64 :: "string \<Rightarrow> int option" where
  "ParseInt64 s =
     (let neg = (s \<noteq> [] \<and> hd s = CHR ''-''); ds = (if neg then tl s else s);
          n = (if neg then - decimal_acc 0 ds else decimal_acc 0 ds)
      in if ds = [] \<or> \<not> list_all is_digit ds \<or> n < - (2 ^ 63) \<or> 2 ^ 63 \<le> n then None else Some n)"

definition dec_int :: "(int \<Rightarrow> 'r \<Rightarrow> 'r) \<Rightarrow> 'r field_decoder" where
  "dec_int upd v r = (case v of
     JNum lit \<Rightarrow> (case ParseInt64 lit of Some n \<Rightarrow> Inr (upd n r) | None \<Rightarrow> Inl (TypeError ''int''))
   | JNull \<Rightarrow> Inr r
   | _ \<Rightarrow> Inl (TypeError ''int''))"

fun decode_list :: "(json \<Rightarrow> error + 'a) \<Rightarrow> json list \<Rightarrow> error + 'a list" where
  "decode_list d [] = Inr []"
| "decode_list d (v # vs) = (case d v of
     Inl e \<Rightarrow> Inl e
   | Inr x \<Rightarrow> (case decode_list d vs of Inl e \<Rightarrow> Inl e | Inr xs \<Rightarrow> Inr (x # xs)))"

definition dec_slice :: "(json \<Rightarrow> error + 'a) \<Rightarrow> ('a list \<Rightarrow> 'r \<Rightarrow> 'r) \<Rightarrow> 'r field_decoder" where
  "dec_slice d upd v r = (case v of
     JArr vs \<Rightarrow> (case decode_list d vs of Inl e \<Rightarrow> Inl e | Inr xs \<Rightarrow> Inr (upd xs r))
   | JNull \<Rightarrow> Inr (upd [] r)
   | _ \<Rightarrow> Inl (TypeError ''slice''))"

text \<open>\<open>json.NewDecoder(r).Decode(doc)\<close>: one value, into a zero struct; the rest is not read.\<close>

definition decode_document :: "(json \<Rightarrow> error + 'a) \<Rightarrow> reader \<Rightarrow> error + 'a" where
  "decode_document d r = (case readValue r of Inl e \<Rightarrow> Inl e | Inr (v, _) \<Rightarrow> d v)"

lemma decode_list_length: "decode_list d vs = Inr xs \<Longrightarrow> length xs = length vs"
  by (induction vs arbitrary: xs) (auto split: sum.splits)

lemma json_examples:
  "readValue (Reader (''{'' @ [CHR 0x22] @ ''a'' @ [CHR 0x22] @ '': [1, -2.5e3, null, {}] } x'') None) =
     Inr (JObj [(''a'', JArr [JNum ''1'', JNum ''-2.5e3'', JNull, JObj []])], Reader '' x'' None)"
  "readValue (Reader ''[1,2'' None) = Inl ErrUnexpectedEOF"
  "readValue (Reader ''[1,2'' (Some (LibErr ''reset'' []))) = Inl (LibErr ''reset'' [])"
  "readValue (Reader ''[1,,2]'' None) = Inl (SyntaxError ''invalid character'')"
  "unquote (''caf'' @ [CHR 0x5c] @ ''u00e9'' @ [CHR 0x5c] @ ''n'') = ''caf'' @ [CHR 0xc3, CHR 0xa9, CHR 0x0a]"
  by code_simp+

end
