(* ===== verification/Timeparse.thy ===== *)
theory Timeparse
  imports Text
begin

text \<open>
  \<open>time.Parse\<close> of the Go standard library for the layout elements that the feeds use. The
  callers drop its error, so the result is an option.
\<close>

section \<open>The calendar\<close>

definition leap :: "int \<Rightarrow> bool" where
  "leap y \<longleftrightarrow> y mod 4 = 0 \<and> (y mod 100 \<noteq> 0 \<or> y mod 400 = 0)"

definition daysIn :: "int \<Rightarrow> int \<Rightarrow> int" where
  "daysIn m y = (if m = 2 then if leap y then 29 else 28
     else if m = 4 \<or> m = 6 \<or> m = 9 \<or> m = 11 then 30 else 31)"

text \<open>Days from 1 January of year 1 to the given day.\<close>

definition days_before_year :: "int \<Rightarrow> int" where
  "days_before_year y = 365 * (y - 1) + (y - 1) div 4 - (y - 1) div 100 + (y - 1) div 400"

definition days_since_1 :: "int \<Rightarrow> int \<Rightarrow> int \<Rightarrow> int" where
  "days_since_1 y m d =
     days_before_year y + sum_list (map (\<lambda>k. daysIn k y) [1..m - 1]) + (d - 1)"

section \<open>Layouts\<close>

text \<open>The elements 2006, 01, 02, 15, 04, 05, .000000 and Z07:00; anything else is literal.\<close>

datatype lay = L char | LYear | LMonth | LDay | LHour | LMin | LSec | LFrac nat | LZone

record time_fields =
  fyear :: int
  fmonth :: int
  fday :: int
  fhour :: int
  fmin :: int
  fsec :: int
  fnsec :: int
  foffset :: int

definition no_fields :: time_fields where
  "no_fields = \<lparr>fyear = 0, fmonth = 1, fday = 1, fhour = 0, fmin = 0, fsec = 0, fnsec = 0, foffset = 0\<rparr>"

definition atoi :: "string \<Rightarrow> int option" where
  "atoi s = (let (neg, ds) = (case s of c # cs \<Rightarrow> if c = CHR ''-'' then (True, cs)
                 else if c = CHR ''+'' then (False, cs) else (False, s) | [] \<Rightarrow> (False, s)) in
     if ds = [] \<or> \<not> list_all is_digit ds then None
     else Some (if neg then - decimal_acc 0 ds else decimal_acc 0 ds))"

definition getnum :: "bool \<Rightarrow> string \<Rightarrow> (int \<times> string) option" where
  "getnum fixed s = (case s of
     c # d # cs \<Rightarrow>
       if \<not> is_digit c then None
       else if is_digit d then Some (digit_val c * 10 + digit_val d, cs)
       else if fixed then None else Some (digit_val c, d # cs)
   | [c] \<Rightarrow> if is_digit c \<and> \<not> fixed then Some (digit_val c, []) else None
   | [] \<Rightarrow> None)"

text \<open>A number within bounds, stored by \<open>upd\<close>.\<close>

definition ranged :: "(int \<times> string) option \<Rightarrow> int \<Rightarrow> int \<Rightarrow> (int \<times> string) option" where
  "ranged r lo hi = (case r of Some (n, s) \<Rightarrow> if lo \<le> n \<and> n \<le> hi then Some (n, s) else None | None \<Rightarrow> None)"

definition comma_or_period :: "string \<Rightarrow> bool" where
  "comma_or_period s \<longleftrightarrow> (case s of c # _ \<Rightarrow> c = CHR ''.'' \<or> c = CHR '','' | [] \<Rightarrow> False)"

definition parseNanoseconds :: "string \<Rightarrow> nat \<Rightarrow> int option" where
  "parseNanoseconds s nbytes =
     (let n = min nbytes 10 in
      if \<not> comma_or_period s then None
      else (case atoi (drop 1 (take n s)) of
          Some ns \<Rightarrow> if ns < 0 then None else Some (ns * 10 ^ (10 - n))
        | None \<Rightarrow> None))"

definition is_frac :: "lay \<Rightarrow> bool" where
  "is_frac l \<longleftrightarrow> (case l of LFrac _ \<Rightarrow> True | _ \<Rightarrow> False)"

definition next_frac :: "lay list \<Rightarrow> bool" where
  "next_frac ls \<longleftrightarrow> (case dropWhile (\<lambda>l. case l of L _ \<Rightarrow> True | _ \<Rightarrow> False) ls of
     l # _ \<Rightarrow> is_frac l | [] \<Rightarrow> False)"

definition parse_zone :: "string \<Rightarrow> (int \<times> string) option" where
  "parse_zone s = (case s of
     [] \<Rightarrow> None
   | c # cs \<Rightarrow>
       if c = CHR ''Z'' then Some (0, cs)
       else if length s < 6 \<or> s ! 3 \<noteq> CHR '':'' then None
       else (case (ranged (getnum True (take 2 cs)) 0 24, ranged (getnum True (take 2 (drop 3 cs))) 0 60) of
           (Some (hh, _), Some (mm, _)) \<Rightarrow>
             if c = CHR ''+'' then Some ((hh * 60 + mm) * 60, drop 6 s)
             else if c = CHR ''-'' then Some (- ((hh * 60 + mm) * 60), drop 6 s) else None
         | _ \<Rightarrow> None))"

fun parse_layout :: "lay list \<Rightarrow> string \<Rightarrow> time_fields \<Rightarrow> time_fields option" where
  "parse_layout [] s f = (if s = [] then Some f else None)"
| "parse_layout (L c # ls) s f =
     (if c = CHR '' '' then
        if s \<noteq> [] \<and> hd s \<noteq> CHR '' '' then None else parse_layout ls (dropWhile (\<lambda>x. x = CHR '' '') s) f
      else if s \<noteq> [] \<and> hd s = c then parse_layout ls (tl s) f else None)"
| "parse_layout (LYear # ls) s f =
     (if length s < 4 \<or> \<not> is_digit (hd s) then None
      else (case atoi (take 4 s) of Some n \<Rightarrow> parse_layout ls (drop 4 s) (f\<lparr>fyear := n\<rparr>) | None \<Rightarrow> None))"
| "parse_layout (LMonth # ls) s f = (case ranged (getnum True s) 1 12 of
     Some (n, t) \<Rightarrow> parse_layout ls t (f\<lparr>fmonth := n\<rparr>) | None \<Rightarrow> None)"
| "parse_layout (LDay # ls) s f = (case getnum True s of
     Some (n, t) \<Rightarrow> parse_layout ls t (f\<lparr>fday := n\<rparr>) | None \<Rightarrow> None)"
| "parse_layout (LHour # ls) s f = (case ranged (getnum False s) 0 23 of
     Some (n, t) \<Rightarrow> parse_layout ls t (f\<lparr>fhour := n\<rparr>) | None \<Rightarrow> None)"
| "parse_layout (LMin # ls) s f = (case ranged (getnum True s) 0 59 of
     Some (n, t) \<Rightarrow> parse_layout ls t (f\<lparr>fmin := n\<rparr>) | None \<Rightarrow> None)"
| "parse_layout (LSec # ls) s f = (case ranged (getnum True s) 0 59 of
     Some (n, t) \<Rightarrow>
       if 2 \<le> length t \<and> comma_or_period t \<and> is_digit (t ! 1) \<and> \<not> next_frac ls then
         let k = Suc (length (takeWhile is_digit (tl t))) in
         (case parseNanoseconds t k of
            Some ns \<Rightarrow> parse_layout ls (drop k t) (f\<lparr>fsec := n, fnsec := ns\<rparr>) | None \<Rightarrow> None)
       else parse_layout ls t (f\<lparr>fsec := n\<rparr>)
   | None \<Rightarrow> None)"
| "parse_layout (LFrac d # ls) s f =
     (if length s < Suc d then None
      else (case parseNanoseconds s (Suc d) of
          Some ns \<Rightarrow> parse_layout ls (drop (Suc d) s) (f\<lparr>fnsec := ns\<rparr>) | None \<Rightarrow> None))"
| "parse_layout (LZone # ls) s f = (case parse_zone s of
     Some (n, t) \<Rightarrow> parse_layout ls t (f\<lparr>foffset := n\<rparr>) | None \<Rightarrow> None)"

text \<open>The instant, in UTC; a day that the month does not have is an error.\<close>

definition time_Parse :: "lay list \<Rightarrow> string \<Rightarrow> gotime option" where
  "time_Parse layout s = (case parse_layout layout s no_fields of
     None \<Rightarrow> None
   | Some f \<Rightarrow>
       if fday f < 1 \<or> daysIn (fmonth f) (fyear f) < fday f then None
       else Some (Time (word_of_int
          (((days_since_1 (fyear f) (fmonth f) (fday f) * 24 + fhour f) * 60 + fmin f) * 60 + fsec f - foffset f))
          (nat (fnsec f))))"

definition date_layout :: "lay list" where
  "date_layout = [LYear, L CHR ''-'', LMonth, L CHR ''-'', LDay]"

definition clock_layout :: "char \<Rightarrow> lay list" where
  "clock_layout sep = [LHour, L sep, LMin, L sep, LSec]"

definition DateTime :: "lay list" where
  "DateTime = date_layout @ [L CHR '' ''] @ clock_layout (CHR '':'')"

definition RFC3339 :: "lay list" where
  "RFC3339 = date_layout @ [L CHR ''T''] @ clock_layout (CHR '':'') @ [LZone]"

lemma time_Parse_examples:
  "map_option time_Unix (time_Parse DateTime ''2024-06-10 12:00:05'') = Some 1718020805"
  "map_option time_Unix (time_Parse RFC3339 ''2024-02-29T23:59:59-01:30'') = Some 1709256599"
  "time_Parse DateTime ''2023-02-29 00:00:00'' = None"
  "time_Parse date_layout ''2024-06-10 '' = None"
  by code_simp+

end
