(* ===== verification/Rezmoss.thy ===== *)
theory Rezmoss
  imports Json Timeparse
begin

text \<open>
  \<open>attribution/rezmoss.go\<close>: the two schemas of the rezmoss mirror and their streaming
  parsers; and the contract every feed parser of the program keeps, as a locale.
\<close>

section \<open>The contract of a feed parser\<close>

text \<open>
  A parser is the iterator of a list that depends on the ref and the bytes only; each of its
  entries has a well-formed network without zone, the ref as its source and an allowed
  provider.
\<close>

locale feed_parser =
  fixes parse :: "'s ParseFunc" and items :: "string \<Rightarrow> reader \<Rightarrow> item list" and providers :: "string set"
  assumes parse_items: "parse ref r = seq_of (items ref r)"
    and entry_ok: "Inr e \<in> set (items ref r) \<Longrightarrow>
      prefix_wf (Network e) \<and> Source (Rec e) = ref \<and> Provider (Rec e) \<in> providers"
begin

lemma entry_valid: "Inr e \<in> set (items ref r) \<Longrightarrow> prefix_IsValid (Network e)"
  using entry_ok by (auto simp: prefix_wf_def)

lemma stops: "0 < k \<Longrightarrow> items ref r = xs \<Longrightarrow> snd (seq_of xs (stop_after k) []) = take k (items ref r)"
  by (simp add: seq_of_stop_after)

end

text \<open>What the parsers make of a network field: an entry with the given record, or the error.\<close>

definition network_item :: "error + prefix \<Rightarrow> Record \<Rightarrow> item" where
  "network_item x r = map_sum id (\<lambda>pre. \<lparr>Network = pre, Rec = r\<rparr>) x"

lemma seq_network_item [iter]:
  "(case x of Inl err \<Rightarrow> seq_yield (Inl err) | Inr pre \<Rightarrow> seq_yield (Inr \<lparr>Network = pre, Rec = r\<rparr>)) =
    seq_of [network_item x r]"
  by (simp add: network_item_def seq_yield_eq split: sum.split)

lemma network_item_Inr:
  "network_item x r = Inr e \<longleftrightarrow> (\<exists>pre. x = Inr pre \<and> e = \<lparr>Network = pre, Rec = r\<rparr>)"
  by (cases x) (auto simp: network_item_def)

lemma network_item_wf:
  "Inr e = network_item (ParsePrefix s) r \<Longrightarrow> prefix_wf (Network e) \<and> Rec e = r"
  using ParsePrefix_wf by (auto simp: network_item_Inr eq_commute [of "Inr e"])

section \<open>Networks and times\<close>

definition parseRezmossPrefix :: "string \<Rightarrow> error + prefix" where
  "parseRezmossPrefix s = (case ParsePrefix s of
     Inr pre \<Rightarrow> Inr pre
   | Inl err \<Rightarrow> (case ParseAddr s of
       Inl aerr \<Rightarrow> Inl err
     | Inr addr \<Rightarrow> Inr (PrefixFrom addr (int (BitLen addr)))))"

definition parseRezmossTime :: "string \<Rightarrow> gotime" where
  "parseRezmossTime s =
     (if s = [] then zeroTime
      else (case time_Parse DateTime s of Some t \<Rightarrow> t | None \<Rightarrow> zeroTime))"

text \<open>A parsed address as a host prefix.\<close>

lemma host_of_ParseAddr:
  assumes "ParseAddr s = Inr a"
  shows "prefix_wf (PrefixFrom a (int (BitLen a)))"
  using ParseAddr_wf [OF assms] PrefixFrom_wf [of a "int (BitLen a)"] by (auto simp: addr_IsValid_def)

lemma parseRezmossPrefix_wf: "parseRezmossPrefix s = Inr p \<Longrightarrow> prefix_wf p"
  using host_of_ParseAddr ParsePrefix_wf
  by (auto simp: parseRezmossPrefix_def split: sum.splits)

section \<open>The schemas\<close>

record rezmossEntry =
  reIPAddress :: string
  reIPType :: string
  reService :: string
  reRegion :: string

definition rezmoss_fields :: "rezmossEntry fields" where
  "rezmoss_fields =
     [(''ip_address'', dec_string (\<lambda>s r. r\<lparr>reIPAddress := s\<rparr>)),
      (''ip_type'', dec_string (\<lambda>s r. r\<lparr>reIPType := s\<rparr>)),
      (''service'', dec_string (\<lambda>s r. r\<lparr>reService := s\<rparr>)),
      (''region'', dec_string (\<lambda>s r. r\<lparr>reRegion := s\<rparr>))]"

record rezmossAllEntry =
  raCIDR :: string
  raIPVersion :: string
  raProvider :: string
  raService :: string
  raRegion :: string
  raLastUpdated :: string

definition rezmossAll_fields :: "rezmossAllEntry fields" where
  "rezmossAll_fields =
     [(''cidr'', dec_string (\<lambda>s r. r\<lparr>raCIDR := s\<rparr>)),
      (''ip_version'', dec_string (\<lambda>s r. r\<lparr>raIPVersion := s\<rparr>)),
      (''provider'', dec_string (\<lambda>s r. r\<lparr>raProvider := s\<rparr>)),
      (''service'', dec_string (\<lambda>s r. r\<lparr>raService := s\<rparr>)),
      (''region'', dec_string (\<lambda>s r. r\<lparr>raRegion := s\<rparr>)),
      (''last_updated'', dec_string (\<lambda>s r. r\<lparr>raLastUpdated := s\<rparr>))]"

section \<open>The streaming loop\<close>

text \<open>
  \<open>for dec.More() { ... }\<close>: a decoding error is yielded and ends the loop; the body yields
  at most one value per element and otherwise continues.
\<close>

function stream_loop :: "(json \<Rightarrow> error + 'x) \<Rightarrow> ('x \<Rightarrow> (item, 's) seq) \<Rightarrow> decoder \<Rightarrow> (item, 's) seq" where
  "stream_loop dec body d =
     (if json_More d then
        (case json_Decode d of
           Inl err \<Rightarrow> seq_yield (Inl err)
         | Inr (v, d') \<Rightarrow>
             (case dec v of
                Inl err \<Rightarrow> seq_yield (Inl err)
              | Inr re \<Rightarrow> seq_then (body re) (stream_loop dec body d')))
      else seq_nil)"
  by pat_completeness auto
termination
  by (relation "measure (\<lambda>(_, _, d). length (content (buf d)))") (auto dest: json_Decode_rest)

declare stream_loop.simps [simp del]

definition rezmoss_body :: "string \<Rightarrow> string \<Rightarrow> rezmossEntry \<Rightarrow> (item, 's) seq" where
  "rezmoss_body provider ref re = (case parseRezmossPrefix (reIPAddress re) of
     Inl err \<Rightarrow> seq_yield (Inl err)
   | Inr pre \<Rightarrow>
       (let region = (if reRegion re = ''GLOBAL'' then [] else reRegion re);
            service = (if reService re = [] then reIPType re else reService re)
        in seq_yield (Inr \<lparr>Network = pre,
             Rec = zeroRecord\<lparr>Provider := provider, Region := region, Services := [service], Source := ref\<rparr>\<rparr>)))"

definition ParseRezmoss :: "string \<Rightarrow> 's ParseFunc" where
  "ParseRezmoss provider ref r = (case json_Token r of
     Inl err \<Rightarrow> seq_yield (Inl err)
   | Inr dec \<Rightarrow> stream_loop (\<lambda>v. decode_struct ''rezmossEntry'' rezmoss_fields v \<lparr>reIPAddress = [], reIPType = [],
       reService = [], reRegion = []\<rparr>) (rezmoss_body provider ref) dec)"

definition rezmossAll_body :: "(string \<Rightarrow> bool) option \<Rightarrow> string \<Rightarrow> rezmossAllEntry \<Rightarrow> (item, 's) seq" where
  "rezmossAll_body flt ref re =
     (if (case flt of None \<Rightarrow> False | Some f \<Rightarrow> \<not> f (raProvider re)) then seq_nil
      else (case parseRezmossPrefix (raCIDR re) of
          Inl err \<Rightarrow> seq_yield (Inl err)
        | Inr pre \<Rightarrow>
            (let region = (if raRegion re = ''GLOBAL'' then [] else raRegion re);
                 services = (if raService re \<noteq> [] then [raService re] else [])
             in seq_yield (Inr \<lparr>Network = pre,
                  Rec = zeroRecord\<lparr>Provider := raProvider re, Region := region, Services := services,
                    Source := ref, SyncedAt := parseRezmossTime (raLastUpdated re)\<rparr>\<rparr>))))"

text \<open>An empty filter (\<open>None\<close>) lets everything pass.\<close>

definition ParseRezmossAll :: "(string \<Rightarrow> bool) option \<Rightarrow> 's ParseFunc" where
  "ParseRezmossAll flt ref r = (case json_Token r of
     Inl err \<Rightarrow> seq_yield (Inl err)
   | Inr dec \<Rightarrow> stream_loop (\<lambda>v. decode_struct ''rezmossAllEntry'' rezmossAll_fields v \<lparr>raCIDR = [], raIPVersion = [],
       raProvider = [], raService = [], raRegion = [], raLastUpdated = []\<rparr>) (rezmossAll_body flt ref) dec)"

definition RezmossRefs :: "'s Plugin \<Rightarrow> string list" where
  "RezmossRefs p = (case PluginRezmossRefs p of
     Some refs \<Rightarrow> refs
   | None \<Rightarrow> (let n = Name p in [n @ ''/'' @ n @ ''_ips.json'']))"

definition RezmossAllRef :: string where
  "RezmossAllRef = ''all_providers/all_providers.json''"

section \<open>The lists behind the iterators\<close>

function stream_items :: "(json \<Rightarrow> error + 'x) \<Rightarrow> ('x \<Rightarrow> item list) \<Rightarrow> decoder \<Rightarrow> item list" where
  "stream_items dec body d =
     (if json_More d then
        (case json_Decode d of
           Inl err \<Rightarrow> [Inl err]
         | Inr (v, d') \<Rightarrow> (case dec v of Inl err \<Rightarrow> [Inl err] | Inr re \<Rightarrow> body re @ stream_items dec body d'))
      else [])"
  by pat_completeness auto
termination
  by (relation "measure (\<lambda>(_, _, d). length (content (buf d)))") (auto dest: json_Decode_rest)

declare stream_items.simps [simp del]

lemma stream_loop_items [iter]:
  "stream_loop dec (\<lambda>x. seq_of (body x)) d = seq_of (stream_items dec body d)"
proof (induction dec body d rule: stream_items.induct)
  case (1 dec body d)
  then show ?case
    by (subst stream_loop.simps, subst stream_items.simps) (simp add: iter split: sum.split prod.split)
qed

text \<open>Everything the loop yields is an error or comes from the body.\<close>

lemma stream_items_entries:
  "Inr e \<in> set (stream_items dec body d) \<Longrightarrow> \<exists>re. Inr e \<in> set (body re)"
proof (induction dec body d rule: stream_items.induct)
  case (1 dec body d)
  obtain v d' re where step: "json_More d" "json_Decode d = Inr (v, d')" "dec v = Inr re"
    and e: "Inr e \<in> set (body re) \<or> Inr e \<in> set (stream_items dec body d')"
  proof (cases "json_More d")
    case True
    show thesis
    proof (cases "json_Decode d")
      case (Inr vd)
      then show thesis
        using True "1.prems" that by (cases vd; cases "dec (fst vd)") (auto simp: stream_items.simps [of dec body d])
    qed (use True "1.prems" in \<open>auto simp: stream_items.simps [of dec body d]\<close>)
  qed (use "1.prems" in \<open>auto simp: stream_items.simps [of dec body d]\<close>)
  then show ?case using "1.IH" [OF step(1,2) _ step(3)] by blast
qed

definition rezmoss_item :: "string \<Rightarrow> string \<Rightarrow> rezmossEntry \<Rightarrow> item" where
  "rezmoss_item provider ref re = network_item (parseRezmossPrefix (reIPAddress re))
     (zeroRecord\<lparr>Provider := provider, Region := (if reRegion re = ''GLOBAL'' then [] else reRegion re),
       Services := [if reService re = [] then reIPType re else reService re], Source := ref\<rparr>)"

lemma rezmoss_body_item: "rezmoss_body provider ref re = seq_of [rezmoss_item provider ref re]"
  unfolding rezmoss_body_def rezmoss_item_def Let_def by (rule seq_network_item)

definition rezmossAll_items :: "(string \<Rightarrow> bool) option \<Rightarrow> string \<Rightarrow> rezmossAllEntry \<Rightarrow> item list" where
  "rezmossAll_items flt ref re =
     (if (case flt of None \<Rightarrow> False | Some f \<Rightarrow> \<not> f (raProvider re)) then []
      else [network_item (parseRezmossPrefix (raCIDR re))
        (zeroRecord\<lparr>Provider := raProvider re, Region := (if raRegion re = ''GLOBAL'' then [] else raRegion re),
          Services := (if raService re \<noteq> [] then [raService re] else []), Source := ref,
          SyncedAt := parseRezmossTime (raLastUpdated re)\<rparr>)])"

lemma rezmossAll_body_items: "rezmossAll_body flt ref re = seq_of (rezmossAll_items flt ref re)"
  unfolding rezmossAll_body_def rezmossAll_items_def Let_def seq_network_item seq_nil_eq
  by (simp only: if_distrib [of seq_of])

definition ParseRezmoss_items :: "string \<Rightarrow> string \<Rightarrow> reader \<Rightarrow> item list" where
  "ParseRezmoss_items provider ref r = (case json_Token r of
     Inl err \<Rightarrow> [Inl err]
   | Inr dec \<Rightarrow> stream_items (\<lambda>v. decode_struct ''rezmossEntry'' rezmoss_fields v \<lparr>reIPAddress = [], reIPType = [],
       reService = [], reRegion = []\<rparr>) (\<lambda>re. [rezmoss_item provider ref re]) dec)"

definition ParseRezmossAll_items :: "(string \<Rightarrow> bool) option \<Rightarrow> string \<Rightarrow> reader \<Rightarrow> item list" where
  "ParseRezmossAll_items flt ref r = (case json_Token r of
     Inl err \<Rightarrow> [Inl err]
   | Inr dec \<Rightarrow> stream_items (\<lambda>v. decode_struct ''rezmossAllEntry'' rezmossAll_fields v \<lparr>raCIDR = [], raIPVersion = [],
       raProvider = [], raService = [], raRegion = [], raLastUpdated = []\<rparr>) (rezmossAll_items flt ref) dec)"

interpretation rezmoss_feed: feed_parser "ParseRezmoss provider" "ParseRezmoss_items provider" "{provider}"
  for provider
proof unfold_locales
  show "ParseRezmoss provider ref r = seq_of (ParseRezmoss_items provider ref r)" for ref r
    unfolding ParseRezmoss_def ParseRezmoss_items_def rezmoss_body_item stream_loop_items
    by (simp add: iter split: sum.split)
  show "prefix_wf (Network e) \<and> Source (Rec e) = ref \<and> Provider (Rec e) \<in> {provider}"
    if "Inr e \<in> set (ParseRezmoss_items provider ref r)" for e ref r
  proof -
    have "\<exists>re. Inr e = rezmoss_item provider ref re"
      using that by (auto simp: ParseRezmoss_items_def split: sum.splits dest!: stream_items_entries)
    then obtain re where "Inr e = rezmoss_item provider ref re" by blast
    then have "rezmoss_item provider ref re = Inr e" by simp
    then show ?thesis by (auto simp: rezmoss_item_def network_item_Inr dest: parseRezmossPrefix_wf)
  qed
qed

text \<open>Of the unified file, only records whose provider passes the filter are emitted.\<close>

interpretation rezmossAll_feed: feed_parser "ParseRezmossAll flt" "ParseRezmossAll_items flt"
    "{p. case flt of None \<Rightarrow> True | Some f \<Rightarrow> f p}"
  for flt
proof unfold_locales
  show "ParseRezmossAll flt ref r = seq_of (ParseRezmossAll_items flt ref r)" for ref r
    unfolding ParseRezmossAll_def ParseRezmossAll_items_def rezmossAll_body_items stream_loop_items
    by (simp add: iter split: sum.split)
  show "prefix_wf (Network e) \<and> Source (Rec e) = ref \<and> Provider (Rec e) \<in> {p. case flt of None \<Rightarrow> True | Some f \<Rightarrow> f p}"
    if "Inr e \<in> set (ParseRezmossAll_items flt ref r)" for e ref r
  proof -
    have "\<exists>re. Inr e \<in> set (rezmossAll_items flt ref re)"
      using that by (auto simp: ParseRezmossAll_items_def split: sum.splits dest!: stream_items_entries)
    then obtain re where "Inr e \<in> set (rezmossAll_items flt ref re)" by blast
    then show ?thesis
      by (auto simp: rezmossAll_items_def eq_commute [of "Inr e"] network_item_Inr dest: parseRezmossPrefix_wf
          split: if_splits option.splits)
  qed
qed

section \<open>A truncated mirror file\<close>

text \<open>
  \<open>More\<close> answers no when reading fails: an array whose download breaks off right after an
  element, before its closing bracket, is taken for a complete one.
\<close>

definition one_element :: string where
  "one_element = ''[{'' @ [CHR 0x22] @ ''ip_address'' @ [CHR 0x22] @ '':'' @ [CHR 0x22] @ ''10.0.0.0/8'' @ [CHR 0x22] @
     ''}''"

lemma ParseRezmoss_truncated:
  "ParseRezmoss p ref (Reader one_element (Some err)) = ParseRezmoss p ref (Reader (one_element @ '']'') None) \<and>
   (\<exists>e. ParseRezmoss_items p ref (Reader one_element (Some err)) = [Inr e] \<and>
     ParseRezmoss_items p ref (Reader (one_element @ '']'') None) = [Inr e])"
proof -
  let ?v = "JObj [(''ip_address'', JStr ''10.0.0.0/8'')]"
  have tok: "json_Token (Reader one_element (Some err)) =
      Inr \<lparr>tokenState = ArrayStart, buf = Reader (tl one_element) (Some err)\<rparr>"
    "json_Token (Reader (one_element @ '']'') None) =
      Inr \<lparr>tokenState = ArrayStart, buf = Reader (tl one_element @ '']'') None\<rparr>" by code_simp+
  have dec: "json_Decode \<lparr>tokenState = ArrayStart, buf = Reader (tl one_element) (Some err)\<rparr> =
      Inr (?v, \<lparr>tokenState = ArrayComma, buf = Reader [] (Some err)\<rparr>)"
    "json_Decode \<lparr>tokenState = ArrayStart, buf = Reader (tl one_element @ '']'') None\<rparr> =
      Inr (?v, \<lparr>tokenState = ArrayComma, buf = Reader '']'' None\<rparr>)" by code_simp+
  have more: "json_More \<lparr>tokenState = ArrayStart, buf = Reader (tl one_element) (Some err)\<rparr>"
    "json_More \<lparr>tokenState = ArrayStart, buf = Reader (tl one_element @ '']'') None\<rparr>"
    "\<not> json_More \<lparr>tokenState = ArrayComma, buf = Reader [] (Some err)\<rparr>"
    "\<not> json_More \<lparr>tokenState = ArrayComma, buf = Reader '']'' None\<rparr>" by code_simp+
  let ?re = "\<lparr>reIPAddress = ''10.0.0.0/8'', reIPType = [], reService = [], reRegion = []\<rparr>"
  have v: "decode_struct ''rezmossEntry'' rezmoss_fields ?v
      \<lparr>reIPAddress = [], reIPType = [], reService = [], reRegion = []\<rparr> = Inr ?re" by code_simp
  have items: "ParseRezmoss_items p ref (Reader one_element (Some err)) = [rezmoss_item p ref ?re]"
    "ParseRezmoss_items p ref (Reader (one_element @ '']'') None) = [rezmoss_item p ref ?re]"
    unfolding ParseRezmoss_items_def tok
    by (simp_all add: stream_items.simps [of _ _ "\<lparr>tokenState = ArrayStart, buf = b\<rparr>" for b] more dec v
        stream_items.simps [of _ _ "\<lparr>tokenState = ArrayComma, buf = b\<rparr>" for b])
  have "parseRezmossPrefix ''10.0.0.0/8'' = Inr (Prefix (Addr 0xffff0a000000 Z4) 9)" by code_simp
  then show ?thesis
    unfolding rezmoss_feed.parse_items items by (simp add: rezmoss_item_def network_item_def)
qed

end
