(* ===== verification/Cloud_Feeds.thy ===== *)
theory Cloud_Feeds
  imports Rezmoss
begin

text \<open>
  The native parsers of the cloud providers: \<open>plugins/aws\<close>, \<open>plugins/azure\<close>, \<open>plugins/gcp\<close>. Each
  decodes one JSON document and yields an entry, or an error, per prefix.
\<close>

section \<open>AWS\<close>

record awsPrefix =
  awsIPPrefix :: string
  awsRegion :: string
  awsService :: string
  awsNetworkBorderGroup :: string

record ipRanges =
  SyncToken :: string
  CreateDate :: string
  Prefixes :: "awsPrefix list"
  IPv6Prefixes :: "awsPrefix list"

definition aws_prefix_fields :: "string \<Rightarrow> awsPrefix fields" where
  "aws_prefix_fields key =
     [(key, dec_string (\<lambda>s r. r\<lparr>awsIPPrefix := s\<rparr>)),
      (''region'', dec_string (\<lambda>s r. r\<lparr>awsRegion := s\<rparr>)),
      (''service'', dec_string (\<lambda>s r. r\<lparr>awsService := s\<rparr>)),
      (''network_border_group'', dec_string (\<lambda>s r. r\<lparr>awsNetworkBorderGroup := s\<rparr>))]"

definition aws_prefix_list :: "string \<Rightarrow> (awsPrefix list \<Rightarrow> ipRanges \<Rightarrow> ipRanges) \<Rightarrow> ipRanges field_decoder" where
  "aws_prefix_list key = dec_slice (\<lambda>v. decode_struct ''struct'' (aws_prefix_fields key) v
     \<lparr>awsIPPrefix = [], awsRegion = [], awsService = [], awsNetworkBorderGroup = []\<rparr>)"

definition ipRanges_fields :: "ipRanges fields" where
  "ipRanges_fields =
     [(''syncToken'', dec_string (\<lambda>s r. r\<lparr>SyncToken := s\<rparr>)),
      (''createDate'', dec_string (\<lambda>s r. r\<lparr>CreateDate := s\<rparr>)),
      (''prefixes'', aws_prefix_list ''ip_prefix'' (\<lambda>ps r. r\<lparr>Prefixes := ps\<rparr>)),
      (''ipv6_prefixes'', aws_prefix_list ''ipv6_prefix'' (\<lambda>ps r. r\<lparr>IPv6Prefixes := ps\<rparr>))]"

definition decode_ipRanges :: "reader \<Rightarrow> error + ipRanges" where
  "decode_ipRanges = decode_document (\<lambda>v. decode_struct ''ipRanges'' ipRanges_fields v
     \<lparr>SyncToken = [], CreateDate = [], Prefixes = [], IPv6Prefixes = []\<rparr>)"

definition parseAWSDate :: "string \<Rightarrow> gotime" where
  "parseAWSDate s =
     (if s = [] then zeroTime
      else (case time_Parse (date_layout @ [L CHR ''-''] @ clock_layout (CHR ''-'')) s of
          None \<Rightarrow> zeroTime | Some t \<Rightarrow> t))"

definition aws_emit :: "string \<Rightarrow> gotime \<Rightarrow> awsPrefix \<Rightarrow> (item, 's) seq" where
  "aws_emit ref syncedAt p = (case ParsePrefix (awsIPPrefix p) of
     Inl err \<Rightarrow> seq_yield (Inl err)
   | Inr pre \<Rightarrow>
       (let ext = (if awsNetworkBorderGroup p \<noteq> [] then [''network_border_group'' \<mapsto> awsNetworkBorderGroup p] else Map.empty)
        in seq_yield (Inr \<lparr>Network = pre,
             Rec = zeroRecord\<lparr>Provider := ''aws'', Region := awsRegion p, Services := [awsService p],
               Source := ref, SyncedAt := syncedAt, Ext := ext\<rparr>\<rparr>)))"

definition aws_Parse :: "'s ParseFunc" where
  "aws_Parse ref r = (case decode_ipRanges r of
     Inl err \<Rightarrow> seq_yield (Inl err)
   | Inr doc \<Rightarrow>
       (let syncedAt = parseAWSDate (CreateDate doc)
        in seq_then (seq_for (Prefixes doc) (aws_emit ref syncedAt))
             (seq_for (IPv6Prefixes doc) (aws_emit ref syncedAt))))"

section \<open>Azure\<close>

record tagProperties =
  tagRegion :: string
  tagPlatform :: string
  tagSystemService :: string
  tagAddressPrefixes :: "string list"

record azureTag =
  tagName :: string
  tagProps :: tagProperties

record serviceTags =
  ChangeNumber :: int
  Cloud :: string
  Values :: "azureTag list"

definition noProperties :: tagProperties where
  "noProperties = \<lparr>tagRegion = [], tagPlatform = [], tagSystemService = [], tagAddressPrefixes = []\<rparr>"

definition properties_fields :: "tagProperties fields" where
  "properties_fields =
     [(''region'', dec_string (\<lambda>s r. r\<lparr>tagRegion := s\<rparr>)),
      (''platform'', dec_string (\<lambda>s r. r\<lparr>tagPlatform := s\<rparr>)),
      (''systemService'', dec_string (\<lambda>s r. r\<lparr>tagSystemService := s\<rparr>)),
      (''addressPrefixes'', dec_slice (\<lambda>v. dec_string (\<lambda>s _. s) v []) (\<lambda>ps r. r\<lparr>tagAddressPrefixes := ps\<rparr>))]"

definition tag_fields :: "azureTag fields" where
  "tag_fields =
     [(''name'', dec_string (\<lambda>s r. r\<lparr>tagName := s\<rparr>)),
      (''properties'', (\<lambda>v r. map_sum id (\<lambda>p. r\<lparr>tagProps := p\<rparr>) (decode_struct ''struct'' properties_fields v (tagProps r))))]"

definition serviceTags_fields :: "serviceTags fields" where
  "serviceTags_fields =
     [(''changeNumber'', dec_int (\<lambda>n r. r\<lparr>ChangeNumber := n\<rparr>)),
      (''cloud'', dec_string (\<lambda>s r. r\<lparr>Cloud := s\<rparr>)),
      (''values'', dec_slice (\<lambda>v. decode_struct ''struct'' tag_fields v \<lparr>tagName = [], tagProps = noProperties\<rparr>)
         (\<lambda>vs r. r\<lparr>Values := vs\<rparr>))]"

definition decode_serviceTags :: "reader \<Rightarrow> error + serviceTags" where
  "decode_serviceTags = decode_document (\<lambda>v. decode_struct ''serviceTags'' serviceTags_fields v
     \<lparr>ChangeNumber = 0, Cloud = [], Values = []\<rparr>)"

definition azure_tag :: "string \<Rightarrow> azureTag \<Rightarrow> (item, 's) seq" where
  "azure_tag ref t =
     (let props = tagProps t;
          service = (if tagSystemService props = [] then tagName t else tagSystemService props);
          ext = Map.empty;
          ext = (if tagSystemService props \<noteq> [] then ext(''system_service'' \<mapsto> tagSystemService props) else ext);
          ext = (if tagPlatform props \<noteq> [] then ext(''platform'' \<mapsto> tagPlatform props) else ext)
      in seq_for (tagAddressPrefixes props) (\<lambda>cidr. case ParsePrefix cidr of
           Inl err \<Rightarrow> seq_yield (Inl err)
         | Inr pre \<Rightarrow> seq_yield (Inr \<lparr>Network = pre,
             Rec = zeroRecord\<lparr>Provider := ''azure'', Region := tagRegion props, Services := [service],
               Source := ref, Ext := ext\<rparr>\<rparr>)))"

definition azure_Parse :: "'s ParseFunc" where
  "azure_Parse ref r = (case decode_serviceTags r of
     Inl err \<Rightarrow> seq_yield (Inl err)
   | Inr doc \<Rightarrow> seq_for (Values doc) (azure_tag ref))"

section \<open>Google Cloud\<close>

record gcpPrefix =
  gcpIPv4Prefix :: string
  gcpIPv6Prefix :: string
  gcpService :: string
  gcpScope :: string

record cloudJSON =
  gcpSyncToken :: string
  CreationTime :: string
  gcpPrefixes :: "gcpPrefix list"

definition gcp_prefix_fields :: "gcpPrefix fields" where
  "gcp_prefix_fields =
     [(''ipv4Prefix'', dec_string (\<lambda>s r. r\<lparr>gcpIPv4Prefix := s\<rparr>)),
      (''ipv6Prefix'', dec_string (\<lambda>s r. r\<lparr>gcpIPv6Prefix := s\<rparr>)),
      (''service'', dec_string (\<lambda>s r. r\<lparr>gcpService := s\<rparr>)),
      (''scope'', dec_string (\<lambda>s r. r\<lparr>gcpScope := s\<rparr>))]"

definition cloudJSON_fields :: "cloudJSON fields" where
  "cloudJSON_fields =
     [(''syncToken'', dec_string (\<lambda>s r. r\<lparr>gcpSyncToken := s\<rparr>)),
      (''creationTime'', dec_string (\<lambda>s r. r\<lparr>CreationTime := s\<rparr>)),
      (''prefixes'', dec_slice (\<lambda>v. decode_struct ''struct'' gcp_prefix_fields v
         \<lparr>gcpIPv4Prefix = [], gcpIPv6Prefix = [], gcpService = [], gcpScope = []\<rparr>) (\<lambda>ps r. r\<lparr>gcpPrefixes := ps\<rparr>))]"

definition decode_cloudJSON :: "reader \<Rightarrow> error + cloudJSON" where
  "decode_cloudJSON = decode_document (\<lambda>v. decode_struct ''cloudJSON'' cloudJSON_fields v
     \<lparr>gcpSyncToken = [], CreationTime = [], gcpPrefixes = []\<rparr>)"

fun first_layout :: "lay list list \<Rightarrow> string \<Rightarrow> gotime option" where
  "first_layout [] s = None"
| "first_layout (layout # ls) s = (case time_Parse layout s of Some t \<Rightarrow> Some t | None \<Rightarrow> first_layout ls s)"

definition parseGCPTime :: "string \<Rightarrow> gotime" where
  "parseGCPTime s =
     (if s = [] then zeroTime
      else (case first_layout [RFC3339, date_layout @ [L CHR ''T''] @ clock_layout (CHR '':'') @ [LFrac 6]] s of
          Some t \<Rightarrow> t | None \<Rightarrow> zeroTime))"

definition gcp_prefix :: "string \<Rightarrow> gotime \<Rightarrow> gcpPrefix \<Rightarrow> (item, 's) seq" where
  "gcp_prefix ref syncedAt p =
     (let cidr = (if gcpIPv4Prefix p = [] then gcpIPv6Prefix p else gcpIPv4Prefix p) in
      if cidr = [] then seq_nil
      else (case ParsePrefix cidr of
          Inl err \<Rightarrow> seq_yield (Inl err)
        | Inr pre \<Rightarrow>
            (let service = (if gcpService p = [] then ''Google Cloud'' else gcpService p);
                 region = (if EqualFold (gcpScope p) ''global'' then [] else gcpScope p)
             in seq_yield (Inr \<lparr>Network = pre,
                  Rec = zeroRecord\<lparr>Provider := ''gcp'', Region := region, Services := [service],
                    Source := ref, SyncedAt := syncedAt\<rparr>\<rparr>))))"

definition gcp_Parse :: "'s ParseFunc" where
  "gcp_Parse ref r = (case decode_cloudJSON r of
     Inl err \<Rightarrow> seq_yield (Inl err)
   | Inr doc \<Rightarrow> (let syncedAt = parseGCPTime (CreationTime doc) in seq_for (gcpPrefixes doc) (gcp_prefix ref syncedAt)))"

section \<open>The lists behind the iterators\<close>

definition aws_item :: "string \<Rightarrow> gotime \<Rightarrow> awsPrefix \<Rightarrow> item" where
  "aws_item ref syncedAt p = network_item (ParsePrefix (awsIPPrefix p))
     (zeroRecord\<lparr>Provider := ''aws'', Region := awsRegion p, Services := [awsService p], Source := ref,
       SyncedAt := syncedAt, Ext := (if awsNetworkBorderGroup p \<noteq> []
         then [''network_border_group'' \<mapsto> awsNetworkBorderGroup p] else Map.empty)\<rparr>)"

definition aws_items :: "string \<Rightarrow> reader \<Rightarrow> item list" where
  "aws_items ref r = (case decode_ipRanges r of
     Inl err \<Rightarrow> [Inl err]
   | Inr doc \<Rightarrow> map (aws_item ref (parseAWSDate (CreateDate doc))) (Prefixes doc @ IPv6Prefixes doc))"

definition azure_tag_items :: "string \<Rightarrow> azureTag \<Rightarrow> item list" where
  "azure_tag_items ref t = map (\<lambda>cidr. network_item (ParsePrefix cidr)
     (zeroRecord\<lparr>Provider := ''azure'', Region := tagRegion (tagProps t),
       Services := [if tagSystemService (tagProps t) = [] then tagName t else tagSystemService (tagProps t)],
       Source := ref,
       Ext := (let ext = (if tagSystemService (tagProps t) \<noteq> []
                   then [''system_service'' \<mapsto> tagSystemService (tagProps t)] else Map.empty)
         in if tagPlatform (tagProps t) \<noteq> [] then ext(''platform'' \<mapsto> tagPlatform (tagProps t)) else ext)\<rparr>))
     (tagAddressPrefixes (tagProps t))"

definition azure_items :: "string \<Rightarrow> reader \<Rightarrow> item list" where
  "azure_items ref r = (case decode_serviceTags r of
     Inl err \<Rightarrow> [Inl err]
   | Inr doc \<Rightarrow> concat (map (azure_tag_items ref) (Values doc)))"

definition gcp_prefix_items :: "string \<Rightarrow> gotime \<Rightarrow> gcpPrefix \<Rightarrow> item list" where
  "gcp_prefix_items ref syncedAt p =
     (if gcpIPv4Prefix p = [] \<and> gcpIPv6Prefix p = [] then []
      else [network_item (ParsePrefix (if gcpIPv4Prefix p = [] then gcpIPv6Prefix p else gcpIPv4Prefix p))
        (zeroRecord\<lparr>Provider := ''gcp'', Region := (if EqualFold (gcpScope p) ''global'' then [] else gcpScope p),
          Services := [if gcpService p = [] then ''Google Cloud'' else gcpService p], Source := ref,
          SyncedAt := syncedAt\<rparr>)])"

definition gcp_items :: "string \<Rightarrow> reader \<Rightarrow> item list" where
  "gcp_items ref r = (case decode_cloudJSON r of
     Inl err \<Rightarrow> [Inl err]
   | Inr doc \<Rightarrow> concat (map (gcp_prefix_items ref (parseGCPTime (CreationTime doc))) (gcpPrefixes doc)))"

lemma concat_singletons: "concat (map (\<lambda>x. [f x]) xs) = map f xs"
  by (induction xs) simp_all

lemma aws_emit_item: "aws_emit ref t = (\<lambda>p. seq_of [aws_item ref t p])"
  unfolding aws_emit_def aws_item_def Let_def seq_network_item ..

lemma azure_tag_eq: "azure_tag ref = (\<lambda>t. seq_of (azure_tag_items ref t))"
  unfolding azure_tag_def azure_tag_items_def Let_def seq_network_item seq_for_eq concat_singletons ..

lemma gcp_prefix_eq: "gcp_prefix ref t = (\<lambda>p. seq_of (gcp_prefix_items ref t p))"
  unfolding gcp_prefix_def gcp_prefix_items_def Let_def seq_network_item seq_nil_eq
  by (rule ext) (simp del: seq_of.simps)

interpretation aws_feed: feed_parser aws_Parse aws_items "{''aws''}"
proof unfold_locales
  show "aws_Parse ref r = seq_of (aws_items ref r)" for ref r
    by (cases "decode_ipRanges r")
       (simp_all only: aws_Parse_def aws_items_def aws_emit_item seq_for_eq concat_singletons seq_then_eq
          seq_yield_eq sum.case Let_def map_append)
  show "prefix_wf (Network e) \<and> Source (Rec e) = ref \<and> Provider (Rec e) \<in> {''aws''}"
    if "Inr e \<in> set (aws_items ref r)" for e ref r
    using that by (auto simp: aws_items_def aws_item_def dest!: network_item_wf split: sum.splits)
qed

interpretation azure_feed: feed_parser azure_Parse azure_items "{''azure''}"
proof unfold_locales
  show "azure_Parse ref r = seq_of (azure_items ref r)" for ref r
    by (cases "decode_serviceTags r")
       (simp_all only: azure_Parse_def azure_items_def azure_tag_eq seq_for_eq seq_yield_eq sum.case)
  show "prefix_wf (Network e) \<and> Source (Rec e) = ref \<and> Provider (Rec e) \<in> {''azure''}"
    if "Inr e \<in> set (azure_items ref r)" for e ref r
    using that by (auto simp: azure_items_def azure_tag_items_def dest!: network_item_wf split: sum.splits)
qed

interpretation gcp_feed: feed_parser gcp_Parse gcp_items "{''gcp''}"
proof unfold_locales
  show "gcp_Parse ref r = seq_of (gcp_items ref r)" for ref r
    by (cases "decode_cloudJSON r")
       (simp_all only: gcp_Parse_def gcp_items_def gcp_prefix_eq seq_for_eq seq_yield_eq sum.case Let_def)
  have item: "prefix_wf (Network e) \<and> Source (Rec e) = ref \<and> Provider (Rec e) = ''gcp''"
    if "Inr e \<in> set (gcp_prefix_items ref t p)" for e ref t p
    using that by (cases "gcpIPv4Prefix p = [] \<and> gcpIPv6Prefix p = []")
      (simp_all add: gcp_prefix_items_def network_item_wf del: not_None_eq)
  show "prefix_wf (Network e) \<and> Source (Rec e) = ref \<and> Provider (Rec e) \<in> {''gcp''}"
    if "Inr e \<in> set (gcp_items ref r)" for e ref r
    using that item by (cases "decode_cloudJSON r") (auto simp: gcp_items_def)
qed

end
