(* ===== verification/Sources.thy ===== *)
theory Sources
  imports Text
begin

text \<open>
  \<open>attribution/source.go\<close>: where feeds come from. Everything outside the process (the network,
  the clock, the file system, the environment) is a parameter: a source acts on a state \<open>'s\<close>
  of the world through the operations of the record \<open>platform\<close>.
\<close>

section \<open>Opened streams and sources\<close>

record 's stream =
  Rd :: reader
  Close :: "'s \<Rightarrow> 's"

type_synonym 's source = "string \<Rightarrow> 's \<Rightarrow> (error + 's stream) \<times> 's"

record 's response =
  StatusCode :: int
  Status :: string
  Body :: "'s stream"

text \<open>
  \<open>NewRequest\<close> checks a URL, \<open>Do\<close> performs the request, \<open>Wait\<close> is the select between a timer
  and the cancelled context (whose error it then gives). \<open>Sha256\<close> and \<open>Gunzip\<close> are the
  library functions, \<open>Getenv\<close>, \<open>OsOpen\<close> and \<open>OpenInRoot\<close> those of the package os.
\<close>

record 's platform =
  NewRequest :: "string \<Rightarrow> error option"
  Do :: "string \<Rightarrow> 's \<Rightarrow> (error + 's response) \<times> 's"
  Wait :: "64 word \<Rightarrow> 's \<Rightarrow> error option \<times> 's"
  Getenv :: "string \<Rightarrow> string"
  OsOpen :: "string \<Rightarrow> 's \<Rightarrow> (error + 's stream) \<times> 's"
  OpenInRoot :: "string \<Rightarrow> string \<Rightarrow> 's \<Rightarrow> (error + 's stream) \<times> 's"
  Sha256 :: "string \<Rightarrow> string"
  Gunzip :: "reader \<Rightarrow> error + reader"

section \<open>HTTP\<close>

record HTTPSource =
  BaseURL :: string
  Attempts :: int
  Backoff :: "64 word"

definition rezmossRawBase :: string where
  "rezmossRawBase = ''https://raw.githubusercontent.com/rezmoss/cloud-provider-ip-addresses/main/''"

definition RezmossBaseEnv :: string where "RezmossBaseEnv = ''CLOUDIP_REZMOSS_BASE''"
definition ReputationBaseEnv :: string where "ReputationBaseEnv = ''CLOUDIP_REPUTATION_BASE''"
definition ASNBaseEnv :: string where "ASNBaseEnv = ''CLOUDIP_ASN_BASE''"

definition RezmossBase :: "'s platform \<Rightarrow> string" where
  "RezmossBase P = (let v = TrimSpace (Getenv P RezmossBaseEnv) in if v \<noteq> [] then v else rezmossRawBase)"

definition ReputationBase :: "'s platform \<Rightarrow> string" where
  "ReputationBase P = TrimSpace (Getenv P ReputationBaseEnv)"

definition ASNBase :: "'s platform \<Rightarrow> string" where
  "ASNBase P = TrimSpace (Getenv P ASNBaseEnv)"

definition NewRezmossSource :: "'s platform \<Rightarrow> HTTPSource" where
  "NewRezmossSource P = \<lparr>BaseURL = RezmossBase P, Attempts = 0, Backoff = 0\<rparr>"

definition NewDirectSource :: HTTPSource where
  "NewDirectSource = \<lparr>BaseURL = [], Attempts = 0, Backoff = 0\<rparr>"

definition retryableStatus :: "int \<Rightarrow> bool" where
  "retryableStatus code \<longleftrightarrow> code = 408 \<or> code = 429 \<or> code \<ge> 500"

text \<open>The retry loop, from \<open>attempt\<close> on.\<close>

function http_loop :: "'s platform \<Rightarrow> string \<Rightarrow> int \<Rightarrow> 64 word \<Rightarrow> int \<Rightarrow> error \<Rightarrow> 's \<Rightarrow>
    (error + 's stream) \<times> 's" where
  "http_loop P url attempts backoff attempt lastErr s =
     (if attempt \<le> attempts then
        (case (if attempt > 1 then Wait P (backoff * word_of_int (attempt - 1)) s else (None, s)) of
          (Some err, s) \<Rightarrow> (Inl err, s)
        | (None, s) \<Rightarrow>
            (case NewRequest P url of
               Some err \<Rightarrow> (Inl (Errorf ''build request for %q: %w'' [S url, E err]), s)
             | None \<Rightarrow>
                 (case Do P url s of
                    (Inl err, s) \<Rightarrow>
                      http_loop P url attempts backoff (attempt + 1) (Errorf ''fetch %q: %w'' [S url, E err]) s
                  | (Inr resp, s) \<Rightarrow>
                      if StatusCode resp = 200 then (Inr (Body resp), s)
                      else let s = Close (Body resp) s in
                        if \<not> retryableStatus (StatusCode resp)
                        then (Inl (Errorf ''fetch %q: unexpected status %s'' [S url, S (Status resp)]), s)
                        else http_loop P url attempts backoff (attempt + 1)
                          (Errorf ''fetch %q: status %s'' [S url, S (Status resp)]) s)))
      else (Inl (Errorf ''after %d attempts: %w'' [I attempts, E lastErr]), s))"
  by pat_completeness auto
termination
  by (relation "measure (\<lambda>(_, _, attempts, _, attempt, _). nat (attempts + 1 - attempt))") auto

declare http_loop.simps [simp del]

definition http_url :: "HTTPSource \<Rightarrow> string \<Rightarrow> string" where
  "http_url h ref =
     (if BaseURL h \<noteq> [] then trim_suffix (BaseURL h) ''/'' @ ''/'' @ trim_prefix ref ''/'' else ref)"

definition http_Open :: "'s platform \<Rightarrow> HTTPSource \<Rightarrow> 's source" where
  "http_Open P h ref s =
     (let attempts = (if Attempts h \<le> 0 then 3 else Attempts h);
          backoff = (if sint (Backoff h) \<le> 0 then 500000000 else Backoff h)
      in http_loop P (http_url h ref) attempts backoff 1 (LibErr ''nil'' []) s)"

section \<open>Digests\<close>

definition hex_digit :: "int \<Rightarrow> char" where
  "hex_digit n = (if n < 10 then char_of (48 + n) else char_of (87 + n))"

definition hex_EncodeToString :: "string \<Rightarrow> string" where
  "hex_EncodeToString bs = concat (map (\<lambda>c. [hex_digit (byte c div 16), hex_digit (byte c mod 16)]) bs)"

record 's DigestSource =
  Inner :: "'s source"
  Pins :: "string \<rightharpoonup> string"
  DigestRecord :: "(string \<Rightarrow> string \<Rightarrow> 's \<Rightarrow> 's) option"

definition digest_Open :: "'s platform \<Rightarrow> 's DigestSource \<Rightarrow> 's source" where
  "digest_Open P d ref s = (case Inner d ref s of
     (Inl err, s) \<Rightarrow> (Inl err, s)
   | (Inr rc, s) \<Rightarrow>
       let s = Close rc s in
       (case fault (Rd rc) of
          Some err \<Rightarrow> (Inl (Errorf ''read %s for digest: %w'' [S ref, E err]), s)
        | None \<Rightarrow>
            let data = content (Rd rc);
                hexsum = hex_EncodeToString (Sha256 P data);
                s = (case DigestRecord d of Some record \<Rightarrow> record ref hexsum s | None \<Rightarrow> s)
            in (case Pins d ref of
                  Some want \<Rightarrow>
                    if \<not> EqualFold want hexsum
                    then (Inl (Errorf ''integrity check failed for %s: got %s, pinned %s'' [S ref, S hexsum, S want]), s)
                    else (Inr \<lparr>Rd = Reader data None, Close = (\<lambda>s. s)\<rparr>, s)
                | None \<Rightarrow> (Inr \<lparr>Rd = Reader data None, Close = (\<lambda>s. s)\<rparr>, s))))"

section \<open>Files\<close>

text \<open>\<open>path.Clean\<close> (standard library): the elements that remain, and the path they make.\<close>

fun clean_elems :: "bool \<Rightarrow> string list \<Rightarrow> string list \<Rightarrow> string list" where
  "clean_elems rooted out [] = out"
| "clean_elems rooted out (e # es) =
     (if e = [] \<or> e = ''.'' then clean_elems rooted out es
      else if e = ''..'' then
        (if out \<noteq> [] \<and> last out \<noteq> ''..'' then clean_elems rooted (butlast out) es
         else if rooted then clean_elems rooted out es
         else clean_elems rooted (out @ [''..'']) es)
      else clean_elems rooted (out @ [e]) es)"

definition path_Clean :: "string \<Rightarrow> string" where
  "path_Clean p =
     (let rooted = has_prefix p ''/'';
          body = strings_Join (clean_elems rooted [] (split_char (CHR ''/'') p)) ''/''
      in if rooted then CHR ''/'' # body else if body = [] then ''.'' else body)"

record FileSource = Dir :: string

definition relative_ref :: "string \<Rightarrow> string" where
  "relative_ref ref = (let rel = trim_prefix (path_Clean (CHR ''/'' # ref)) ''/'' in if rel = [] then ''.'' else rel)"

definition file_Open :: "'s platform \<Rightarrow> FileSource \<Rightarrow> 's source" where
  "file_Open P f ref s =
     (if Dir f = [] then
        (case OsOpen P ref s of
           (Inl err, s) \<Rightarrow> (Inl (Errorf ''open fixture %q: %w'' [S ref, E err]), s)
         | (Inr rc, s) \<Rightarrow> (Inr rc, s))
      else
        (case OpenInRoot P (Dir f) (relative_ref ref) s of
           (Inl err, s) \<Rightarrow> (Inl (Errorf ''open fixture %q in %q: %w'' [S ref, S (Dir f), E err]), s)
         | (Inr rc, s) \<Rightarrow> (Inr rc, s)))"

section \<open>Retrying\<close>

text \<open>
  A platform that plays a script of request outcomes and logs what the source does. Its
  context is never cancelled.
\<close>

datatype http_action = Requested string | Waited "64 word" | BodyClosed

type_synonym outcome = "error + int \<times> string \<times> reader"

record http_world =
  script :: "outcome list"
  actions :: "http_action list"

definition act :: "http_action \<Rightarrow> http_world \<Rightarrow> http_world" where
  "act a w = w\<lparr>actions := actions w @ [a]\<rparr>"

definition play :: "string \<Rightarrow> http_world \<Rightarrow> (error + http_world response) \<times> http_world" where
  "play url w = (case script w of
     [] \<Rightarrow> (Inl (LibErr ''end of script'' []), act (Requested url) w)
   | Inl err # os \<Rightarrow> (Inl err, act (Requested url) (w\<lparr>script := os\<rparr>))
   | Inr (code, st, rd) # os \<Rightarrow>
       (Inr \<lparr>StatusCode = code, Status = st, Body = \<lparr>Rd = rd, Close = act BodyClosed\<rparr>\<rparr>,
        act (Requested url) (w\<lparr>script := os\<rparr>)))"

definition scripted :: "http_world platform" where
  "scripted = \<lparr>NewRequest = (\<lambda>_. None), Do = play, Wait = (\<lambda>d w. (None, act (Waited d) w)),
     Getenv = (\<lambda>_. []), OsOpen = (\<lambda>_ w. (Inl (LibErr ''no files'' []), w)),
     OpenInRoot = (\<lambda>_ _ w. (Inl (LibErr ''no files'' []), w)), Sha256 = (\<lambda>s. s),
     Gunzip = (\<lambda>_. Inl (LibErr ''gzip'' []))\<rparr>"

text \<open>
  What the retry policy promises: a network error or a retryable status is tried again, any
  other answer decides. The body of every answer but the accepted one is closed.
\<close>

definition undecided :: "outcome \<Rightarrow> bool" where
  "undecided o' = (case o' of Inl _ \<Rightarrow> True | Inr (code, _, _) \<Rightarrow> code \<noteq> 200 \<and> retryableStatus code)"

definition attempt_error :: "string \<Rightarrow> outcome \<Rightarrow> error" where
  "attempt_error url o' = (case o' of
     Inl err \<Rightarrow> Errorf ''fetch %q: %w'' [S url, E err]
   | Inr (_, st, _) \<Rightarrow> Errorf ''fetch %q: status %s'' [S url, S st])"

definition verdict :: "string \<Rightarrow> outcome \<Rightarrow> error + http_world stream" where
  "verdict url o' = (case o' of
     Inl err \<Rightarrow> Inl err
   | Inr (code, st, rd) \<Rightarrow>
       if code = 200 then Inr \<lparr>Rd = rd, Close = act BodyClosed\<rparr>
       else Inl (Errorf ''fetch %q: unexpected status %s'' [S url, S st]))"

definition attempt_actions :: "string \<Rightarrow> 64 word \<Rightarrow> nat \<Rightarrow> outcome \<Rightarrow> http_action list" where
  "attempt_actions url backoff i o' =
     (if 0 < i then [Waited (backoff * word_of_nat i)] else []) @ [Requested url] @
     (case o' of Inl _ \<Rightarrow> [] | Inr (code, _, _) \<Rightarrow> if code = 200 then [] else [BodyClosed])"

definition tried :: "outcome list \<Rightarrow> outcome list" where
  "tried os = takeWhile undecided os @ take 1 (dropWhile undecided os)"

lemma tried_Cons: "tried (o' # os) = (if undecided o' then o' # tried os else [o'])"
  by (simp add: tried_def)

lemma scripted_simps [simp]:
  "NewRequest scripted url = None" "Do scripted = play" "Wait scripted d w = (None, act (Waited d) w)"
  by (simp_all add: scripted_def)

lemma act_simps [simp]: "script (act a w) = script w" "actions (act a w) = actions w @ [a]"
  by (simp_all add: act_def)

text \<open>One attempt whose outcome is next on the script.\<close>

lemma http_loop_attempt:
  assumes "script w = o' # os" "int i < attempts"
  shows "http_loop scripted url attempts backoff (int i + 1) lastErr w =
    (if undecided o' then http_loop scripted url attempts backoff (int i + 2) (attempt_error url o')
        (w\<lparr>script := os, actions := actions w @ attempt_actions url backoff i o'\<rparr>)
     else (verdict url o', w\<lparr>script := os, actions := actions w @ attempt_actions url backoff i o'\<rparr>))"
proof -
  have "word_of_int (int i) = (word_of_nat i :: 64 word)" by simp
  moreover have "\<not> retryableStatus 200" by (simp add: retryableStatus_def)
  ultimately show ?thesis
    using assms
    by (subst http_loop.simps)
       (auto simp: play_def act_def attempt_actions_def undecided_def attempt_error_def verdict_def
          add.commute split: sum.splits prod.splits)
qed

lemma http_loop_script:
  assumes "script w = os @ rest" "attempts = int (i + length os)"
  shows "http_loop scripted url attempts backoff (int i + 1) lastErr w =
    ((case dropWhile undecided os of
        [] \<Rightarrow> Inl (Errorf ''after %d attempts: %w'' [I attempts, E (foldl (\<lambda>_. attempt_error url) lastErr os)])
      | o' # _ \<Rightarrow> verdict url o'),
     w\<lparr>script := drop (length (tried os)) (os @ rest),
       actions := actions w @ concat (map (\<lambda>(k, o'). attempt_actions url backoff k o') (enumerate i (tried os)))\<rparr>)"
  using assms
proof (induction os arbitrary: i w lastErr)
  case Nil
  then show ?case by (subst http_loop.simps) (simp add: tried_def)
next
  case (Cons o' os)
  have step: "http_loop scripted url attempts backoff (int i + 1) lastErr w =
    (if undecided o' then http_loop scripted url attempts backoff (int i + 2) (attempt_error url o')
        (w\<lparr>script := os @ rest, actions := actions w @ attempt_actions url backoff i o'\<rparr>)
     else (verdict url o', w\<lparr>script := os @ rest, actions := actions w @ attempt_actions url backoff i o'\<rparr>))"
    by (rule http_loop_attempt) (use Cons.prems in simp_all)
  show ?case
  proof (cases "undecided o'")
    case True
    have e: "int i + 2 = int (Suc i) + 1" by simp
    show ?thesis unfolding step if_P [OF True] e
      by (subst Cons.IH) (use Cons.prems True in \<open>simp_all add: tried_Cons cong: list.case_cong\<close>)
  next
    case False
    then show ?thesis unfolding step by (simp add: tried_Cons)
  qed
qed



section \<open>Digests\<close>



section \<open>Confinement\<close>

definition proper_elem :: "string \<Rightarrow> bool" where
  "proper_elem e \<longleftrightarrow> e \<noteq> [] \<and> e \<noteq> ''.'' \<and> e \<noteq> ''..'' \<and> CHR ''/'' \<notin> set e"

lemma clean_elems_proper:
  "\<forall>e \<in> set out. proper_elem e \<Longrightarrow> \<forall>e \<in> set es. CHR ''/'' \<notin> set e \<Longrightarrow>
    \<forall>e \<in> set (clean_elems True out es). proper_elem e"
proof (induction es arbitrary: out)
  case (Cons e es)
  have es: "\<forall>e \<in> set es. CHR ''/'' \<notin> set e" using Cons.prems(2) by simp
  have "\<forall>x \<in> set (butlast out). proper_elem x" using Cons.prems(1) in_set_butlastD by metis
  note this [THEN Cons.IH, OF es] Cons.IH [OF Cons.prems(1) es]
  moreover have "\<forall>x \<in> set (clean_elems True (out @ [e]) es). proper_elem x"
    if "e \<noteq> []" "e \<noteq> ''.''" "e \<noteq> ''..''"
  proof (rule Cons.IH [OF _ es])
    have "proper_elem e" using that Cons.prems(2) by (simp add: proper_elem_def)
    then show "\<forall>x \<in> set (out @ [e]). proper_elem x" using Cons.prems(1) by simp
  qed
  ultimately show ?case unfolding clean_elems.simps by (auto split: if_split)
qed simp

lemma split_char_free_append: "c \<notin> set x \<Longrightarrow> split_char c (x @ c # y) = x # split_char c y"
  by (induction x) auto

lemma split_char_free_only: "c \<notin> set x \<Longrightarrow> split_char c x = [x]"
  by (induction x) auto

lemma split_char_Join:
  "es \<noteq> [] \<Longrightarrow> \<forall>e \<in> set es. c \<notin> set e \<Longrightarrow> split_char c (strings_Join es [c]) = es"
proof (induction es rule: induct_list012)
  case (3 x y zs)
  then show ?case by (simp add: split_char_free_append)
qed (simp_all add: split_char_free_only)


end
