(* ===== verification/Pipeline.thy ===== *)
theory Pipeline
  imports Sources Rezmoss
begin

text \<open>
  \<open>attribution/pipeline.go\<close>: from plugins to one stream of entries. A feed bundles a ref, the
  source that opens it and the parser of its bytes; resolvers turn plugins into feeds, and
  the collectors read them, failing fast or isolating the failures of single feeds.
\<close>

section \<open>Feeds and resolvers\<close>

record 's Feed =
  Ref :: string
  FeedSource :: "'s source"
  FeedParse :: "'s ParseFunc"

type_synonym 's PluginSource = "'s Plugin \<Rightarrow> 's Feed list"

definition rezmossFeeds :: "'s platform \<Rightarrow> 's Plugin \<Rightarrow> HTTPSource \<Rightarrow> 's Feed list" where
  "rezmossFeeds P p src =
     map (\<lambda>ref. \<lparr>Ref = ref, FeedSource = http_Open P src, FeedParse = ParseRezmoss (Name p)\<rparr>) (RezmossRefs p)"

definition RezmossResolver :: "'s platform \<Rightarrow> 's PluginSource" where
  "RezmossResolver P p = rezmossFeeds P p (NewRezmossSource P)"

definition DirectResolver :: "'s platform \<Rightarrow> 's PluginSource" where
  "DirectResolver P p = (case DirectRefs p of
     None \<Rightarrow> rezmossFeeds P p (NewRezmossSource P)
   | Some refs \<Rightarrow>
       map (\<lambda>ref. \<lparr>Ref = ref, FeedSource = http_Open P NewDirectSource, FeedParse = Parse p\<rparr>) refs)"

definition FixtureResolver :: "'s platform \<Rightarrow> string \<Rightarrow> 's PluginSource" where
  "FixtureResolver P dir p =
     map (\<lambda>ref. \<lparr>Ref = ref, FeedSource = file_Open P \<lparr>Dir = dir\<rparr>, FeedParse = Parse p\<rparr>) (Refs p)"

definition MirrorResolver :: "'s platform \<Rightarrow> string \<Rightarrow> 's PluginSource" where
  "MirrorResolver P base p =
     map (\<lambda>ref. \<lparr>Ref = ref, FeedSource = http_Open P \<lparr>BaseURL = base, Attempts = 0, Backoff = 0\<rparr>,
       FeedParse = Parse p\<rparr>) (Refs p)"

definition WithDigest :: "'s platform \<Rightarrow> 's PluginSource \<Rightarrow> (string \<rightharpoonup> string) \<Rightarrow>
    (string \<Rightarrow> string \<Rightarrow> 's \<Rightarrow> 's) option \<Rightarrow> 's PluginSource" where
  "WithDigest P resolve pins record' p =
     map (\<lambda>f. f\<lparr>FeedSource := digest_Open P \<lparr>Inner = FeedSource f, Pins = pins, DigestRecord = record'\<rparr>\<rparr>)
       (resolve p)"

section \<open>Collecting\<close>

text \<open>
  \<open>defer rc.Close()\<close>: the reader is closed when the function returns, after everything its
  body did.
\<close>

definition collectFeed :: "string \<Rightarrow> 's Feed \<Rightarrow> (item, 's) seq" where
  "collectFeed provider f yield s = (case FeedSource f (Ref f) s of
     (Inl err, s) \<Rightarrow> yield (Inl (Errorf ''%s: open %s: %w'' [S provider, S (Ref f), E err])) s
   | (Inr rc, s) \<Rightarrow>
       (case seq_range (FeedParse f (Ref f) (Rd rc)) (\<lambda>it. case it of
            Inl perr \<Rightarrow> seq_yield (Inl (Errorf ''%s: parse %s: %w'' [S provider, S (Ref f), E perr]))
          | Inr e \<Rightarrow> seq_yield (Inr e)) yield s of
        (running, s) \<Rightarrow> (running, Close rc s)))"

definition Collect :: "'s Plugin list \<Rightarrow> 's PluginSource \<Rightarrow> (item, 's) seq" where
  "Collect plugins resolve =
     seq_for plugins (\<lambda>p. seq_for (resolve p) (\<lambda>f. collectFeed (Name p) f))"

definition ConcatEntries :: "(item, 's) seq list \<Rightarrow> (item, 's) seq" where
  "ConcatEntries seqs = seq_for seqs (\<lambda>s. seq_range s seq_yield)"

record FeedFailure =
  FailedProvider :: string
  FailedRef :: string
  Err :: error

text \<open>
  \<open>bufferFeed\<close> runs the parser with a consumer of its own, the range loop that appends to the
  local variable \<open>out\<close> or returns the first error. A parser threads one state, so the
  resilient collector works on states that have a cell for these locals beside the rest; the
  cell is set up and restored around the loop.
\<close>

type_synonym buffer = "Entry list \<times> error option"

definition buffer_body :: "(item, 'w \<times> buffer) yield" where
  "buffer_body it = (\<lambda>(w, out, ret). (case it of
     Inl perr \<Rightarrow> (False, (w, out, Some perr))
   | Inr e \<Rightarrow> (True, (w, out @ [e], ret))))"

definition bufferFeed :: "('w \<times> buffer) Feed \<Rightarrow> 'w \<times> buffer \<Rightarrow> (error + Entry list) \<times> ('w \<times> buffer)" where
  "bufferFeed f s = (case FeedSource f (Ref f) s of
     (Inl err, s) \<Rightarrow> (Inl err, s)
   | (Inr rc, (w, saved)) \<Rightarrow>
       (case FeedParse f (Ref f) (Rd rc) buffer_body (w, ([], None)) of
          (_, (w, out, ret)) \<Rightarrow>
            ((case ret of Some perr \<Rightarrow> Inl perr | None \<Rightarrow> Inr out), Close rc (w, saved))))"

definition resilientFeed :: "string \<Rightarrow> ('w \<times> buffer) Feed \<Rightarrow>
    (FeedFailure \<Rightarrow> 'w \<times> buffer \<Rightarrow> 'w \<times> buffer) option \<Rightarrow> (item, 'w \<times> buffer) seq" where
  "resilientFeed provider f onFail yield s = (case bufferFeed f s of
     (Inl err, s) \<Rightarrow>
       (True, case onFail of
          Some report \<Rightarrow> report \<lparr>FailedProvider = provider, FailedRef = Ref f, Err = err\<rparr> s
        | None \<Rightarrow> s)
   | (Inr entries, s) \<Rightarrow> seq_for entries (\<lambda>e. seq_yield (Inr e)) yield s)"

definition CollectResilient :: "('w \<times> buffer) Plugin list \<Rightarrow> ('w \<times> buffer) PluginSource \<Rightarrow>
    (FeedFailure \<Rightarrow> 'w \<times> buffer \<Rightarrow> 'w \<times> buffer) option \<Rightarrow> (item, 'w \<times> buffer) seq" where
  "CollectResilient plugins resolve onFail =
     seq_for plugins (\<lambda>p. seq_for (resolve p) (\<lambda>f. resilientFeed (Name p) f onFail))"

text \<open>The unified mirror file, filtered by the providers named (all when none is).\<close>

definition CollectRezmossAll :: "'s source \<Rightarrow> string list \<Rightarrow> (item, 's) seq" where
  "CollectRezmossAll src providers =
     (let flt = foldl (\<lambda>m p. m(p := True)) (\<lambda>_. False) providers in
      collectFeed ''rezmoss-all'' \<lparr>Ref = RezmossAllRef, FeedSource = src,
        FeedParse = ParseRezmossAll (if providers = [] then None else Some flt)\<rparr>)"

section \<open>Selecting plugins\<close>

text \<open>
  Without names, all of a registry, by name (no two plugins of a registry have the same name,
  so the order of equal names that \<open>sort.Slice\<close> leaves open does not matter).
\<close>

fun select_named :: "'s registry \<Rightarrow> string list \<Rightarrow> 's Plugin list \<Rightarrow> error + 's Plugin list" where
  "select_named reg [] out = Inr out"
| "select_named reg (n # ns) out = (case map_of reg n of
     None \<Rightarrow> Inl (Errorf ''unknown provider plugin %q'' [S n])
   | Some p \<Rightarrow> select_named reg ns (out @ [p]))"

definition selectFrom :: "'s registry \<Rightarrow> string list \<Rightarrow> error + 's Plugin list" where
  "selectFrom reg names =
     (if names = [] then Inr (sort_key Name (foldl (\<lambda>out (_, p). out @ [p]) [] reg))
      else select_named reg names [])"

definition SelectPlugins :: "'s registries \<Rightarrow> string list \<Rightarrow> error + 's Plugin list" where
  "SelectPlugins g names = selectFrom (Plugins g) names"

definition SelectReputationPlugins :: "'s registries \<Rightarrow> string list \<Rightarrow> error + 's Plugin list" where
  "SelectReputationPlugins g names = selectFrom (ReputationPlugins g) names"

definition SelectASNPlugins :: "'s registries \<Rightarrow> string list \<Rightarrow> error + 's Plugin list" where
  "SelectASNPlugins g names = selectFrom (ASNPlugins g) names"

section \<open>What selection returns\<close>

lemma select_named_eq:
  "select_named reg ns out = (case find (\<lambda>n. map_of reg n = None) ns of
     Some n \<Rightarrow> Inl (Errorf ''unknown provider plugin %q'' [S n])
   | None \<Rightarrow> Inr (out @ map (\<lambda>n. the (map_of reg n)) ns))"
  by (induction ns arbitrary: out) (auto split: option.split)

text \<open>
  C39. Selection without names gives every registered plugin once, sorted by name, whatever
  the iteration order of the map; with names it gives them in the order asked for, or fails
  at the first unknown one.
\<close>

theorem selectFrom_deterministic:
  assumes "registry_ok reg"
  shows "selectFrom reg names =
    (if names = [] then Inr (map (\<lambda>n. the (map_of reg n)) (sorted_list_of_set (fst ` set reg)))
     else case find (\<lambda>n. n \<notin> fst ` set reg) names of
       Some n \<Rightarrow> Inl (Errorf ''unknown provider plugin %q'' [S n])
     | None \<Rightarrow> Inr (map (\<lambda>n. the (map_of reg n)) names))"
proof -
  have d: "distinct (map fst reg)" and name: "\<And>n p. (n, p) \<in> set reg \<Longrightarrow> Name p = n"
    using assms by (auto simp: registry_ok_def)
  have "foldl (\<lambda>out (_, p). out @ [p]) acc xs = acc @ map snd xs" for acc :: "'a Plugin list" and xs :: "'a registry"
    by (induction xs arbitrary: acc) auto
  then have all: "foldl (\<lambda>out (_, p). out @ [p]) [] reg = map snd reg" by simp
  have names: "map Name (map snd reg) = map fst reg" using name by auto
  have "sorted (map Name (sort_key Name (map snd reg)))" by simp
  moreover have "distinct (map Name (sort_key Name (map snd reg)))"
    using d names by (metis distinct_map distinct_sort set_map set_sort list.set_map)
  moreover have "set (map Name (sort_key Name (map snd reg))) = fst ` set reg"
    using names by (metis list.set_map set_sort)
  ultimately have s: "map Name (sort_key Name (map snd reg)) = sorted_list_of_set (fst ` set reg)"
    by (metis sorted_list_of_set.idem_if_sorted_distinct)
  have "the (map_of reg (Name p)) = p" if "p \<in> set (map snd reg)" for p
    using that d name by auto
  then have "map (\<lambda>n. the (map_of reg n)) (map Name (sort_key Name (map snd reg))) = sort_key Name (map snd reg)"
    unfolding map_map by (intro map_idI) simp
  then show ?thesis
    using s by (auto simp: selectFrom_def all select_named_eq map_of_eq_None_iff split: option.splits)
qed

definition sample_plugin :: "string \<Rightarrow> 's Plugin" where
  "sample_plugin n = \<lparr>Name = n, Refs = [n @ ''/feed''], Parse = (\<lambda>_ _. seq_nil), DirectRefs = None,
     PluginRezmossRefs = None\<rparr>"

theorem selectFrom_deterministic_witness:
  "selectFrom [(''tor'', sample_plugin ''tor''), (''feodo'', sample_plugin ''feodo'')] [] =
     Inr [sample_plugin ''feodo'', sample_plugin ''tor'' :: unit Plugin]"
proof -
  let ?reg = "[(''tor'', sample_plugin ''tor''), (''feodo'', sample_plugin ''feodo'')] :: unit registry"
  have "registry_ok ?reg" by (simp add: registry_ok_def sample_plugin_def)
  moreover have "sorted_list_of_set (fst ` set ?reg) = [''feodo'', ''tor'']" by code_simp
  ultimately show ?thesis using selectFrom_deterministic [of ?reg "[]"] by simp
qed

section \<open>What the collectors do\<close>

text \<open>A log of what happens in a collection, kept beside the cell for locals.\<close>

datatype event = Opened string | ReaderClosed string | Yielded item | Failed FeedFailure

type_synonym logged = "event list \<times> buffer"

definition note_event :: "event \<Rightarrow> logged \<Rightarrow> logged" where
  "note_event ev = (\<lambda>(l, b). (l @ [ev], b))"

definition logged_source :: "(string \<Rightarrow> error + reader) \<Rightarrow> logged source" where
  "logged_source src ref s = (case src ref of
     Inl err \<Rightarrow> (Inl err, note_event (Opened ref) s)
   | Inr rd \<Rightarrow> (Inr \<lparr>Rd = rd, Close = note_event (ReaderClosed ref)\<rparr>, note_event (Opened ref) s))"

definition log_yield :: "(item, logged) yield" where
  "log_yield it s = (True, note_event (Yielded it) s)"

lemma note_event_simps [simp]:
  "fst (note_event ev s) = fst s @ [ev]" "snd (note_event ev s) = snd s" "note_event ev (l, b) = (l @ [ev], b)"
  by (auto simp: note_event_def split: prod.splits)

lemma log_yield_seq: "seq_of xs log_yield (l, b) = (True, (l @ map Yielded xs, b))"
  by (induction xs arbitrary: l) (simp_all add: log_yield_def)

text \<open>A feed whose source is a function and whose parser is the iterator of a list.\<close>

definition models :: "logged Feed \<Rightarrow> (string \<Rightarrow> error + reader) \<Rightarrow> (string \<Rightarrow> reader \<Rightarrow> item list) \<Rightarrow> bool" where
  "models f src items \<longleftrightarrow> FeedSource f = logged_source src \<and> (\<forall>ref r. FeedParse f ref r = seq_of (items ref r))"

text \<open>Failing fast: every error is yielded, tagged with provider and ref.\<close>

definition tag_item :: "string \<Rightarrow> string \<Rightarrow> item \<Rightarrow> item" where
  "tag_item provider ref = map_sum (\<lambda>perr. Errorf ''%s: parse %s: %w'' [S provider, S ref, E perr]) id"

definition collect_log :: "string \<Rightarrow> string \<Rightarrow> (string \<Rightarrow> error + reader) \<Rightarrow> (string \<Rightarrow> reader \<Rightarrow> item list) \<Rightarrow> event list" where
  "collect_log provider ref src items = Opened ref # (case src ref of
     Inl err \<Rightarrow> [Yielded (Inl (Errorf ''%s: open %s: %w'' [S provider, S ref, E err]))]
   | Inr rd \<Rightarrow> map (\<lambda>it. Yielded (tag_item provider ref it)) (items ref rd) @ [ReaderClosed ref])"

lemma collectFeed_seq:
  assumes "models f src items"
  shows "collectFeed provider f yield s = (case src (Ref f) of
     Inl err \<Rightarrow> yield (Inl (Errorf ''%s: open %s: %w'' [S provider, S (Ref f), E err])) (note_event (Opened (Ref f)) s)
   | Inr rd \<Rightarrow> (case seq_of (map (tag_item provider (Ref f)) (items (Ref f) rd)) yield (note_event (Opened (Ref f)) s) of
       (running, s) \<Rightarrow> (running, note_event (ReaderClosed (Ref f)) s)))"
proof -
  have "(\<lambda>it. case it of
      Inl perr \<Rightarrow> seq_yield (Inl (Errorf ''%s: parse %s: %w'' [S provider, S (Ref f), E perr]))
    | Inr e \<Rightarrow> seq_yield (Inr e)) = (\<lambda>it. (seq_of [tag_item provider (Ref f) it] :: (item, logged) seq))"
    by (auto simp: fun_eq_iff tag_item_def iter simp del: seq_of.simps split: sum.split)
  moreover have "concat (map (\<lambda>it. [tag_item provider (Ref f) it]) xs) = map (tag_item provider (Ref f)) xs" for xs
    by (induction xs) simp_all
  ultimately show ?thesis
    using assms unfolding collectFeed_def models_def
    by (cases "src (Ref f)") (simp_all only: logged_source_def seq_range_eq sum.case prod.case stream.simps)
qed

lemma collectFeed_log:
  assumes "models f src items"
  shows "collectFeed provider f log_yield (l, b) = (True, (l @ collect_log provider (Ref f) src items, b))"
  unfolding collectFeed_seq [OF assms]
  by (auto simp: collect_log_def log_yield_seq log_yield_def comp_def split: sum.split)

lemma seq_for_log:
  assumes "\<And>x l. x \<in> set xs \<Longrightarrow> body x yield (l, b) = (True, (l @ g x, b))"
  shows "seq_for xs body yield (l, b) = (True, (l @ concat (map g xs), b))"
  using assms
proof (induction xs arbitrary: l)
  case (Cons x xs)
  then show ?case by (simp add: seq_then_def)
qed (simp add: seq_nil_def)

text \<open>
  C31. \<open>Collect\<close> opens the feeds in order; each feed's values are yielded between its opening and
  its closing; an open or parse error is yielded, with provider and ref, and collection
  continues for a consumer that wants more. No reader stays open, also not when the consumer
  stops inside a feed.
\<close>

theorem Collect_log:
  assumes "\<forall>p \<in> set plugins. \<forall>f \<in> set (resolve p). models f (src f) (items f)"
  shows "Collect plugins resolve log_yield (l, b) =
      (True, (l @ concat (map (\<lambda>p. concat (map (\<lambda>f. collect_log (Name p) (Ref f) (src f) (items f)) (resolve p))) plugins), b))
    \<and> (\<forall>p \<in> set plugins. \<forall>f \<in> set (resolve p). \<forall>yield s rd. src f (Ref f) = Inr rd \<longrightarrow>
        (\<exists>l' b'. snd (collectFeed (Name p) f yield s) = (l' @ [ReaderClosed (Ref f)], b')))"
proof
  show "Collect plugins resolve log_yield (l, b) =
      (True, (l @ concat (map (\<lambda>p. concat (map (\<lambda>f. collect_log (Name p) (Ref f) (src f) (items f)) (resolve p))) plugins), b))"
    unfolding Collect_def by (intro seq_for_log collectFeed_log) (use assms in blast)
  show "\<forall>p \<in> set plugins. \<forall>f \<in> set (resolve p). \<forall>yield s rd. src f (Ref f) = Inr rd \<longrightarrow>
      (\<exists>l' b'. snd (collectFeed (Name p) f yield s) = (l' @ [ReaderClosed (Ref f)], b'))"
  proof (intro ballI allI impI)
    fix p f yield s rd assume "p \<in> set plugins" "f \<in> set (resolve p)" "src f (Ref f) = Inr rd"
    then show "\<exists>l' b'. snd (collectFeed (Name p) f yield s) = (l' @ [ReaderClosed (Ref f)], b')"
      using collectFeed_seq [of f "src f" "items f" "Name p" yield s] assms
      by (auto simp: note_event_def split: prod.split)
  qed
qed

text \<open>Isolation: what one feed does in the resilient collector.\<close>

definition feed_result :: "(string \<Rightarrow> error + reader) \<Rightarrow> (string \<Rightarrow> reader \<Rightarrow> item list) \<Rightarrow> string \<Rightarrow> error + Entry list" where
  "feed_result src items ref = (case src ref of
     Inl err \<Rightarrow> Inl err
   | Inr rd \<Rightarrow> (case find isl (items ref rd) of
       Some it \<Rightarrow> Inl (projl it)
     | None \<Rightarrow> Inr (map projr (items ref rd))))"

definition resilient_log :: "string \<Rightarrow> string \<Rightarrow> (string \<Rightarrow> error + reader) \<Rightarrow> (string \<Rightarrow> reader \<Rightarrow> item list) \<Rightarrow> event list" where
  "resilient_log provider ref src items =
     [Opened ref] @ (if isl (src ref) then [] else [ReaderClosed ref]) @
     (case feed_result src items ref of
        Inl err \<Rightarrow> [Failed \<lparr>FailedProvider = provider, FailedRef = ref, Err = err\<rparr>]
      | Inr es \<Rightarrow> map (\<lambda>e. Yielded (Inr e)) es)"

lemma buffer_body_seq:
  "\<exists>out'. snd (seq_of xs buffer_body (w, out, None)) = (w, out', map_option projl (find isl xs)) \<and>
    (find isl xs = None \<longrightarrow> out' = out @ map projr xs)"
proof (induction xs arbitrary: out)
  case (Cons it xs)
  show ?case
  proof (cases it)
    case (Inr e)
    then show ?thesis using Cons [of "out @ [e]"] by (simp add: buffer_body_def)
  next
    case (Inl perr)
    then show ?thesis by (simp add: buffer_body_def)
  qed
qed simp

lemma bufferFeed_result:
  assumes "models f src items"
  shows "bufferFeed f (l, b) = (feed_result src items (Ref f),
    (l @ Opened (Ref f) # (if isl (src (Ref f)) then [] else [ReaderClosed (Ref f)]), b))"
proof (cases "src (Ref f)")
  case (Inr rd)
  obtain running out' where "seq_of (items (Ref f) rd) buffer_body (l @ [Opened (Ref f)], [], None) =
      (running, l @ [Opened (Ref f)], out', map_option projl (find isl (items (Ref f) rd)))"
    and "find isl (items (Ref f) rd) = None \<longrightarrow> out' = map projr (items (Ref f) rd)"
    using buffer_body_seq [of "items (Ref f) rd" "l @ [Opened (Ref f)]" "[]"]
    by (metis append_Nil prod.collapse)
  then show ?thesis
    using Inr assms by (auto simp: bufferFeed_def models_def logged_source_def feed_result_def split: option.split)
qed (use assms in \<open>simp add: bufferFeed_def models_def logged_source_def feed_result_def\<close>)

text \<open>
  C6. \<open>CollectResilient\<close> never yields an error. A feed that cannot be opened, or whose parser
  meets any error, contributes no entry at all and is reported exactly once, with its first
  error; every other feed contributes all of its entries; each opened reader is closed before
  the first entry of its feed is handed on.
\<close>

theorem CollectResilient_isolates:
  assumes "\<forall>p \<in> set plugins. \<forall>f \<in> set (resolve p). models f (src f) (items f)"
  shows "CollectResilient plugins resolve (Some (\<lambda>failure. note_event (Failed failure))) log_yield (l, b) =
      (True, (l @ concat (map (\<lambda>p. concat (map (\<lambda>f. resilient_log (Name p) (Ref f) (src f) (items f)) (resolve p))) plugins), b))"
proof -
  have "resilientFeed provider f (Some (\<lambda>failure. note_event (Failed failure))) log_yield (l, b) =
      (True, (l @ resilient_log provider (Ref f) (src f) (items f), b))"
    if m: "models f (src f) (items f)" for provider f l
  proof (cases "feed_result (src f) (items f) (Ref f)")
    case (Inl err)
    then show ?thesis by (simp add: resilientFeed_def bufferFeed_result [OF m] resilient_log_def)
  next
    case (Inr es)
    have "concat (map (\<lambda>e. [Inr e]) es) = (map Inr es :: item list)" by (induction es) simp_all
    then show ?thesis
      using Inr by (simp add: resilientFeed_def bufferFeed_result [OF m] resilient_log_def iter log_yield_seq
          comp_def del: seq_of.simps)
  qed
  then show ?thesis
    unfolding CollectResilient_def by (intro seq_for_log) (use assms in blast)
qed

text \<open>Concatenation keeps the order of the streams.\<close>

lemma ConcatEntries_seq_of: "ConcatEntries (map seq_of xss) = (seq_of (concat xss) :: (item, 's) seq)"
proof -
  have single: "concat (map (\<lambda>x. [x]) xs) = xs" for xs :: "item list" by (induction xs) simp_all
  have y: "seq_yield = (\<lambda>x. (seq_of [x] :: (item, 's) seq))"
    by (intro ext) (simp add: seq_yield_def split: prod.split)
  have "seq_range (seq_of xs) seq_yield = (seq_of xs :: (item, 's) seq)" for xs
    unfolding y seq_range_eq single ..
  then show ?thesis unfolding ConcatEntries_def by (induction xss) (simp_all add: iter)
qed

section \<open>Examples\<close>

text \<open>A feed in the schema of the mirror, opened by a source that is a function.\<close>

definition mirror_feed :: "string \<Rightarrow> string \<Rightarrow> (string \<Rightarrow> error + reader) \<Rightarrow> logged Feed" where
  "mirror_feed provider ref src = \<lparr>Ref = ref, FeedSource = logged_source src, FeedParse = ParseRezmoss provider\<rparr>"

lemma mirror_feed_models: "models (mirror_feed provider ref src) src (ParseRezmoss_items provider)"
  by (simp add: models_def mirror_feed_def rezmoss_feed.parse_items)


definition sample_script :: "string \<Rightarrow> error + reader" where
  "sample_script ref = (if ref = ''down'' then Inl (LibErr ''timeout'' []) else Inr (Reader (one_element @ '']'') None))"

definition sample_resolve :: "logged PluginSource" where
  "sample_resolve p = [mirror_feed (Name p) ''down'' sample_script, mirror_feed (Name p) ''up'' sample_script]"

lemma sample_simps [simp]:
  "Name (sample_plugin n) = n" "Ref (mirror_feed p ref src) = ref"
  "sample_resolve (sample_plugin n) = [mirror_feed n ''down'' sample_script, mirror_feed n ''up'' sample_script]"
  by (simp_all add: sample_plugin_def mirror_feed_def sample_resolve_def)

theorem Collect_log_witness:
  "\<exists>e. Collect [sample_plugin ''aws''] sample_resolve log_yield ([], [], None) =
     (True, [Opened ''down'', Yielded (Inl (Errorf ''%s: open %s: %w'' [S ''aws'', S ''down'', E (LibErr ''timeout'' [])])),
       Opened ''up'', Yielded (Inr e), ReaderClosed ''up''], [], None)"
proof -
  obtain e where e: "ParseRezmoss_items ''aws'' ''up'' (Reader (one_element @ '']'') None) = [Inr e]"
    using ParseRezmoss_truncated [of "''aws''" "''up''"] by blast
  have "\<forall>p \<in> set [sample_plugin ''aws'']. \<forall>f \<in> set (sample_resolve p).
      models f sample_script (ParseRezmoss_items ''aws'')"
    using mirror_feed_models by simp
  note Collect_log [OF this, of "[]" "([], None)"]
  then show ?thesis
    using e by (simp add: collect_log_def sample_script_def tag_item_def)
qed

theorem CollectResilient_isolates_witness:
  "\<exists>e. CollectResilient [sample_plugin ''aws''] sample_resolve (Some (\<lambda>failure. note_event (Failed failure)))
      log_yield ([], [], None) =
     (True, [Opened ''down'', Failed \<lparr>FailedProvider = ''aws'', FailedRef = ''down'', Err = LibErr ''timeout'' []\<rparr>,
       Opened ''up'', ReaderClosed ''up'', Yielded (Inr e)], [], None)"
proof -
  obtain e where e: "ParseRezmoss_items ''aws'' ''up'' (Reader (one_element @ '']'') None) = [Inr e]"
    using ParseRezmoss_truncated [of "''aws''" "''up''"] by blast
  have "\<forall>p \<in> set [sample_plugin ''aws'']. \<forall>f \<in> set (sample_resolve p).
      models f sample_script (ParseRezmoss_items ''aws'')"
    using mirror_feed_models by simp
  note CollectResilient_isolates [OF this, of "[]" "([], None)"]
  then show ?thesis
    using e by (simp add: resilient_log_def feed_result_def sample_script_def)
qed

end
