(* ===== verification/Threat_Feeds.thy ===== *)
theory Threat_Feeds
  imports Cloud_Feeds Asn Pipeline
begin

text \<open>
  The parsers of the reputation feeds (\<open>plugins/reputation/feodo\<close>, \<open>spamhaus\<close>, \<open>tor\<close>) and of the
  IP-to-AS table (\<open>plugins/asn/iptoasn\<close>), and the plugins that register themselves.
\<close>

section \<open>Feodo\<close>

record feodoEntry =
  feIPAddress :: string
  fePort :: int
  feStatus :: string
  feFirstSeen :: string
  feLastOnline :: string
  feMalware :: string

definition feodo_fields :: "feodoEntry fields" where
  "feodo_fields =
     [(''ip_address'', dec_string (\<lambda>s r. r\<lparr>feIPAddress := s\<rparr>)),
      (''port'', dec_int (\<lambda>n r. r\<lparr>fePort := n\<rparr>)),
      (''status'', dec_string (\<lambda>s r. r\<lparr>feStatus := s\<rparr>)),
      (''first_seen'', dec_string (\<lambda>s r. r\<lparr>feFirstSeen := s\<rparr>)),
      (''last_online'', dec_string (\<lambda>s r. r\<lparr>feLastOnline := s\<rparr>)),
      (''malware'', dec_string (\<lambda>s r. r\<lparr>feMalware := s\<rparr>))]"

definition decode_feodo :: "reader \<Rightarrow> error + feodoEntry list" where
  "decode_feodo = decode_document (\<lambda>v. dec_slice (\<lambda>v. decode_struct ''entry'' feodo_fields v
     \<lparr>feIPAddress = [], fePort = 0, feStatus = [], feFirstSeen = [], feLastOnline = [], feMalware = []\<rparr>)
     (\<lambda>es _. es) v [])"

definition hostPrefix :: "addr \<Rightarrow> prefix" where
  "hostPrefix a = PrefixFrom a (int (BitLen a))"

fun feodoTime :: "string list \<Rightarrow> gotime" where
  "feodoTime [] = zeroTime"
| "feodoTime (s # ss) = (case first_layout [DateTime, date_layout] s of Some t \<Rightarrow> t | None \<Rightarrow> feodoTime ss)"

definition feodo_entry :: "string \<Rightarrow> feodoEntry \<Rightarrow> (item, 's) seq" where
  "feodo_entry ref e = (case ParseAddr (feIPAddress e) of
     Inl err \<Rightarrow> seq_yield (Inl err)
   | Inr addr \<Rightarrow>
       (let ext = Map.empty;
            ext = (if feMalware e \<noteq> [] then ext(''malware'' \<mapsto> feMalware e) else ext);
            ext = (if feStatus e \<noteq> [] then ext(''status'' \<mapsto> feStatus e) else ext);
            ext = (if fePort e \<noteq> 0 then ext(''port'' \<mapsto> FormatInt (fePort e)) else ext);
            r = zeroRecord\<lparr>Provider := ''abuse.ch'', Categories := [''botnet_c2'', ''malware''], Source := ref,
              SyncedAt := feodoTime [feLastOnline e, feFirstSeen e], Ext := ext\<rparr>
        in seq_yield (Inr \<lparr>Network = hostPrefix addr, Rec = r\<rparr>)))"

definition feodo_Parse :: "'s ParseFunc" where
  "feodo_Parse ref r = (case decode_feodo r of
     Inl err \<Rightarrow> seq_yield (Inl err)
   | Inr doc \<Rightarrow> seq_for doc (feodo_entry ref))"

section \<open>Spamhaus DROP\<close>

definition splitDROP :: "string \<Rightarrow> string \<times> string" where
  "splitDROP line = (case index_byte line (CHR '';'') of
     Some i \<Rightarrow> (TrimSpace (take i line), TrimSpace (drop (i + 1) line))
   | None \<Rightarrow> (TrimSpace line, []))"

definition spamhaus_line :: "string \<Rightarrow> string \<Rightarrow> (item, 's) seq" where
  "spamhaus_line ref text =
     (let line = TrimSpace text in
      if line = [] \<or> has_prefix line '';'' then seq_nil
      else let (cidr, sbl) = splitDROP line in
        (case ParsePrefix cidr of
           Inl err \<Rightarrow> seq_yield (Inl err)
         | Inr pre \<Rightarrow>
             (let ext = (if sbl \<noteq> [] then [''sbl'' \<mapsto> sbl] else Map.empty);
                  r = zeroRecord\<lparr>Provider := ''spamhaus'', Categories := [''drop'', ''hijacked''], Source := ref, Ext := ext\<rparr>
              in seq_yield (Inr \<lparr>Network = pre, Rec = r\<rparr>))))"

text \<open>\<open>for sc.Scan() { ... }\<close> followed by the check of \<open>sc.Err()\<close>.\<close>

definition scan_feed :: "(string \<Rightarrow> (item, 's) seq) \<Rightarrow> reader \<Rightarrow> (item, 's) seq" where
  "scan_feed body r = (case scan_lines MaxScanTokenSize r of
     (lines, err) \<Rightarrow> seq_then (seq_for lines body)
       (case err of Some e \<Rightarrow> seq_yield (Inl e) | None \<Rightarrow> seq_nil))"

definition spamhaus_Parse :: "'s ParseFunc" where
  "spamhaus_Parse ref r = scan_feed (spamhaus_line ref) r"

section \<open>Tor\<close>

definition tor_line :: "string \<Rightarrow> string \<Rightarrow> (item, 's) seq" where
  "tor_line ref text =
     (let line = TrimSpace text in
      if line = [] \<or> has_prefix line ''#'' then seq_nil
      else (case ParseAddr line of
          Inl err \<Rightarrow> seq_yield (Inl err)
        | Inr addr \<Rightarrow> seq_yield (Inr \<lparr>Network = PrefixFrom addr (int (BitLen addr)),
            Rec = zeroRecord\<lparr>Provider := ''tor'', Categories := [''tor_exit'', ''anonymizer''], Source := ref\<rparr>\<rparr>)))"

definition tor_Parse :: "'s ParseFunc" where
  "tor_Parse ref r = scan_feed (tor_line ref) r"

section \<open>The IP-to-AS table\<close>

text \<open>
  One line: nothing, or a row. (The source also interns the organisation strings, which
  changes no value.)
\<close>

definition table_line :: "int \<Rightarrow> string \<Rightarrow> error + ASNRange option" where
  "table_line line raw =
     (let text = TrimSpace raw in
      if text = [] \<or> has_prefix text ''#'' then Inr None
      else let fields = split_char (CHR 0x09) text in
        if length fields < 3
        then Inl (Errorf ''ip2asn line %d: %d fields, want at least 3'' [I line, I (int (length fields))])
        else (case ParseUint (fields ! 2) 32 of
          Inl err \<Rightarrow> Inl (Errorf ''ip2asn line %d: as_number %q: %w'' [I line, S (fields ! 2), E err])
        | Inr asn \<Rightarrow>
            if asn = 0 then Inr None
            else (case ParseAddr (fields ! 0) of
                Inl err \<Rightarrow> Inl (Errorf ''ip2asn line %d: range_start: %w'' [I line, E err])
              | Inr lo \<Rightarrow> (case ParseAddr (fields ! 1) of
                  Inl err \<Rightarrow> Inl (Errorf ''ip2asn line %d: range_end: %w'' [I line, E err])
                | Inr hi \<Rightarrow>
                    (let org = (if length fields \<ge> 5 then fields ! 4 else [])
                     in Inr (Some \<lparr>First = lo, Last = hi, ASN = word_of_int asn, Org = org\<rparr>))))))"

fun table_loop :: "int \<Rightarrow> string list \<Rightarrow> ASNRange list \<Rightarrow> error + ASNRange list" where
  "table_loop line [] rows = Inr rows"
| "table_loop line (l # ls) rows = (case table_line line l of
     Inl err \<Rightarrow> Inl err
   | Inr None \<Rightarrow> table_loop (line + 1) ls rows
   | Inr (Some row) \<Rightarrow> table_loop (line + 1) ls (rows @ [row]))"

definition ParseTable :: "'s platform \<Rightarrow> reader \<Rightarrow> error + ASNRange list" where
  "ParseTable P r =
     (case (if take 2 (content r) = [CHR 0x1f, CHR 0x8b] then Gunzip P r else Inr r) of
        Inl err \<Rightarrow> Inl (Errorf ''gunzip ip2asn: %w'' [E err])
      | Inr br \<Rightarrow>
          (case scan_lines 1048576 br of
             (lines, err) \<Rightarrow> (case table_loop 1 lines [] of
                 Inl e \<Rightarrow> Inl e
               | Inr rows \<Rightarrow> (case err of
                   Some e \<Rightarrow> Inl (Errorf ''read ip2asn: %w'' [E e])
                 | None \<Rightarrow> Inr rows))))"

text \<open>The rows of a table as entries; \<open>exts\<close> holds the ext map of every AS met so far.\<close>

fun iptoasn_rows :: "netipx \<Rightarrow> string \<Rightarrow> (32 word \<rightharpoonup> (string \<rightharpoonup> string)) \<Rightarrow> ASNRange list \<Rightarrow> (item, 's) seq" where
  "iptoasn_rows X ref exts [] = seq_nil"
| "iptoasn_rows X ref exts (row # rows) =
     (let ext = (case exts (ASN row) of
            Some ext \<Rightarrow> ext
          | None \<Rightarrow>
              (let ext = [ExtASN \<mapsto> FormatUint (uint (ASN row))]
               in if Org row \<noteq> [] then ext(ExtASOrg \<mapsto> Org row) else ext));
          exts = exts(ASN row \<mapsto> ext);
          lo = Unmap (First row); hi = Unmap (Last row)
      in seq_then
        (if \<not> RangeIsValid X lo hi
         then seq_yield (Inl (Errorf ''ip2asn: invalid range %s-%s'' [S (addr_String (First row)), S (addr_String (Last row))]))
         else seq_for (RangePrefixes X lo hi) (\<lambda>p. seq_yield (Inr \<lparr>Network = p,
           Rec = zeroRecord\<lparr>Provider := ''iptoasn'', Source := ref, Ext := ext\<rparr>\<rparr>)))
        (iptoasn_rows X ref exts rows))"

definition iptoasn_Parse :: "'p platform \<Rightarrow> netipx \<Rightarrow> row_sort \<Rightarrow> 's ParseFunc" where
  "iptoasn_Parse P X srt ref r = (case ParseTable P r of
     Inl err \<Rightarrow> seq_yield (Inl err)
   | Inr rows \<Rightarrow> iptoasn_rows X ref Map.empty (CoalesceASNRanges srt rows))"

section \<open>The lists behind the iterators\<close>

definition feodo_item :: "string \<Rightarrow> feodoEntry \<Rightarrow> item" where
  "feodo_item ref e = network_item (map_sum id hostPrefix (ParseAddr (feIPAddress e)))
     (zeroRecord\<lparr>Provider := ''abuse.ch'', Categories := [''botnet_c2'', ''malware''], Source := ref,
       SyncedAt := feodoTime [feLastOnline e, feFirstSeen e],
       Ext := (let ext = Map.empty;
            ext = (if feMalware e \<noteq> [] then ext(''malware'' \<mapsto> feMalware e) else ext);
            ext = (if feStatus e \<noteq> [] then ext(''status'' \<mapsto> feStatus e) else ext)
         in if fePort e \<noteq> 0 then ext(''port'' \<mapsto> FormatInt (fePort e)) else ext)\<rparr>)"

definition feodo_items :: "string \<Rightarrow> reader \<Rightarrow> item list" where
  "feodo_items ref r = (case decode_feodo r of Inl err \<Rightarrow> [Inl err] | Inr doc \<Rightarrow> map (feodo_item ref) doc)"

text \<open>The lines that count: trimmed, neither empty nor a comment.\<close>

definition significant :: "string \<Rightarrow> string list \<Rightarrow> string list" where
  "significant comment ls = filter (\<lambda>l. l \<noteq> [] \<and> \<not> has_prefix l comment) (map TrimSpace ls)"

definition scan_items :: "string \<Rightarrow> (string \<Rightarrow> item) \<Rightarrow> reader \<Rightarrow> item list" where
  "scan_items comment f r = (case scan_lines MaxScanTokenSize r of
     (lines, err) \<Rightarrow> map f (significant comment lines) @ (case err of Some e \<Rightarrow> [Inl e] | None \<Rightarrow> []))"

definition spamhaus_item :: "string \<Rightarrow> string \<Rightarrow> item" where
  "spamhaus_item ref line = network_item (ParsePrefix (fst (splitDROP line)))
     (zeroRecord\<lparr>Provider := ''spamhaus'', Categories := [''drop'', ''hijacked''], Source := ref,
       Ext := (if snd (splitDROP line) \<noteq> [] then [''sbl'' \<mapsto> snd (splitDROP line)] else Map.empty)\<rparr>)"

definition tor_item :: "string \<Rightarrow> string \<Rightarrow> item" where
  "tor_item ref line = network_item (map_sum id hostPrefix (ParseAddr line))
     (zeroRecord\<lparr>Provider := ''tor'', Categories := [''tor_exit'', ''anonymizer''], Source := ref\<rparr>)"

lemma seq_host_item:
  "(case x of Inl err \<Rightarrow> seq_yield (Inl err) | Inr a \<Rightarrow> seq_yield (Inr \<lparr>Network = hostPrefix a, Rec = r\<rparr>)) =
    seq_of [network_item (map_sum id hostPrefix x) r]"
  by (simp add: network_item_def seq_yield_eq del: seq_of.simps split: sum.split)

lemma host_item_wf:
  "Inr e = network_item (map_sum id hostPrefix (ParseAddr s)) r \<Longrightarrow> prefix_wf (Network e) \<and> Rec e = r"
  using host_of_ParseAddr by (cases "ParseAddr s") (auto simp: network_item_def hostPrefix_def)

lemma feodo_entry_item: "feodo_entry ref = (\<lambda>e. seq_of [feodo_item ref e])"
  unfolding feodo_entry_def feodo_item_def Let_def seq_host_item ..

lemma scan_feed_items:
  assumes "\<And>l. body l = (if TrimSpace l = [] \<or> has_prefix (TrimSpace l) comment then seq_of [] else seq_of [f (TrimSpace l)])"
  shows "scan_feed body r = seq_of (scan_items comment f r)"
proof -
  have b: "body = (\<lambda>l. seq_of (map f (significant comment [l])))"
    using assms by (intro ext) (simp add: significant_def)
  have "concat (map (\<lambda>l. map f (significant comment [l])) ls) = map f (significant comment ls)" for ls
    by (induction ls) (simp_all add: significant_def)
  then show ?thesis
    unfolding scan_feed_def scan_items_def b seq_for_eq
    by (simp add: iter del: seq_of.simps split: prod.split option.split)
qed

lemma spamhaus_items: "scan_feed (spamhaus_line ref) r = seq_of (scan_items '';'' (spamhaus_item ref) r)"
  by (rule scan_feed_items)
    (simp only: spamhaus_line_def spamhaus_item_def Let_def case_prod_beta seq_network_item seq_nil_eq)

lemma tor_items: "scan_feed (tor_line ref) r = seq_of (scan_items ''#'' (tor_item ref) r)"
  by (rule scan_feed_items)
    (simp only: tor_line_def tor_item_def Let_def seq_host_item seq_nil_eq hostPrefix_def [symmetric])

interpretation feodo_feed: feed_parser feodo_Parse feodo_items "{''abuse.ch''}"
proof unfold_locales
  show "feodo_Parse ref r = seq_of (feodo_items ref r)" for ref r
    by (cases "decode_feodo r")
       (simp_all only: feodo_Parse_def feodo_items_def feodo_entry_item seq_for_eq concat_singletons seq_yield_eq sum.case)
  show "prefix_wf (Network e) \<and> Source (Rec e) = ref \<and> Provider (Rec e) \<in> {''abuse.ch''}"
    if "Inr e \<in> set (feodo_items ref r)" for e ref r
    using that by (auto simp: feodo_items_def feodo_item_def dest!: host_item_wf split: sum.splits)
qed

interpretation spamhaus_feed: feed_parser spamhaus_Parse "\<lambda>ref. scan_items '';'' (spamhaus_item ref)" "{''spamhaus''}"
proof unfold_locales
  show "spamhaus_Parse ref r = seq_of (scan_items '';'' (spamhaus_item ref) r)" for ref r
    unfolding spamhaus_Parse_def by (rule spamhaus_items)
  show "prefix_wf (Network e) \<and> Source (Rec e) = ref \<and> Provider (Rec e) \<in> {''spamhaus''}"
    if "Inr e \<in> set (scan_items '';'' (spamhaus_item ref) r)" for e ref r
    using that
    by (auto simp: scan_items_def spamhaus_item_def dest!: network_item_wf split: prod.splits option.splits)
qed

interpretation tor_feed: feed_parser tor_Parse "\<lambda>ref. scan_items ''#'' (tor_item ref)" "{''tor''}"
proof unfold_locales
  show "tor_Parse ref r = seq_of (scan_items ''#'' (tor_item ref) r)" for ref r
    unfolding tor_Parse_def by (rule tor_items)
  show "prefix_wf (Network e) \<and> Source (Rec e) = ref \<and> Provider (Rec e) \<in> {''tor''}"
    if "Inr e \<in> set (scan_items ''#'' (tor_item ref) r)" for e ref r
    using that by (auto simp: scan_items_def tor_item_def dest!: host_item_wf split: prod.splits option.splits)
qed

section \<open>The AS table as a feed\<close>

definition row_ext :: "ASNRange \<Rightarrow> (string \<rightharpoonup> string)" where
  "row_ext row = (let ext = [ExtASN \<mapsto> FormatUint (uint (ASN row))]
     in if Org row \<noteq> [] then ext(ExtASOrg \<mapsto> Org row) else ext)"

definition row_items :: "netipx \<Rightarrow> string \<Rightarrow> (string \<rightharpoonup> string) \<Rightarrow> ASNRange \<Rightarrow> item list" where
  "row_items X ref ext row =
     (if \<not> RangeIsValid X (Unmap (First row)) (Unmap (Last row))
      then [Inl (Errorf ''ip2asn: invalid range %s-%s'' [S (addr_String (First row)), S (addr_String (Last row))])]
      else map (\<lambda>p. Inr \<lparr>Network = p, Rec = zeroRecord\<lparr>Provider := ''iptoasn'', Source := ref, Ext := ext\<rparr>\<rparr>)
        (RangePrefixes X (Unmap (First row)) (Unmap (Last row))))"

text \<open>The row that met an AS first.\<close>

definition first_of :: "ASNRange list \<Rightarrow> ASNRange \<Rightarrow> ASNRange" where
  "first_of rows row = (case find (\<lambda>q. ASN q = ASN row) rows of Some q \<Rightarrow> q | None \<Rightarrow> row)"

lemma find_append: "find P (xs @ ys) = (case find P xs of None \<Rightarrow> find P ys | Some x \<Rightarrow> Some x)"
  by (induction xs) auto

lemma iptoasn_rows_step:
  assumes "ext = (case exts (ASN row) of Some e \<Rightarrow> e | None \<Rightarrow> row_ext row)"
  shows "iptoasn_rows X ref exts (row # rows) =
    seq_then (seq_of (row_items X ref ext row)) (iptoasn_rows X ref (exts(ASN row \<mapsto> ext)) rows)"
proof -
  have main: "iptoasn_rows X ref exts (row # rows) =
    (let e = (case exts (ASN row) of Some e \<Rightarrow> e | None \<Rightarrow> row_ext row)
     in seq_then (seq_of (row_items X ref e row)) (iptoasn_rows X ref (exts(ASN row \<mapsto> e)) rows))"
    unfolding iptoasn_rows.simps row_ext_def row_items_def Let_def seq_yield_eq seq_for_eq concat_singletons
    by (simp only: if_distrib [of seq_of])
  show ?thesis
    unfolding main Let_def assms [symmetric] ..
qed

lemma iptoasn_rows_seen:
  assumes "\<And>a. exts a = map_option row_ext (find (\<lambda>q. ASN q = a) seen)"
  shows "iptoasn_rows X ref exts rows =
    seq_of (concat (map (\<lambda>row. row_items X ref (row_ext (first_of (seen @ rows) row)) row) rows))"
  using assms
proof (induction rows arbitrary: exts seen)
  case (Cons row rows)
  define ext where "ext = row_ext (first_of (seen @ row # rows) row)"
  have ext: "ext = (case exts (ASN row) of Some e \<Rightarrow> e | None \<Rightarrow> row_ext row)"
    unfolding ext_def Cons.prems first_of_def find_append
    by (cases "find (\<lambda>q. ASN q = ASN row) seen") simp_all
  have upd: "(exts(ASN row \<mapsto> ext)) a = map_option row_ext (find (\<lambda>q. ASN q = a) (seen @ [row]))" for a
    unfolding ext Cons.prems find_append
    by (cases "find (\<lambda>q. ASN q = a) seen"; cases "a = ASN row") auto
  show ?case
    unfolding iptoasn_rows_step [where exts = exts and row = row and ext = ext, OF ext] Cons.IH [OF upd]
    by (simp add: ext_def iter del: seq_of.simps)
qed (simp add: seq_nil_eq del: seq_of.simps)

text \<open>
  C38. In the standalone AS database, every row of the coalesced table yields the prefixes of its
  range (or one error), in order; but the ext map is that of the first row of the same AS, so
  a later row of the AS with another description is published under the first description.
\<close>

theorem iptoasn_entries:
  "iptoasn_rows X ref Map.empty rows =
    seq_of (concat (map (\<lambda>row. row_items X ref (row_ext (first_of rows row)) row) rows))"
  using iptoasn_rows_seen [of Map.empty "[]"] by simp

section \<open>What the feeds promise\<close>

definition sound_feed :: "'s ParseFunc \<Rightarrow> string \<Rightarrow> bool" where
  "sound_feed parse provider \<longleftrightarrow> (\<forall>ref r. \<exists>items. parse ref r = seq_of items \<and>
     (\<forall>e. Inr e \<in> set items \<longrightarrow> prefix_wf (Network e) \<and> Source (Rec e) = ref \<and> Provider (Rec e) = provider))"

lemma sound_feedI:
  assumes "\<And>ref r. parse ref r = seq_of (items ref r)"
    and "\<And>e ref r. Inr e \<in> set (items ref r) \<Longrightarrow>
      prefix_wf (Network e) \<and> Source (Rec e) = ref \<and> Provider (Rec e) = p"
  shows "sound_feed parse p"
  unfolding sound_feed_def using assms by (intro allI exI conjI impI) auto

context feed_parser begin

lemma sound:
  assumes "providers = {p}"
  shows "sound_feed parse p"
  using sound_feedI [of parse items p] parse_items entry_ok assms by auto

end

definition iptoasn_items :: "'p platform \<Rightarrow> netipx \<Rightarrow> row_sort \<Rightarrow> string \<Rightarrow> reader \<Rightarrow> item list" where
  "iptoasn_items P X srt ref r = (case ParseTable P r of
     Inl err \<Rightarrow> [Inl err]
   | Inr rs \<Rightarrow> (let rows = CoalesceASNRanges srt rs
       in concat (map (\<lambda>row. row_items X ref (row_ext (first_of rows row)) row) rows)))"

lemma iptoasn_Parse_items: "iptoasn_Parse P X srt ref r = seq_of (iptoasn_items P X srt ref r)"
proof (cases "ParseTable P r")
  case (Inl err)
  then show ?thesis by (simp add: iptoasn_Parse_def iptoasn_items_def seq_yield_eq del: seq_of.simps)
next
  case (Inr rs)
  then show ?thesis
    using iptoasn_rows_seen [of Map.empty "[]" X ref "CoalesceASNRanges srt rs"]
    by (simp add: iptoasn_Parse_def iptoasn_items_def Let_def del: seq_of.simps)
qed

lemma row_items_ok:
  assumes "netipx_contract X" "Inr e \<in> set (row_items X ref ext row)"
  shows "prefix_wf (Network e) \<and> Source (Rec e) = ref \<and> Provider (Rec e) = ''iptoasn''"
  using assms by (auto simp: row_items_def netipx_contract_def split: if_splits)

lemma iptoasn_sound:
  assumes "netipx_contract X"
  shows "sound_feed (iptoasn_Parse P X srt) ''iptoasn''"
proof (rule sound_feedI)
  show "iptoasn_Parse P X srt ref r = seq_of (iptoasn_items P X srt ref r)" for ref r
    by (rule iptoasn_Parse_items)
  show "prefix_wf (Network e) \<and> Source (Rec e) = ref \<and> Provider (Rec e) = ''iptoasn''"
    if e: "Inr e \<in> set (iptoasn_items P X srt ref r)" for e ref r
  proof (cases "ParseTable P r")
    case (Inl err)
    then show ?thesis using e by (simp add: iptoasn_items_def)
  next
    case (Inr rs)
    then obtain ext row where "Inr e \<in> set (row_items X ref ext row)"
      using e by (auto simp: iptoasn_items_def Let_def)
    then show ?thesis by (rule row_items_ok [OF assms])
  qed
qed

text \<open>
  C32. Every parser of the program is the iterator of a list that depends on the ref and the
  bytes alone, whatever the bytes are; each entry in it has a valid network without zone, the
  ref as its source and the parser's provider. So no feed can make \<open>Build\<close> fail with an invalid
  network.
\<close>

theorem all_feeds_sound:
  assumes "netipx_contract X"
  shows "sound_feed aws_Parse ''aws'' \<and> sound_feed azure_Parse ''azure'' \<and> sound_feed gcp_Parse ''gcp'' \<and>
    sound_feed feodo_Parse ''abuse.ch'' \<and> sound_feed spamhaus_Parse ''spamhaus'' \<and> sound_feed tor_Parse ''tor'' \<and>
    sound_feed (iptoasn_Parse P X srt) ''iptoasn'' \<and> sound_feed (ParseRezmoss provider) provider"
  by (intro conjI aws_feed.sound azure_feed.sound gcp_feed.sound feodo_feed.sound spamhaus_feed.sound
      tor_feed.sound iptoasn_sound assms rezmoss_feed.sound refl)

theorem all_feeds_sound_witness:
  "sound_feed (tor_Parse :: unit ParseFunc) ''tor'' \<and>
   sound_feed (iptoasn_Parse scripted host_netipx stable_sort :: unit ParseFunc) ''iptoasn''"
  by (intro conjI all_feeds_sound [OF host_netipx_contract, THEN conjunct2, THEN conjunct2, THEN conjunct2,
      THEN conjunct2, THEN conjunct2, THEN conjunct1] all_feeds_sound [OF host_netipx_contract, THEN conjunct2,
      THEN conjunct2, THEN conjunct2, THEN conjunct2, THEN conjunct2, THEN conjunct2, THEN conjunct1])

end
