(* ===== verification/Plugin_Set.thy ===== *)
theory Plugin_Set
  imports Threat_Feeds
begin

text \<open>
  The plugins the program ships with (\<open>plugins/*\<close>), as the records their methods make, and the
  registries their \<open>init\<close> functions fill (the packages \<open>plugins/all\<close>, \<open>plugins/reputation/all\<close>
  and \<open>plugins/asn/all\<close> import them for that effect).
\<close>

section \<open>The plugins\<close>

definition aws_plugin :: "'s Plugin" where
  "aws_plugin = \<lparr>Name = ''aws'', Refs = [''aws/ip-ranges.json''], Parse = aws_Parse,
     DirectRefs = Some [''https://ip-ranges.amazonaws.com/ip-ranges.json''], PluginRezmossRefs = None\<rparr>"

definition azure_plugin :: "'s Plugin" where
  "azure_plugin = \<lparr>Name = ''azure'', Refs = [''azure/ServiceTags_Public.json''], Parse = azure_Parse,
     DirectRefs = None, PluginRezmossRefs = None\<rparr>"

definition gcp_plugin :: "'s Plugin" where
  "gcp_plugin = \<lparr>Name = ''gcp'', Refs = [''gcp/cloud.json''], Parse = gcp_Parse,
     DirectRefs = Some [''https://www.gstatic.com/ipranges/cloud.json''],
     PluginRezmossRefs = Some [''googlecloud/googlecloud_ips.json'']\<rparr>"

definition feodo_plugin :: "'s Plugin" where
  "feodo_plugin = \<lparr>Name = ''feodo'', Refs = [''feodo/ipblocklist.json''], Parse = feodo_Parse,
     DirectRefs = Some [''https://feodotracker.abuse.ch/downloads/ipblocklist.json''], PluginRezmossRefs = None\<rparr>"

definition spamhaus_plugin :: "'s Plugin" where
  "spamhaus_plugin = \<lparr>Name = ''spamhaus'', Refs = [''spamhaus/drop.txt''], Parse = spamhaus_Parse,
     DirectRefs = Some [''https://www.spamhaus.org/drop/drop.txt''], PluginRezmossRefs = None\<rparr>"

definition tor_plugin :: "'s Plugin" where
  "tor_plugin = \<lparr>Name = ''tor'', Refs = [''tor/exit-list.txt''], Parse = tor_Parse,
     DirectRefs = Some [''https://check.torproject.org/torbulkexitlist''], PluginRezmossRefs = None\<rparr>"

definition iptoasn_plugin :: "'s platform \<Rightarrow> netipx \<Rightarrow> row_sort \<Rightarrow> 's Plugin" where
  "iptoasn_plugin P X srt = \<lparr>Name = ''iptoasn'', Refs = [''iptoasn/ip2asn-combined.tsv''],
     Parse = iptoasn_Parse P X srt,
     DirectRefs = Some [''https://iptoasn.com/data/ip2asn-combined.tsv.gz''], PluginRezmossRefs = None\<rparr>"

section \<open>The registries after initialisation\<close>

definition no_plugins :: "'s registries" where
  "no_plugins = \<lparr>registry = [], reputationRegistry = [], asnRegistry = []\<rparr>"

definition init_cloud :: "'s registries \<Rightarrow> 's registries" where
  "init_cloud g = Register gcp_plugin (Register azure_plugin (Register aws_plugin g))"

definition init_reputation :: "'s registries \<Rightarrow> 's registries" where
  "init_reputation g = RegisterReputation tor_plugin
     (RegisterReputation spamhaus_plugin (RegisterReputation feodo_plugin g))"

definition init_asn :: "'s platform \<Rightarrow> netipx \<Rightarrow> row_sort \<Rightarrow> 's registries \<Rightarrow> 's registries" where
  "init_asn P X srt g = RegisterASN (iptoasn_plugin P X srt) g"

definition registered :: "'s platform \<Rightarrow> netipx \<Rightarrow> row_sort \<Rightarrow> 's registries" where
  "registered P X srt = init_asn P X srt (init_reputation (init_cloud no_plugins))"

lemmas plugin_defs = aws_plugin_def azure_plugin_def gcp_plugin_def feodo_plugin_def spamhaus_plugin_def
  tor_plugin_def iptoasn_plugin_def

lemma registered_eq:
  "registry (registered P X srt) = [(''aws'', aws_plugin), (''azure'', azure_plugin), (''gcp'', gcp_plugin)]"
  "reputationRegistry (registered P X srt) =
     [(''feodo'', feodo_plugin), (''spamhaus'', spamhaus_plugin), (''tor'', tor_plugin)]"
  "asnRegistry (registered P X srt) = [(''iptoasn'', iptoasn_plugin P X srt)]"
  by (simp_all add: registered_def init_asn_def init_reputation_def init_cloud_def no_plugins_def
      Register_def RegisterReputation_def RegisterASN_def plugin_defs)


end
