(* ===== verification/Reader.thy ===== *)
theory Reader
  imports Builder
begin

text \<open>
  \<open>attribution/reader.go\<close>: the handle to an opened database. The reader of \<open>maxminddb\<close> (a
  third-party package) is a parameter, the record \<open>maxminddb\<close> of the operations used; \<open>'h\<close> is
  its reader and \<open>'w\<close> the state of the file system it opens and closes files in.
\<close>

section \<open>The package maxminddb\<close>

record lookup_result =
  ResErr :: "error option"
  Found :: bool
  Offset :: "64 word"
  ResPrefix :: prefix

record metadata =
  MetaDatabaseType :: string
  NodeCount :: nat
  RecordBits :: nat
  MetaBuildTime :: gotime

text \<open>The identity part of a record, all that \<open>LookupProvider\<close> decodes.\<close>

record miniRecord =
  miniProvider :: string
  miniRegion :: string

record ('h, 'w) maxminddb =
  OpenReader :: "string \<Rightarrow> 'w \<Rightarrow> (error + 'h) \<times> 'w"
  OpenReaderBytes :: "string \<Rightarrow> error + 'h"
  CloseReader :: "'h \<Rightarrow> 'w \<Rightarrow> error option \<times> 'w"
  ReaderMetadata :: "'h \<Rightarrow> metadata"
  LookupAddr :: "'h \<Rightarrow> addr \<Rightarrow> lookup_result"
  ReaderNetworks :: "'h \<Rightarrow> lookup_result list"
  DecodeStored :: "'h \<Rightarrow> lookup_result \<Rightarrow> error + storedRecord"
  DecodeMini :: "'h \<Rightarrow> lookup_result \<Rightarrow> error + miniRecord"

section \<open>Opening and validating\<close>

record 'h DB =
  rdr :: 'h
  idx :: "(64 word \<rightharpoonup> miniRecord) option"

definition Open :: "('h, 'w) maxminddb \<Rightarrow> string \<Rightarrow> 'w \<Rightarrow> (error + 'h DB) \<times> 'w" where
  "Open M path w = (case OpenReader M path w of
     (Inl err, w) \<Rightarrow> (Inl (Errorf ''open mmdb %q: %w'' [S path, E err]), w)
   | (Inr r, w) \<Rightarrow> (Inr \<lparr>rdr = r, idx = None\<rparr>, w))"

definition OpenBytes :: "('h, 'w) maxminddb \<Rightarrow> string \<Rightarrow> error + 'h DB" where
  "OpenBytes M b = (case OpenReaderBytes M b of
     Inl err \<Rightarrow> Inl (Errorf ''open mmdb bytes: %w'' [E err])
   | Inr r \<Rightarrow> Inr \<lparr>rdr = r, idx = None\<rparr>)"

definition CloseDB :: "('h, 'w) maxminddb \<Rightarrow> 'h DB \<Rightarrow> 'w \<Rightarrow> error option \<times> 'w" where
  "CloseDB M d w = CloseReader M (rdr d) w"

definition Validate :: "('h, 'w) maxminddb \<Rightarrow> 'h DB \<Rightarrow> error option" where
  "Validate M d =
     (let md = ReaderMetadata M (rdr d) in
      if MetaDatabaseType md \<noteq> databaseType then
        Some (Errorf ''unexpected database_type %q, want %q'' [S (MetaDatabaseType md), S databaseType])
      else if NodeCount md = 0 then Some (Errorf ''database has no nodes'' [])
      else None)"

definition OpenValidated :: "('h, 'w) maxminddb \<Rightarrow> string \<Rightarrow> 'w \<Rightarrow> (error + 'h DB) \<times> 'w" where
  "OpenValidated M path w = (case Open M path w of
     (Inl err, w) \<Rightarrow> (Inl err, w)
   | (Inr db, w) \<Rightarrow>
       (case Validate M db of
          Some err \<Rightarrow> (case CloseDB M db w of
            (_, w) \<Rightarrow> (Inl (Errorf ''validate %q: %w'' [S path, E err]), w))
        | None \<Rightarrow> (Inr db, w)))"

definition BuildTime :: "('h, 'w) maxminddb \<Rightarrow> 'h DB \<Rightarrow> gotime" where
  "BuildTime M d = MetaBuildTime (ReaderMetadata M (rdr d))"

definition Metadata :: "('h, 'w) maxminddb \<Rightarrow> 'h DB \<Rightarrow> metadata" where
  "Metadata M d = ReaderMetadata M (rdr d)"

section \<open>Lookups\<close>

definition unmapPrefix :: "prefix \<Rightarrow> prefix" where
  "unmapPrefix p =
     (if Is4In6 (paddr p) \<and> Bits p \<ge> 96 then PrefixFrom (Unmap (paddr p)) (Bits p - 96) else p)"

text \<open>A lookup gives an error, nothing (\<open>found\<close> is false), or the record.\<close>

definition DB_Lookup :: "('h, 'w) maxminddb \<Rightarrow> 'h DB \<Rightarrow> addr \<Rightarrow> error + Record option" where
  "DB_Lookup M d a =
     (let res = LookupAddr M (rdr d) a in
      case ResErr res of
        Some err \<Rightarrow> Inl (Errorf ''lookup %s: %w'' [S (addr_String a), E err])
      | None \<Rightarrow>
          if \<not> Found res then Inr None
          else (case DecodeStored M (rdr d) res of
              Inl err \<Rightarrow> Inl (Errorf ''decode record for %s: %w'' [S (addr_String a), E err])
            | Inr sr \<Rightarrow> Inr (Some ((toRecord sr)\<lparr>RecNetwork := unmapPrefix (ResPrefix res)\<rparr>))))"

definition LookupString :: "('h, 'w) maxminddb \<Rightarrow> 'h DB \<Rightarrow> string \<Rightarrow> error + Record option" where
  "LookupString M d s = (case ParseAddr s of
     Inl err \<Rightarrow> Inl (Errorf ''parse ip %q: %w'' [S s, E err])
   | Inr a \<Rightarrow> DB_Lookup M d a)"

definition Contains :: "('h, 'w) maxminddb \<Rightarrow> 'h DB \<Rightarrow> addr \<Rightarrow> bool" where
  "Contains M d a = Found (LookupAddr M (rdr d) a)"

definition LookupProvider :: "('h, 'w) maxminddb \<Rightarrow> 'h DB \<Rightarrow> addr \<Rightarrow> error + (string \<times> string) option" where
  "LookupProvider M d a =
     (let res = LookupAddr M (rdr d) a in
      case ResErr res of
        Some err \<Rightarrow> Inl (Errorf ''lookup %s: %w'' [S (addr_String a), E err])
      | None \<Rightarrow>
          if \<not> Found res then Inr None
          else (case idx d of
              Some index \<Rightarrow>
                (let m = (case index (Offset res) of Some m \<Rightarrow> m | None \<Rightarrow> \<lparr>miniProvider = [], miniRegion = []\<rparr>)
                 in Inr (Some (miniProvider m, miniRegion m)))
            | None \<Rightarrow>
                (case DecodeMini M (rdr d) res of
                   Inl err \<Rightarrow> Inl (Errorf ''decode provider for %s: %w'' [S (addr_String a), E err])
                 | Inr m \<Rightarrow> Inr (Some (miniProvider m, miniRegion m)))))"

fun index_loop :: "('h, 'w) maxminddb \<Rightarrow> 'h \<Rightarrow> lookup_result list \<Rightarrow> (64 word \<rightharpoonup> miniRecord) \<Rightarrow>
    error + (64 word \<rightharpoonup> miniRecord)" where
  "index_loop M h [] index = Inr index"
| "index_loop M h (res # rs) index = (case ResErr res of
     Some err \<Rightarrow> Inl (Errorf ''build index: %w'' [E err])
   | None \<Rightarrow>
       if index (Offset res) \<noteq> None then index_loop M h rs index
       else (case DecodeMini M h res of
           Inl err \<Rightarrow> Inl (Errorf ''build index decode: %w'' [E err])
         | Inr m \<Rightarrow> index_loop M h rs (index(Offset res \<mapsto> m))))"

text \<open>\<open>BuildIndex\<close> gives its error and the handle it leaves.\<close>

definition BuildIndex :: "('h, 'w) maxminddb \<Rightarrow> 'h DB \<Rightarrow> error option \<times> 'h DB" where
  "BuildIndex M d = (case index_loop M (rdr d) (ReaderNetworks M (rdr d)) Map.empty of
     Inl err \<Rightarrow> (Some err, d)
   | Inr index \<Rightarrow> (None, d\<lparr>idx := Some index\<rparr>))"

section \<open>Walking the tree\<close>

record NetworkRecord =
  NRNetwork :: prefix
  NRRecord :: Record

text \<open>The walk: after an error nothing more is yielded.\<close>

fun networks_loop :: "('h, 'w) maxminddb \<Rightarrow> 'h \<Rightarrow> lookup_result list \<Rightarrow> (error + NetworkRecord, 's) seq" where
  "networks_loop M h [] = seq_nil"
| "networks_loop M h (res # rs) = (case ResErr res of
     Some err \<Rightarrow> seq_yield (Inl err)
   | None \<Rightarrow>
       (case DecodeStored M h res of
          Inl err \<Rightarrow> seq_yield (Inl (Errorf ''decode %s: %w'' [S (prefix_String (ResPrefix res)), E err]))
        | Inr sr \<Rightarrow>
            seq_then (seq_yield (Inr \<lparr>NRNetwork = ResPrefix res, NRRecord = toRecord sr\<rparr>)) (networks_loop M h rs)))"

definition Networks :: "('h, 'w) maxminddb \<Rightarrow> 'h DB \<Rightarrow> (error + NetworkRecord, 's) seq" where
  "Networks M d = networks_loop M (rdr d) (ReaderNetworks M (rdr d))"

fun walk_items :: "('h, 'w) maxminddb \<Rightarrow> 'h \<Rightarrow> lookup_result list \<Rightarrow> (error + NetworkRecord) list" where
  "walk_items M h [] = []"
| "walk_items M h (res # rs) = (case ResErr res of
     Some err \<Rightarrow> [Inl err]
   | None \<Rightarrow>
       (case DecodeStored M h res of
          Inl err \<Rightarrow> [Inl (Errorf ''decode %s: %w'' [S (prefix_String (ResPrefix res)), E err])]
        | Inr sr \<Rightarrow> Inr \<lparr>NRNetwork = ResPrefix res, NRRecord = toRecord sr\<rparr> # walk_items M h rs))"

lemma networks_loop_items [iter]: "networks_loop M h rs = seq_of (walk_items M h rs)"
proof (induction rs)
  case (Cons res rs)
  show ?case
  proof (cases "ResErr res")
    case None
    then show ?thesis
      using Cons.IH by (cases "DecodeStored M h res") (simp_all add: iter del: seq_of.simps)
  qed (simp add: iter del: seq_of.simps)
qed (simp add: iter del: seq_of.simps)


lemma Networks_items: "Networks M d = seq_of (walk_items M (rdr d) (ReaderNetworks M (rdr d)))"
  by (simp add: Networks_def networks_loop_items)

section \<open>What the code relies on in the reader\<close>

text \<open>
  A found lookup is at the data offset of some network of the walk, and what is decoded is
  determined by the offset. Decoding the identity of a record gives the identity part of
  decoding all of it.
\<close>

definition offset_contract :: "('h, 'w) maxminddb \<Rightarrow> 'h \<Rightarrow> bool" where
  "offset_contract M h \<longleftrightarrow>
     (\<forall>a. ResErr (LookupAddr M h a) = None \<and> Found (LookupAddr M h a) \<longrightarrow>
        Offset (LookupAddr M h a) \<in> Offset ` set (ReaderNetworks M h)) \<and>
     (\<forall>r r'. Offset r = Offset r' \<longrightarrow> DecodeMini M h r = DecodeMini M h r') \<and>
     (\<forall>r sr. DecodeStored M h r = Inr sr \<longrightarrow>
        DecodeMini M h r = Inr \<lparr>miniProvider = sProvider sr, miniRegion = sRegion sr\<rparr>)"

lemma offset_contractD:
  assumes "offset_contract M h"
  shows "ResErr (LookupAddr M h a) = None \<Longrightarrow> Found (LookupAddr M h a) \<Longrightarrow>
      Offset (LookupAddr M h a) \<in> Offset ` set (ReaderNetworks M h)"
    and "Offset r = Offset r' \<Longrightarrow> DecodeMini M h r = DecodeMini M h r'"
    and "DecodeStored M h r = Inr sr \<Longrightarrow>
      DecodeMini M h r = Inr \<lparr>miniProvider = sProvider sr, miniRegion = sRegion sr\<rparr>"
  using assms unfolding offset_contract_def by blast+

text \<open>The index holds what decoding gives, for every offset of the walk.\<close>

lemma index_loop_decodes:
  assumes "\<And>r r'. Offset r = Offset r' \<Longrightarrow> DecodeMini M h r = DecodeMini M h r'"
    and "index_loop M h rs index = Inr index'"
    and "\<And>r m. index (Offset r) = Some m \<Longrightarrow> DecodeMini M h r = Inr m"
  shows "(\<forall>r m. index' (Offset r) = Some m \<longrightarrow> DecodeMini M h r = Inr m) \<and>
    dom index' = dom index \<union> Offset ` set rs"
  using assms(2,3)
proof (induction rs arbitrary: index)
  case (Cons res rs)
  have ok: "ResErr res = None" using Cons.prems(1) by (cases "ResErr res") auto
  show ?case
  proof (cases "index (Offset res)")
    case (Some m)
    then have run: "index_loop M h rs index = Inr index'" using Cons.prems(1) ok by simp
    have "Offset res \<in> dom index" using Some by blast
    then show ?thesis using Cons.IH [OF run Cons.prems(2)] by (simp add: insert_absorb)
  next
    case None
    then obtain m where m: "DecodeMini M h res = Inr m" "index_loop M h rs (index(Offset res \<mapsto> m)) = Inr index'"
      using Cons.prems(1) ok by (cases "DecodeMini M h res") auto
    have "DecodeMini M h r = Inr m'" if "(index(Offset res \<mapsto> m)) (Offset r) = Some m'" for r m'
      using that Cons.prems(2) [of r m'] m(1) assms(1) [of r res] by (auto split: if_splits)
    from Cons.IH [OF m(2) this] show ?thesis by (simp del: fun_upd_apply)
  qed
qed auto

lemma BuildIndex_decodes:
  assumes "offset_contract M (rdr d)" "BuildIndex M d = (None, d')"
    and "ResErr (LookupAddr M (rdr d) a) = None" "Found (LookupAddr M (rdr d) a)"
  obtains index m where "d' = d\<lparr>idx := Some index\<rparr>" "index (Offset (LookupAddr M (rdr d) a)) = Some m"
    "DecodeMini M (rdr d) (LookupAddr M (rdr d) a) = Inr m"
proof -
  obtain index where ix: "index_loop M (rdr d) (ReaderNetworks M (rdr d)) Map.empty = Inr index"
      "d' = d\<lparr>idx := Some index\<rparr>"
    using assms(2) by (auto simp: BuildIndex_def split: sum.splits)
  note ok = index_loop_decodes [OF offset_contractD(2) [OF assms(1)] ix(1), simplified]
  then obtain m where "index (Offset (LookupAddr M (rdr d) a)) = Some m"
    using offset_contractD(1) [OF assms(1,3,4)] by blast
  then show ?thesis using that ix(2) ok by blast
qed

section \<open>Property: the index changes nothing but the speed\<close>

text \<open>
  C14. After a successful \<open>BuildIndex\<close>, the lookup of the identity through the index gives for
  every address what decoding the record in the database gives, and never a decoding error;
  where the full lookup finds a record, it is the provider and region of that record.
\<close>

theorem LookupProvider_agrees:
  assumes "offset_contract M (rdr d)" and "idx d = None" and "BuildIndex M d = (None, d')"
  shows "LookupProvider M d' a = LookupProvider M d a \<and>
    (\<forall>rec. DB_Lookup M d a = Inr (Some rec) \<longrightarrow>
      LookupProvider M d' a = Inr (Some (Provider rec, Region rec)))"
proof (cases "ResErr (LookupAddr M (rdr d) a) = None \<and> Found (LookupAddr M (rdr d) a)")
  case False
  moreover have "rdr d' = rdr d" using assms(3) by (auto simp: BuildIndex_def split: sum.splits)
  ultimately show ?thesis
    by (cases "ResErr (LookupAddr M (rdr d) a)") (auto simp: LookupProvider_def DB_Lookup_def Let_def)
next
  case True
  then obtain index m where ix: "d' = d\<lparr>idx := Some index\<rparr>"
      "index (Offset (LookupAddr M (rdr d) a)) = Some m" "DecodeMini M (rdr d) (LookupAddr M (rdr d) a) = Inr m"
    using BuildIndex_decodes [OF assms(1,3)] by metis
  then have same: "LookupProvider M d' a = Inr (Some (miniProvider m, miniRegion m))"
      "LookupProvider M d a = Inr (Some (miniProvider m, miniRegion m))"
    using True assms(2) by (simp_all add: LookupProvider_def Let_def)
  moreover have "Provider rec = miniProvider m \<and> Region rec = miniRegion m"
    if "DB_Lookup M d a = Inr (Some rec)" for rec
    using that True ix(3) offset_contractD(3) [OF assms(1)]
    by (auto simp: DB_Lookup_def Let_def toRecord_def split: sum.splits)
  ultimately show ?thesis by simp
qed

section \<open>A reader that satisfies the contract\<close>

text \<open>
  The witnesses read a database that is the list of its networks with their records, the
  position being the offset. It is at the path \<open>''db''\<close>; the file system counts open handles.
\<close>

type_synonym table = "(prefix \<times> mmdb_map) list"

definition table_row :: "table \<Rightarrow> nat \<Rightarrow> lookup_result" where
  "table_row h i = \<lparr>ResErr = None, Found = True, Offset = word_of_nat i, ResPrefix = fst (h ! i)\<rparr>"

definition table_data :: "table \<Rightarrow> lookup_result \<Rightarrow> error + mmdb_map" where
  "table_data h r = (let i = unat (Offset r) in
     if i < length h then Inr (snd (h ! i)) else Inl (LibErr ''offset'' []))"

definition table_reader :: "table \<Rightarrow> (table, nat) maxminddb" where
  "table_reader db =
     \<lparr>OpenReader = (\<lambda>path w. if path = ''db'' then (Inr db, Suc w) else (Inl (LibErr ''no such file'' []), w)),
      OpenReaderBytes = (\<lambda>_. Inr db),
      CloseReader = (\<lambda>h w. (None, w - 1)),
      ReaderMetadata = (\<lambda>h. \<lparr>MetaDatabaseType = databaseType, NodeCount = length h, RecordBits = 28, MetaBuildTime = zeroTime\<rparr>),
      LookupAddr = (\<lambda>h a. case find (\<lambda>i. let p = fst (h ! i) in prefix_first p \<le> a \<and> a \<le> prefix_last p) [0..<length h] of
          Some i \<Rightarrow> table_row h i
        | None \<Rightarrow> \<lparr>ResErr = None, Found = False, Offset = 0, ResPrefix = zeroPrefix\<rparr>),
      ReaderNetworks = (\<lambda>h. map (table_row h) [0..<length h]),
      DecodeStored = (\<lambda>h r. map_sum id stored_of (table_data h r)),
      DecodeMini = (\<lambda>h r. map_sum id
        (\<lambda>m. \<lparr>miniProvider = str_field ''provider'' m, miniRegion = str_field ''region'' m\<rparr>) (table_data h r))\<rparr>"

lemma table_reader_offsets: "offset_contract (table_reader db) h"
proof -
  let ?M = "table_reader db"
  have found: "Offset (LookupAddr ?M h a) \<in> Offset ` set (ReaderNetworks ?M h)"
    if f: "Found (LookupAddr ?M h a)" for a
  proof -
    let ?found = "find (\<lambda>i. let p = fst (h ! i) in prefix_first p \<le> a \<and> a \<le> prefix_last p) [0..<length h]"
    obtain i where i: "?found = Some i" using f by (cases ?found) (simp_all add: table_reader_def)
    then have "i < length h" by (auto simp: find_Some_iff)
    then show ?thesis using i by (simp add: table_reader_def image_image)
  qed
  have decode: "DecodeMini ?M h r = DecodeMini ?M h r'" if "Offset r = Offset r'" for r r'
    using that by (simp add: table_reader_def table_data_def)
  have mini: "DecodeMini ?M h r = Inr \<lparr>miniProvider = sProvider sr, miniRegion = sRegion sr\<rparr>"
    if "DecodeStored ?M h r = Inr sr" for r sr
    using that by (cases "table_data h r") (auto simp: table_reader_def stored_of_def)
  show ?thesis unfolding offset_contract_def using found decode mini by blast
qed

definition sample_table :: table where
  "sample_table = [(Prefix (Addr 0xffff345e0000 Z4) 23,
     toMMDB (zeroRecord\<lparr>Provider := ''aws'', Region := ''us-east-1'', Services := [''EC2'']\<rparr>) False)]"

theorem LookupProvider_agrees_witness:
  "\<exists>d'. BuildIndex (table_reader sample_table) \<lparr>rdr = sample_table, idx = None\<rparr> = (None, d') \<and>
     LookupProvider (table_reader sample_table) d' (AddrFrom4 0x345e0102) = Inr (Some (''aws'', ''us-east-1''))"
proof -
  let ?M = "table_reader sample_table" and ?d = "\<lparr>rdr = sample_table, idx = None\<rparr>"
  obtain d' where d': "BuildIndex ?M ?d = (None, d')"
    by (simp add: BuildIndex_def table_reader_def sample_table_def table_data_def table_row_def Let_def)
  have "LookupProvider ?M ?d (AddrFrom4 0x345e0102) = Inr (Some (''aws'', ''us-east-1''))"
    by code_simp
  then show ?thesis
    using LookupProvider_agrees [OF table_reader_offsets _ d', of "AddrFrom4 0x345e0102"] d' by simp
qed

end
