(* ===== verification/Export.thy ===== *)
theory Export
  imports Reader Text
begin

text \<open>
  \<open>attribution/export.go\<close>: the warehouse export, one CSV row per network with the integer bounds
  of its range.
\<close>

section \<open>Range bounds\<close>

text \<open>The integer of an address (\<open>As4\<close> or \<open>As16\<close>, read as a big-endian number).\<close>

definition addr_int :: "addr \<Rightarrow> int" where
  "addr_int a = (if Is4 a then uint (ip a) mod 2 ^ 32 else uint (ip a))"

definition rangeBounds :: "prefix \<Rightarrow> int \<times> int" where
  "rangeBounds p =
     (let p = Masked p;
          addr = paddr p;
          bitLen = (if Is4 addr then 32 else 128);
          start = addr_int addr;
          hostBits = bitLen - Bits p;
          span = push_bit (nat hostBits) 1 - 1
      in (start, start + span))"

lemma uint_mask128: "n \<le> 128 \<Longrightarrow> uint (mask n :: 128 word) = mask n"
  by (auto intro!: bit_eqI simp: bit_simps)

lemma uint_set_mask: "n \<le> 128 \<Longrightarrow> uint (x OR mask n) = uint (x AND NOT (mask n)) + (2 ^ n - 1)" for x :: "128 word"
proof -
  assume n: "n \<le> 128"
  have "uint (x OR mask n) = uint ((x AND NOT (mask n)) OR mask n)"
    by (rule arg_cong [where f = uint]) (auto intro!: bit_eqI simp: bit_simps)
  also have "\<dots> = uint (x AND NOT (mask n)) OR mask n"
    using n by (simp only: unsigned_or_eq) (simp add: uint_mask128)
  also have "\<dots> = uint (x AND NOT (mask n)) + mask n"
    by (rule disjunctive_add [symmetric]) (auto simp: bit_simps)
  finally show ?thesis by (simp add: mask_eq_exp_minus_1)
qed

lemma uint_clear_dvd: "n \<le> 128 \<Longrightarrow> 2 ^ n dvd uint (x AND NOT (mask n))" for x :: "128 word"
proof -
  have "take_bit n (uint (x AND NOT (mask n))) = 0"
    by (rule bit_eqI) (auto simp: bit_simps)
  then show ?thesis by (simp add: take_bit_eq_mod mod_eq_0_iff_dvd)
qed

text \<open>In 32 bits: adding to a multiple of \<open>2 ^ n\<close> below \<open>2 ^ n\<close> does not carry out.\<close>

lemma mod_add_low: "2 ^ n dvd k \<Longrightarrow> n \<le> 32 \<Longrightarrow> (k + (2 ^ n - 1)) mod 2 ^ 32 = k mod 2 ^ 32 + (2 ^ n - 1)" for k :: int
proof -
  assume dvd: "2 ^ n dvd k" and n: "n \<le> 32"
  have split: "(2::int) ^ 32 = 2 ^ n * 2 ^ (32 - n)" using n by (simp flip: power_add)
  obtain q where k: "k = 2 ^ n * q" using dvd by blast
  have d: "(r + 2 ^ n * q) div 2 ^ n = q \<and> (r + 2 ^ n * q) mod 2 ^ n = r" if "0 \<le> r" "r < 2 ^ n" for r :: int
    using that by simp
  have low: "(r + 2 ^ n * q) mod 2 ^ 32 = 2 ^ n * (q mod 2 ^ (32 - n)) + r" if "0 \<le> r" "r < 2 ^ n" for r :: int
    unfolding split using d [OF that] zmod_zmult2_eq [of "2 ^ (32 - n)" "r + 2 ^ n * q" "2 ^ n"] by simp
  show ?thesis using low [of 0] low [of "2 ^ n - 1"] by (simp add: k add.commute)
qed

lemma rangeBounds_eq:
  assumes "prefix_wf p"
  shows "rangeBounds p = (addr_int (prefix_first p), addr_int (prefix_last p))"
proof -
  let ?f = "prefix_first p"
  note ends = prefix_ends_plain [OF assms]
  have bits: "0 \<le> Bits p" "Bits p \<le> int (BitLen (paddr p))" using prefix_wf_Bits [OF assms] by auto
  have kind: "z (paddr p) = Z4 \<or> z (paddr p) = Z6 []" using assms by (auto simp: prefix_wf_def plain_def)
  have "z ?f = z (paddr p)" by (simp add: prefix_first_def)
  then have m: "paddr (Masked p) = ?f" "Bits (Masked p) = Bits p"
    using bits kind unfolding Masked_eq [OF assms]
    by (auto simp: PrefixFrom_def withoutZone_def Is6_def Bits_def BitLen_def addr.expand)
  define n where "n = 128 - fixedBits p"
  have n: "n \<le> 128" "Is4 (paddr p) \<Longrightarrow> n \<le> 32" and host: "nat ((if Is4 (paddr p) then 32 else 128) - Bits p) = n"
    using bits kind by (auto simp: n_def fixedBits_def Is4_def BitLen_def)
  have ips: "ip ?f = ip (paddr p) AND NOT (mask n)" "ip (prefix_last p) = ip (paddr p) OR mask n"
    by (simp_all add: prefix_first_def prefix_last_def n_def)
  have is4: "Is4 ?f = Is4 (paddr p)" "Is4 (prefix_last p) = Is4 (paddr p)"
    by (simp_all add: Is4_def ends)
  have "addr_int (prefix_last p) = addr_int ?f + (2 ^ n - 1)"
    using n mod_add_low [OF uint_clear_dvd [OF n(1), of "ip (paddr p)"]]
    by (simp add: addr_int_def is4 ips uint_set_mask [OF n(1)])
  then show ?thesis
    by (simp add: rangeBounds_def Let_def m is4 push_bit_eq_mult host)
qed

text \<open>On the addresses of one family, \<open>addr_int\<close> is an order isomorphism onto its range.\<close>

definition addr_bits :: "addr \<Rightarrow> nat" where
  "addr_bits a = (if Is4 a then 32 else 128)"

lemma uint_mapped: "v4_mapped x \<Longrightarrow> uint x = 0xffff * 2 ^ 32 + uint x mod 2 ^ 32" for x :: "128 word"
proof -
  assume "v4_mapped x"
  then have "unat x div 4294967296 = 0xffff" by (simp add: v4_mapped_unat)
  then have "uint x div 4294967296 = 0xffff"
    by (metis of_nat_numeral of_nat_div uint_nat)
  then show ?thesis using div_mult_mod_eq [of "uint x" "2 ^ 32"] by simp
qed

lemma addr_int_le:
  assumes "plain a" "plain b" "z a = z b"
  shows "addr_int a \<le> addr_int b \<longleftrightarrow> a \<le> b"
  using plain_le [OF assms] uint_mapped [of "ip a"] uint_mapped [of "ip b"] assms
  by (auto simp: addr_int_def plain_def Is4_def word_le_def)

lemma addr_int_range: "0 \<le> addr_int a \<and> addr_int a < 2 ^ addr_bits a"
  using uint_lt2p [of "ip a"] by (simp add: addr_int_def addr_bits_def)

lemma addr_of_int:
  assumes "plain a" "0 \<le> i" "i < 2 ^ addr_bits a"
  obtains b where "plain b" "z b = z a" "addr_int b = i"
proof (cases "Is4 a")
  case True
  define b where "b = AddrFrom4 (word_of_int i)"
  have "uint (ip b) mod 2 ^ 32 = i"
  proof -
    have "take_bit 32 (uint (push_bit 32 m OR ucast (word_of_int i :: 32 word) :: 128 word)) = take_bit 32 i" for m
      by (rule bit_eqI) (auto simp: bit_simps)
    then have "take_bit 32 (uint (ip b)) = take_bit 32 i" unfolding b_def AddrFrom4_def addr.sel by blast
    then show ?thesis using assms(2,3) True by (simp add: take_bit_eq_mod addr_bits_def)
  qed
  then show ?thesis
    using that [of b] AddrFrom4_wf True by (simp add: b_def addr_int_def Is4_def AddrFrom4_def)
next
  case False
  define b where "b = Addr (word_of_int i) (z a)"
  have "uint (word_of_int i :: 128 word) = i"
    using assms(2,3) False by (simp add: addr_bits_def uint_word_of_int)
  then show ?thesis
    using that [of b] assms(1) False by (simp add: b_def addr_int_def Is4_def plain_def)
qed

text \<open>
  C35. The two integer columns of a row are exact: the integers of the addresses of the network
  are precisely those between the bounds, which fit 32 or 128 bits.
\<close>

theorem rangeBounds_exact:
  assumes "prefix_wf p"
  shows "addr_int ` prefix_span p = {fst (rangeBounds p)..snd (rangeBounds p)} \<and>
    0 \<le> fst (rangeBounds p) \<and> fst (rangeBounds p) \<le> snd (rangeBounds p) \<and>
    snd (rangeBounds p) < 2 ^ addr_bits (paddr p)"
proof -
  note ends = prefix_ends_plain [OF assms]
  have fam: "z a = z (paddr p)" if "a \<in> prefix_span p" for a
    using that in_prefix_span [OF assms] by blast
  have bits: "addr_bits a = addr_bits (paddr p)" if "z a = z (paddr p)" for a
    using that by (simp add: addr_bits_def Is4_def)
  have "i \<in> addr_int ` prefix_span p"
    if i: "addr_int (prefix_first p) \<le> i" "i \<le> addr_int (prefix_last p)" for i
  proof -
    have "i < 2 ^ addr_bits (prefix_first p)"
      using i(2) addr_int_range [of "prefix_last p"] bits [OF ends(3)] bits [OF ends(4)] by simp
    moreover have "0 \<le> i" using i(1) addr_int_range [of "prefix_first p"] by simp
    ultimately obtain b where b: "plain b" "z b = z (prefix_first p)" "addr_int b = i"
      using addr_of_int [OF ends(1)] by metis
    have "prefix_first p \<le> b" using i(1) b addr_int_le [OF ends(1) b(1)] by simp
    moreover have "b \<le> prefix_last p" using i(2) b addr_int_le [OF b(1) ends(2)] ends by simp
    ultimately show ?thesis using b by (auto simp: prefix_span_def)
  qed
  moreover have "addr_int (prefix_first p) \<le> addr_int a \<and> addr_int a \<le> addr_int (prefix_last p)"
    if "a \<in> prefix_span p" for a
    using that fam [OF that] addr_int_le ends by (auto simp: prefix_span_def)
  ultimately have "addr_int ` prefix_span p = {addr_int (prefix_first p)..addr_int (prefix_last p)}"
    by force
  moreover have "addr_int (prefix_first p) \<le> addr_int (prefix_last p)"
    using addr_int_le [OF ends(1,2)] ends prefix_first_le_last [OF assms] by simp
  ultimately show ?thesis
    using addr_int_range [of "prefix_first p"] addr_int_range [of "prefix_last p"] bits [OF ends(4)]
    by (simp add: rangeBounds_eq [OF assms])
qed

theorem rangeBounds_exact_witness:
  "rangeBounds (Prefix (AddrFrom4 0x0a0a0a07) 31) = (0x0a0a0a04, 0x0a0a0a07) \<and>
   addr_int ` prefix_span (Prefix (AddrFrom4 0x0a0a0a07) 31) = {0x0a0a0a04..0x0a0a0a07}"
proof -
  have "prefix_wf (Prefix (AddrFrom4 0x0a0a0a07) 31)"
    using AddrFrom4_wf [of "0x0a0a0a07"] by (simp add: prefix_wf_def prefix_IsValid_def BitLen_def AddrFrom4_def)
  moreover have "rangeBounds (Prefix (AddrFrom4 0x0a0a0a07) 31) = (0x0a0a0a04, 0x0a0a0a07)" by code_simp
  ultimately show ?thesis using rangeBounds_exact [of "Prefix (AddrFrom4 0x0a0a0a07) 31"] by simp
qed

section \<open>The package encoding/csv\<close>

text \<open>
  A row is its fields, quoted where needed, between commas. The writer buffers 4096 bytes; an
  error of the underlying writer sticks. (\<open>wr\<close> is \<open>io.Writer\<close>'s \<open>Write\<close>: it takes all bytes or
  fails. A field longer than the whole buffer may reach it in one piece instead of several.)
\<close>

definition csv_quotes :: "string \<Rightarrow> bool" where
  "csv_quotes f \<longleftrightarrow> f \<noteq> [] \<and>
     (f = [CHR 0x5c, CHR ''.''] \<or>
      list_ex (\<lambda>c. c \<in> {CHR 0x0a, CHR 0x0d, CHR 0x22, CHR '',''}) f \<or> list_ex (has_prefix f) spaces)"

definition csv_field :: "string \<Rightarrow> string" where
  "csv_field f =
     (if csv_quotes f then CHR 0x22 # concat (map (\<lambda>c. if c = CHR 0x22 then [c, c] else [c]) f) @ [CHR 0x22] else f)"

definition csv_line :: "string list \<Rightarrow> string" where
  "csv_line row = strings_Join (map csv_field row) '','' @ [CHR 0x0a]"

record 'w csv_writer =
  CsvOut :: 'w
  CsvBuf :: string
  CsvErr :: "error option"

type_synonym 'w byte_sink = "string \<Rightarrow> 'w \<Rightarrow> 'w \<times> error option"

definition csv_Flush :: "'w byte_sink \<Rightarrow> 'w csv_writer \<Rightarrow> 'w csv_writer" where
  "csv_Flush wr c =
     (if CsvErr c \<noteq> None \<or> CsvBuf c = [] then c
      else (case wr (CsvBuf c) (CsvOut c) of
          (w, Some err) \<Rightarrow> c\<lparr>CsvOut := w, CsvErr := Some err\<rparr>
        | (w, None) \<Rightarrow> c\<lparr>CsvOut := w, CsvBuf := []\<rparr>))"

definition csv_byte :: "'w byte_sink \<Rightarrow> char \<Rightarrow> 'w csv_writer \<Rightarrow> 'w csv_writer" where
  "csv_byte wr ch c =
     (let c = (if length (CsvBuf c) = 4096 then csv_Flush wr c else c)
      in if CsvErr c \<noteq> None then c else c\<lparr>CsvBuf := CsvBuf c @ [ch]\<rparr>)"

definition csv_Write :: "'w byte_sink \<Rightarrow> string list \<Rightarrow> 'w csv_writer \<Rightarrow> 'w csv_writer" where
  "csv_Write wr row c = fold (csv_byte wr) (csv_line row) c"

section \<open>The export\<close>

definition csvHeader :: "string list" where
  "csvHeader = [''network_cidr'', ''start_ip_int'', ''end_ip_int'',
     ''provider'', ''region'', ''services'', ''categories'', ''ipv6'', ''source'', ''synced_at'']"

definition export_row :: "NetworkRecord \<Rightarrow> string list" where
  "export_row nr =
     (case rangeBounds (NRNetwork nr) of (start, stop) \<Rightarrow>
       (let r = NRRecord nr;
            row = [prefix_String (NRNetwork nr), FormatInt start, FormatInt stop, Provider r, Region r,
              strings_Join (Services r) '','', strings_Join (Categories r) '','',
              (if IPv6 r then ''true'' else ''false''), Source r, FormatInt (sint (time_Unix (SyncedAt r)))]
        in if time_IsZero (SyncedAt r) then row[length row - 1 := ''0''] else row))"

text \<open>The loop's body on the writer, the count and the error of an early return.\<close>

definition export_body :: "'w byte_sink \<Rightarrow> (error + NetworkRecord, 'w csv_writer \<times> nat \<times> error option) yield" where
  "export_body wr it s = (case s of (c, count, ret) \<Rightarrow>
     (case it of
        Inl err \<Rightarrow> (False, (c, count, Some err))
      | Inr nr \<Rightarrow>
          (let c = csv_Write wr (export_row nr) c in
           case CsvErr c of
             Some err \<Rightarrow> (False, (c, count, Some (Errorf ''write csv row: %w'' [E err])))
           | None \<Rightarrow> (True, (c, count + 1, ret)))))"

definition ExportCSV :: "('h, 'fs) maxminddb \<Rightarrow> 'h DB \<Rightarrow> 'w byte_sink \<Rightarrow> 'w \<Rightarrow> 'w \<times> nat \<times> error option" where
  "ExportCSV M db wr w =
     (let c = csv_Write wr csvHeader \<lparr>CsvOut = w, CsvBuf = [], CsvErr = None\<rparr> in
      case CsvErr c of
        Some err \<Rightarrow> (CsvOut c, 0, Some (Errorf ''write csv header: %w'' [E err]))
      | None \<Rightarrow>
          (case Networks M db (export_body wr) (c, 0, None) of
             (_, (c, count, Some err)) \<Rightarrow> (CsvOut c, count, Some err)
           | (_, (c, count, None)) \<Rightarrow>
               (let c = csv_Flush wr c in
                case CsvErr c of
                  Some err \<Rightarrow> (CsvOut c, count, Some (Errorf ''flush csv: %w'' [E err]))
                | None \<Rightarrow> (CsvOut c, count, None))))"

section \<open>What is written\<close>

text \<open>
  A sink that takes \<open>k\<close> bytes and then fails, as a full disk does; its state is what it took.
\<close>

definition disk :: "nat \<Rightarrow> string byte_sink" where
  "disk k bs w = (if length w + length bs \<le> k then (w @ bs, None) else (take k (w @ bs), Some (LibErr ''no space left'' [])))"

definition csv_holds :: "nat \<Rightarrow> string \<Rightarrow> string csv_writer \<Rightarrow> bool" where
  "csv_holds k doc c \<longleftrightarrow> (if CsvErr c = None then CsvOut c @ CsvBuf c = doc \<and> length (CsvOut c) \<le> k
     else CsvOut c = take k doc \<and> k < length doc)"

lemma csv_Flush_holds: "csv_holds k doc c \<Longrightarrow> csv_holds k doc (csv_Flush (disk k) c)"
  by (auto simp: csv_holds_def csv_Flush_def disk_def split: if_splits)

lemma csv_byte_holds: "csv_holds k doc c \<Longrightarrow> csv_holds k (doc @ [ch]) (csv_byte (disk k) ch c)"
proof -
  assume "csv_holds k doc c"
  then have "csv_holds k doc (if length (CsvBuf c) = 4096 then csv_Flush (disk k) c else c)"
    using csv_Flush_holds by simp
  then show ?thesis
    unfolding csv_byte_def Let_def by (auto simp: csv_holds_def)
qed

lemma csv_Write_holds: "csv_holds k doc c \<Longrightarrow> csv_holds k (doc @ csv_line row) (csv_Write (disk k) row c)"
proof -
  have "csv_holds k doc c \<Longrightarrow> csv_holds k (doc @ bs) (fold (csv_byte (disk k)) bs c)" for bs doc c
    by (induction bs arbitrary: doc c) (use csv_byte_holds in fastforce)+
  then show "csv_holds k doc c \<Longrightarrow> ?thesis" by (simp add: csv_Write_def)
qed


definition csv_rows :: "NetworkRecord list \<Rightarrow> string" where
  "csv_rows rs = concat (map (csv_line \<circ> export_row) rs)"

lemma csv_holds_prefix: "csv_holds k doc c \<Longrightarrow> prefix (CsvOut c) doc"
  by (auto simp: csv_holds_def take_is_prefix split: if_splits)

lemma prefix_take_rows: "prefix (csv_rows (take j rs)) (csv_rows rs)"
proof -
  have "csv_rows rs = csv_rows (take j rs) @ csv_rows (drop j rs)"
    unfolding csv_rows_def by (metis append_take_drop_id concat_append map_append)
  then show ?thesis by simp
qed

lemma export_run:
  assumes "csv_holds k doc c" "CsvErr c = None"
  shows "\<exists>running c' n ret j.
    seq_of (map Inr rs @ map Inl stop) (export_body (disk k)) (c, count, None) = (running, (c', n, ret)) \<and>
    csv_holds k (doc @ csv_rows (take j rs)) c' \<and> n \<le> count + length rs \<and>
    (ret = None \<longrightarrow> stop = [] \<and> j = length rs \<and> n = count + length rs \<and> CsvErr c' = None) \<and>
    (ret \<noteq> None \<and> stop = [] \<longrightarrow> CsvErr c' \<noteq> None)"
  using assms
proof (induction rs arbitrary: doc c count)
  case Nil
  then show ?case by (cases stop) (auto simp: export_body_def csv_rows_def)
next
  case (Cons nr rs)
  define c1 where "c1 = csv_Write (disk k) (export_row nr) c"
  have h: "csv_holds k (doc @ csv_line (export_row nr)) c1"
    unfolding c1_def by (rule csv_Write_holds [OF Cons.prems(1)])
  show ?case
  proof (cases "CsvErr c1")
    case (Some err)
    have step: "export_body (disk k) (Inr nr) (c, count, None) = (False, (c1, count, Some (Errorf ''write csv row: %w'' [E err])))"
      using Some by (simp add: export_body_def c1_def [symmetric])
    show ?thesis
      by (rule exI [of _ False], rule exI [of _ c1], rule exI [of _ count],
          rule exI [of _ "Some (Errorf ''write csv row: %w'' [E err])"], rule exI [of _ 1])
        (use h Some in \<open>simp add: step csv_rows_def\<close>)
  next
    case None
    obtain running c' n ret j where IH:
      "seq_of (map Inr rs @ map Inl stop) (export_body (disk k)) (c1, count + 1, None) = (running, (c', n, ret))"
      "csv_holds k ((doc @ csv_line (export_row nr)) @ csv_rows (take j rs)) c'" "n \<le> count + 1 + length rs"
      "ret = None \<longrightarrow> stop = [] \<and> j = length rs \<and> n = count + 1 + length rs \<and> CsvErr c' = None"
      "ret \<noteq> None \<and> stop = [] \<longrightarrow> CsvErr c' \<noteq> None"
      using Cons.IH [OF h None, of "count + 1"] by (elim exE conjE) (rule that)
    have step: "export_body (disk k) (Inr nr) (c, count, None) = (True, (c1, count + 1, None))"
      using None by (simp add: export_body_def c1_def [symmetric])
    show ?thesis
      by (rule exI [of _ running], rule exI [of _ c'], rule exI [of _ n], rule exI [of _ ret], rule exI [of _ "Suc j"])
        (use IH in \<open>simp add: step csv_rows_def\<close>)
  qed
qed

text \<open>
  C25. An export to a disk with room for \<open>k\<close> bytes reports success exactly when the walk of the
  database met no error and the whole text fits; then all of it is on the disk, the header and
  one row per network, and the count is that of the rows. After a failure what is on the disk
  is a prefix of that text.
\<close>

theorem ExportCSV_complete:
  assumes "walk_items M (rdr db) (ReaderNetworks M (rdr db)) = map Inr rs @ map Inl stop"
    and "ExportCSV M db (disk k) [] = (out, n, err)"
  shows "prefix out (csv_line csvHeader @ csv_rows rs) \<and> n \<le> length rs \<and>
    (err = None \<longleftrightarrow> stop = [] \<and> length (csv_line csvHeader @ csv_rows rs) \<le> k) \<and>
    (err = None \<longrightarrow> out = csv_line csvHeader @ csv_rows rs \<and> n = length rs)"
proof -
  define doc where "doc = csv_line csvHeader @ csv_rows rs"
  define c0 where "c0 = csv_Write (disk k) csvHeader \<lparr>CsvOut = [], CsvBuf = [], CsvErr = None\<rparr>"
  have "csv_holds k [] \<lparr>CsvOut = [], CsvBuf = [], CsvErr = None\<rparr>" by (simp add: csv_holds_def)
  from csv_Write_holds [OF this, of csvHeader] have h0: "csv_holds k (csv_line csvHeader) c0"
    by (simp add: c0_def)
  have pre: "prefix (csv_line csvHeader @ csv_rows (take j rs)) doc" for j
    unfolding doc_def using prefix_take_rows by simp
  show ?thesis
  proof (cases "CsvErr c0")
    case (Some e)
    then have "out = CsvOut c0" "n = 0" "err \<noteq> None" "k < length doc"
      using assms(2) h0 by (auto simp: ExportCSV_def c0_def [symmetric] csv_holds_def doc_def)
    then show ?thesis
      using csv_holds_prefix [OF h0] unfolding doc_def by auto
  next
    case None
    obtain running c' m ret j where run:
      "seq_of (map Inr rs @ map Inl stop) (export_body (disk k)) (c0, 0, None) = (running, (c', m, ret))"
      "csv_holds k (csv_line csvHeader @ csv_rows (take j rs)) c'" "m \<le> 0 + length rs"
      "ret = None \<longrightarrow> stop = [] \<and> j = length rs \<and> m = 0 + length rs \<and> CsvErr c' = None"
      "ret \<noteq> None \<and> stop = [] \<longrightarrow> CsvErr c' \<noteq> None"
      using export_run [OF h0 None, of rs stop 0] by (elim exE conjE) (rule that)
    have out': "prefix (CsvOut c') doc"
      using csv_holds_prefix [OF run(2)] pre prefix_order.trans by blast
    have full: "k < length doc" if "CsvErr c' \<noteq> None"
      using that run(2) prefix_length_le [OF pre, of j] by (auto simp: csv_holds_def)
    show ?thesis
    proof (cases ret)
      case (Some e)
      then have "out = CsvOut c'" "n = m" "err \<noteq> None"
        using assms None by (auto simp: ExportCSV_def c0_def [symmetric] Networks_items run(1))
      then show ?thesis using out' run(3,5) full Some unfolding doc_def by auto
    next
      case none: None
      then have j: "j = length rs" "stop = []" "m = length rs" "CsvErr c' = None" using run(4) by auto
      define c2 where "c2 = csv_Flush (disk k) c'"
      have h2: "csv_holds k doc c2" unfolding c2_def doc_def using csv_Flush_holds run(2) j(1) by fastforce
      have res: "out = CsvOut c2" "n = m" "err = None \<longleftrightarrow> CsvErr c2 = None"
        using assms None none by (auto simp: ExportCSV_def c0_def [symmetric] Networks_items run(1) c2_def Let_def split: option.splits)
      have "CsvErr c2 = None \<longrightarrow> CsvBuf c2 = []"
        using j(4) by (auto simp: c2_def csv_Flush_def split: prod.splits option.splits)
      then show ?thesis
        using res h2 j csv_holds_prefix [OF h2] unfolding doc_def [symmetric] by (auto simp: csv_holds_def)
    qed
  qed
qed

theorem ExportCSV_complete_witness:
  "\<exists>out n err. ExportCSV (table_reader sample_table) \<lparr>rdr = sample_table, idx = None\<rparr> (disk 10) [] = (out, n, err) \<and>
     err \<noteq> None"
proof -
  let ?M = "table_reader sample_table" and ?db = "\<lparr>rdr = sample_table, idx = None\<rparr>"
  obtain out n err where r: "ExportCSV ?M ?db (disk 10) [] = (out, n, err)" by (metis prod_cases3)
  obtain nr where w: "walk_items ?M (rdr ?db) (ReaderNetworks ?M (rdr ?db)) = map Inr [nr] @ map Inl []"
    by (simp add: table_reader_def sample_table_def table_row_def table_data_def)
  have big: "10 < length (csv_line csvHeader)" by code_simp
  from ExportCSV_complete [OF w r] big have "err \<noteq> None" by auto
  then show ?thesis using r by blast
qed

section \<open>Any writer that takes the bytes it accepts\<close>

text \<open>
  The interface an export relies on: a write without an error has appended its bytes to what
  was written (\<open>view\<close>), and no write touches anything else (\<open>frame\<close>).
\<close>

locale byte_writer =
  fixes snk :: "'w byte_sink" and view :: "'w \<Rightarrow> string" and frame :: "'w \<Rightarrow> 'f"
  assumes write_ok: "snk bs w = (w', None) \<Longrightarrow> view w' = view w @ bs"
    and write_frame: "snk bs w = (w', err) \<Longrightarrow> frame w' = frame w"
begin

definition written :: "'f \<Rightarrow> string \<Rightarrow> 'w csv_writer \<Rightarrow> bool" where
  "written f doc c \<longleftrightarrow> frame (CsvOut c) = f \<and> (CsvErr c = None \<longrightarrow> view (CsvOut c) @ CsvBuf c = doc)"

lemma Flush_written: "written f doc c \<Longrightarrow> written f doc (csv_Flush snk c)"
  by (auto simp: written_def csv_Flush_def dest: write_ok write_frame split: prod.splits option.splits)

lemma byte_written: "written f doc c \<Longrightarrow> written f (doc @ [ch]) (csv_byte snk ch c)"
proof -
  assume "written f doc c"
  then have "written f doc (if length (CsvBuf c) = 4096 then csv_Flush snk c else c)"
    using Flush_written by simp
  then show ?thesis unfolding csv_byte_def Let_def by (auto simp: written_def)
qed

lemma Write_written: "written f doc c \<Longrightarrow> written f (doc @ csv_line row) (csv_Write snk row c)"
proof -
  have "written f doc c \<Longrightarrow> written f (doc @ bs) (fold (csv_byte snk) bs c)" for bs doc c
    by (induction bs arbitrary: doc c) (use byte_written in fastforce)+
  then show "written f doc c \<Longrightarrow> ?thesis" by (simp add: csv_Write_def)
qed

lemma body_written:
  "written f doc c \<Longrightarrow> seq_of xs (export_body snk) (c, count, None) = (running, (c', n, ret)) \<Longrightarrow>
     frame (CsvOut c') = f \<and> (ret = None \<longrightarrow> (\<exists>rs. xs = map Inr rs \<and> n = count + length rs \<and> written f (doc @ csv_rows rs) c'))"
proof (induction xs arbitrary: doc c count)
  case Nil
  then show ?case by (auto simp: csv_rows_def written_def)
next
  case (Cons it xs)
  show ?case
  proof (cases it)
    case (Inl err)
    then show ?thesis using Cons.prems by (auto simp: export_body_def written_def)
  next
    case (Inr nr)
    define c1 where "c1 = csv_Write snk (export_row nr) c"
    have c1: "written f (doc @ csv_line (export_row nr)) c1" unfolding c1_def by (rule Write_written [OF Cons.prems(1)])
    show ?thesis
    proof (cases "CsvErr c1")
      case (Some err)
      then show ?thesis
        using Cons.prems(2) Inr c1 by (auto simp: export_body_def c1_def [symmetric] written_def)
    next
      case None
      have step: "export_body snk (Inr nr) (c, count, None) = (True, (c1, count + 1, None))"
        using None by (simp add: export_body_def c1_def [symmetric])
      have rest: "seq_of xs (export_body snk) (c1, count + 1, None) = (running, (c', n, ret))"
        using Cons.prems(2) Inr step by simp
      have h: "frame (CsvOut c') = f"
        "ret = None \<Longrightarrow> \<exists>rs. xs = map Inr rs \<and> n = count + 1 + length rs \<and>
            written f ((doc @ csv_line (export_row nr)) @ csv_rows rs) c'"
        using Cons.IH [OF c1 rest] by simp_all
      have "\<exists>rs. it # xs = map Inr rs \<and> n = count + length rs \<and> written f (doc @ csv_rows rs) c'" if r: "ret = None"
      proof -
        obtain rs where "xs = map Inr rs" "n = count + 1 + length rs"
            "written f ((doc @ csv_line (export_row nr)) @ csv_rows rs) c'"
          using h(2) [OF r] by (elim exE conjE) (rule that)
        then show ?thesis using Inr by (intro exI [of _ "nr # rs"]) (simp add: csv_rows_def)
      qed
      then show ?thesis using h(1) by blast
    qed
  qed
qed

text \<open>An export reports success only when everything was taken; and it writes nowhere else.\<close>

lemma ExportCSV_written:
  assumes "ExportCSV M db snk w = (w', n, err)"
  shows "frame w' = frame w \<and> (err = None \<longrightarrow> (\<exists>rs. walk_items M (rdr db) (ReaderNetworks M (rdr db)) = map Inr rs \<and>
    n = length rs \<and> view w' = view w @ csv_line csvHeader @ csv_rows rs))"
proof -
  define c0 where "c0 = csv_Write snk csvHeader \<lparr>CsvOut = w, CsvBuf = [], CsvErr = None\<rparr>"
  have "written (frame w) (view w) \<lparr>CsvOut = w, CsvBuf = [], CsvErr = None\<rparr>" by (simp add: written_def)
  from Write_written [OF this, of csvHeader] have c0: "written (frame w) (view w @ csv_line csvHeader) c0"
    by (simp add: c0_def)
  show ?thesis
  proof (cases "CsvErr c0")
    case (Some e)
    then show ?thesis using assms c0 by (auto simp: ExportCSV_def c0_def [symmetric] Let_def written_def)
  next
    case None
    obtain running c' m ret where
      run: "Networks M db (export_body snk) (c0, 0, None) = (running, (c', m, ret))"
      using prod_cases4 by blast
    note body = body_written [OF c0 run [unfolded Networks_items]]
    show ?thesis
    proof (cases ret)
      case (Some e)
      then show ?thesis
        using assms None run body by (auto simp: ExportCSV_def c0_def [symmetric] Let_def)
    next
      case ok: None
      obtain rs where rs: "walk_items M (rdr db) (ReaderNetworks M (rdr db)) = map Inr rs" "m = length rs"
          "written (frame w) ((view w @ csv_line csvHeader) @ csv_rows rs) c'"
        using body ok by auto
      define c2 where "c2 = csv_Flush snk c'"
      have c2: "written (frame w) ((view w @ csv_line csvHeader) @ csv_rows rs) c2"
        unfolding c2_def by (rule Flush_written [OF rs(3)])
      have res: "w' = CsvOut c2" "n = m" "err = None \<longleftrightarrow> CsvErr c2 = None"
        using assms None ok run by (auto simp: ExportCSV_def c0_def [symmetric] c2_def Let_def split: option.splits)
      have "CsvErr c2 = None \<longrightarrow> CsvBuf c2 = []"
        by (auto simp: c2_def csv_Flush_def split: prod.splits option.splits)
      then show ?thesis using res c2 rs(1,2) by (auto simp: written_def)
    qed
  qed
qed

end

interpretation disk_writer: byte_writer "disk k" id "\<lambda>_. ()" for k
  by unfold_locales (auto simp: disk_def split: if_splits)

end
