(* ===== verification/Verify.thy ===== *)
theory Verify
  imports Reader
begin

text \<open>
  \<open>attribution/verify.go\<close>: the walk over a whole database that checks every record and counts.
\<close>

record VerifyReport =
  NetworkCount :: nat
  ByProvider :: "string \<rightharpoonup> nat"
  IPv4Count :: nat
  IPv6Count :: nat
  Oldest :: gotime
  Newest :: gotime

definition emptyReport :: VerifyReport where
  "emptyReport = \<lparr>NetworkCount = 0, ByProvider = Map.empty, IPv4Count = 0, IPv6Count = 0,
     Oldest = zeroTime, Newest = zeroTime\<rparr>"

text \<open>\<open>m[k]++\<close> on a map of counters.\<close>

definition bump :: "string \<Rightarrow> (string \<rightharpoonup> nat) \<Rightarrow> (string \<rightharpoonup> nat)" where
  "bump k m = m(k \<mapsto> (case m k of Some n \<Rightarrow> n | None \<Rightarrow> 0) + 1)"

definition verify_count :: "NetworkRecord \<Rightarrow> VerifyReport \<Rightarrow> VerifyReport" where
  "verify_count nr rep =
     (let rep = rep\<lparr>NetworkCount := NetworkCount rep + 1,
                    ByProvider := bump (Provider (NRRecord nr)) (ByProvider rep)\<rparr>;
          rep = (if IPv6 (NRRecord nr) then rep\<lparr>IPv6Count := IPv6Count rep + 1\<rparr>
                 else rep\<lparr>IPv4Count := IPv4Count rep + 1\<rparr>);
          t = SyncedAt (NRRecord nr)
      in if \<not> time_IsZero t then
           (let rep = (if time_IsZero (Oldest rep) \<or> time_Before t (Oldest rep) then rep\<lparr>Oldest := t\<rparr> else rep)
            in if time_Before (Newest rep) t then rep\<lparr>Newest := t\<rparr> else rep)
         else rep)"

text \<open>The loop's body; the error is that of an early return.\<close>

definition verify_body :: "(error + NetworkRecord, VerifyReport \<times> error option) yield" where
  "verify_body it s = (case s of (rep, ret) \<Rightarrow>
     (case it of
        Inl err \<Rightarrow> (False, (rep, Some (Errorf ''verify: %w'' [E err])))
      | Inr nr \<Rightarrow>
          if Provider (NRRecord nr) = [] then
            (False, (rep, Some (Errorf ''verify: network %s has empty provider'' [S (prefix_String (NRNetwork nr))])))
          else (True, (verify_count nr rep, ret))))"

definition Verify :: "('h, 'w) maxminddb \<Rightarrow> 'h DB \<Rightarrow> VerifyReport \<times> error option" where
  "Verify M db = (case Networks M db verify_body (emptyReport, None) of
     (_, (rep, Some err)) \<Rightarrow> (rep, Some err)
   | (_, (rep, None)) \<Rightarrow>
       if NetworkCount rep = 0 then (rep, Some (Errorf ''verify: database is empty'' []))
       else (rep, None))"

section \<open>What a report says\<close>

definition stamps :: "NetworkRecord list \<Rightarrow> gotime list" where
  "stamps rs = filter (\<lambda>t. \<not> time_IsZero t) (map (\<lambda>nr. SyncedAt (NRRecord nr)) rs)"

text \<open>The report of a list of records: all counts, and the extreme timestamps.\<close>

definition reports :: "NetworkRecord list \<Rightarrow> VerifyReport \<Rightarrow> bool" where
  "reports rs rep \<longleftrightarrow>
     NetworkCount rep = length rs \<and> IPv4Count rep + IPv6Count rep = length rs \<and>
     IPv6Count rep = length (filter (\<lambda>nr. IPv6 (NRRecord nr)) rs) \<and>
     (\<forall>p. ByProvider rep p = (let n = length (filter (\<lambda>nr. Provider (NRRecord nr) = p) rs) in if n = 0 then None else Some n)) \<and>
     Oldest rep = (if stamps rs = [] then zeroTime else Min (set (stamps rs))) \<and>
     Newest rep = Max (insert zeroTime (set (stamps rs)))"

lemma reports_Nil: "reports [] emptyReport"
  by (simp add: reports_def emptyReport_def stamps_def)

lemma time_IsZero_iff: "time_IsZero t \<longleftrightarrow> t = zeroTime"
  by (cases t) (simp add: time_IsZero_def)

lemma verify_count_fields:
  "NetworkCount (verify_count nr rep) = Suc (NetworkCount rep)"
  "ByProvider (verify_count nr rep) = bump (Provider (NRRecord nr)) (ByProvider rep)"
  "IPv6Count (verify_count nr rep) = IPv6Count rep + (if IPv6 (NRRecord nr) then 1 else 0)"
  "IPv4Count (verify_count nr rep) = IPv4Count rep + (if IPv6 (NRRecord nr) then 0 else 1)"
  "Oldest (verify_count nr rep) = (let t = SyncedAt (NRRecord nr) in
     if t \<noteq> zeroTime \<and> (Oldest rep = zeroTime \<or> t < Oldest rep) then t else Oldest rep)"
  "Newest (verify_count nr rep) = (let t = SyncedAt (NRRecord nr) in
     if t \<noteq> zeroTime \<and> Newest rep < t then t else Newest rep)"
  by (simp_all add: verify_count_def Let_def time_IsZero_iff time_Before_less)

lemma stamps_append: "stamps (rs @ [nr]) = stamps rs @ (let t = SyncedAt (NRRecord nr) in if t = zeroTime then [] else [t])"
  by (simp add: stamps_def time_IsZero_iff Let_def)

lemma stamps_nonzero: "zeroTime \<notin> set (stamps rs)"
  by (simp add: stamps_def time_IsZero_iff)

lemma reports_step:
  assumes "reports rs rep"
  shows "reports (rs @ [nr]) (verify_count nr rep)"
proof -
  let ?t = "SyncedAt (NRRecord nr)"
  have old: "Oldest (verify_count nr rep) = (if stamps (rs @ [nr]) = [] then zeroTime else Min (set (stamps (rs @ [nr]))))"
  proof (cases "stamps rs = []")
    case True
    then show ?thesis using assms by (auto simp: reports_def verify_count_fields stamps_append Let_def)
  next
    case False
    define m where "m = Min (set (stamps rs))"
    have "m \<noteq> zeroTime" using False stamps_nonzero Min_in unfolding m_def by (metis List.finite_set set_empty)
    moreover have "Min (insert ?t (set (stamps rs))) = min ?t m"
      unfolding m_def using False by (intro Min_insert) simp_all
    moreover have "Oldest rep = m" using assms False by (simp add: reports_def m_def)
    moreover have "Min (set (stamps rs)) = m" by (simp add: m_def)
    ultimately show ?thesis
      using False by (simp add: verify_count_fields stamps_append Let_def min_def order_le_less)
  qed
  have new: "Newest (verify_count nr rep) = Max (insert zeroTime (set (stamps (rs @ [nr]))))"
  proof -
    define m where "m = Max (insert zeroTime (set (stamps rs)))"
    have "Max (insert ?t (insert zeroTime (set (stamps rs)))) = max ?t m"
      unfolding m_def by (rule Max_insert) simp_all
    then have m': "Max (insert zeroTime (insert ?t (set (stamps rs)))) = max ?t m"
      by (subst insert_commute) simp
    have rep: "Newest rep = m" using assms by (simp add: reports_def m_def)
    show ?thesis
    proof (cases "?t = zeroTime")
      case True
      then show ?thesis by (simp add: verify_count_fields(6) stamps_append Let_def rep m_def del: Max_insert)
    next
      case False
      then have "set (stamps (rs @ [nr])) = insert ?t (set (stamps rs))" by (simp add: stamps_append Let_def)
      then show ?thesis unfolding verify_count_fields(6) rep Let_def using False by (auto simp: m' max_def not_less)
    qed
  qed
  show ?thesis
    using assms old new unfolding reports_def by (simp add: verify_count_fields(1-4) bump_def Let_def)
qed

lemma verify_run:
  assumes "reports seen rep"
  shows "\<exists>rs rest st. xs = map Inr rs @ rest \<and>
    seq_of xs verify_body (rep, None) = st \<and> (\<forall>nr \<in> set rs. Provider (NRRecord nr) \<noteq> []) \<and>
    reports (seen @ rs) (fst (snd st)) \<and> (snd (snd st) = None \<longleftrightarrow> rest = [])"
  using assms
proof (induction xs arbitrary: seen rep)
  case (Cons it xs)
  show ?case
  proof (cases "\<exists>nr. it = Inr nr \<and> Provider (NRRecord nr) \<noteq> []")
    case False
    then show ?thesis
      using Cons.prems by (intro exI [of _ "[]"] exI [of _ "it # xs"]) (cases it; auto simp: verify_body_def)
  next
    case True
    then obtain nr where nr: "it = Inr nr" "Provider (NRRecord nr) \<noteq> []" by blast
    obtain rs rest st where IH: "xs = map Inr rs @ rest" "seq_of xs verify_body (verify_count nr rep, None) = st"
        "\<forall>nr \<in> set rs. Provider (NRRecord nr) \<noteq> []" "reports ((seen @ [nr]) @ rs) (fst (snd st))"
        "snd (snd st) = None \<longleftrightarrow> rest = []"
      using Cons.IH [OF reports_step [OF Cons.prems, of nr]] by (elim exE conjE) (rule that)
    have "seq_of (it # xs) verify_body (rep, None) = st"
      using nr IH(2) by (simp add: verify_body_def)
    then show ?thesis
      using nr IH by (intro exI [of _ "nr # rs"] exI [of _ rest] exI [of _ st]) simp
  qed
qed simp


end
