(* ===== verification/Float64.thy ===== *)
theory Float64
  imports Complex_Main
begin

text \<open>
  Go's \<open>float64\<close>, as far as the publishing guards use it: finite values as rationals, every
  operation rounded to the nearest value with a 53-bit significand, ties to even. Overflow,
  infinities, NaN and subnormal numbers are left out: the operands are counts, and fractions
  of counts, far from either end of the range.
\<close>

type_synonym float64 = rat

definition round_even :: "rat \<Rightarrow> int" where
  "round_even r = (let f = floor r; d = r - of_int f in
     if d < 1 / 2 \<or> d = 1 / 2 \<and> even f then f else f + 1)"

text \<open>The exponent of the last bit: \<open>x / 2 ^ e\<close> has 53 bits before the point.\<close>

function bit_len :: "int \<Rightarrow> int" where
  "bit_len n = (if n \<le> 0 then 0 else 1 + bit_len (n div 2))"
  by pat_completeness auto
termination
  by (relation "measure nat") auto

declare bit_len.simps [simp del]

definition last_bit :: "rat \<Rightarrow> int" where
  "last_bit x =
     (let (n, d) = quotient_of \<bar>x\<bar>;
          e = bit_len n - bit_len d - 53
      in if 2 ^ 53 \<le> \<bar>x\<bar> / 2 powi e then e + 1 else e)"

definition rnd :: "rat \<Rightarrow> float64" where
  "rnd x = (if x = 0 then 0 else of_int (round_even (x / 2 powi (last_bit x))) * 2 powi (last_bit x))"

definition float_of_int :: "int \<Rightarrow> float64" where
  "float_of_int n = rnd (of_int n)"

definition fdiv :: "float64 \<Rightarrow> float64 \<Rightarrow> float64" where
  "fdiv x y = rnd (x / y)"

definition fmul :: "float64 \<Rightarrow> float64 \<Rightarrow> float64" where
  "fmul x y = rnd (x * y)"

definition fsub :: "float64 \<Rightarrow> float64 \<Rightarrow> float64" where
  "fsub x y = rnd (x - y)"

text \<open>Rounding moves a value by at most half of its last bit.\<close>

lemma round_even_error: "\<bar>of_int (round_even r) - r\<bar> \<le> 1 / 2"
proof -
  have "of_int \<lfloor>r\<rfloor> \<le> r" "r < of_int \<lfloor>r\<rfloor> + 1" by linarith+
  then show ?thesis by (auto simp: round_even_def Let_def abs_le_iff)
qed

lemma rnd_error: "\<bar>rnd x - x\<bar> \<le> 2 powi (last_bit x) / 2"
proof (cases "x = 0")
  case False
  define e where "e = last_bit x"
  have pos: "0 < (2 powi e :: rat)" by simp
  have "rnd x - x = (of_int (round_even (x / 2 powi e)) - x / 2 powi e) * 2 powi e"
    using False pos by (simp add: rnd_def e_def left_diff_distrib)
  then have "\<bar>rnd x - x\<bar> = \<bar>of_int (round_even (x / 2 powi e)) - x / 2 powi e\<bar> * 2 powi e"
    using pos by (simp add: abs_mult)
  also have "\<dots> \<le> 1 / 2 * 2 powi e"
    using pos round_even_error by (intro mult_right_mono) auto
  finally show ?thesis by (simp add: e_def)
qed (simp add: rnd_def)

lemma rnd_examples:
  "fdiv 1 3 = 6004799503160661 / 18014398509481984" "fsub 1 (fdiv 1 2) = 1 / 2"
  "float_of_int 9007199254740993 = 9007199254740992"
  by code_simp+

end
