(* ===== verification/Sync.thy ===== *)
theory Sync
  imports Verify Sources Float64
begin

text \<open>
  \<open>attribution/sync.go\<close>: building into a temporary file that is checked and then renamed over the
  published one.
\<close>

section \<open>The file system\<close>

text \<open>
  The files by path, and a script of faults: the outcome of each coming operation, in order
  (none: it succeeds, which it also does when the script is at its end). The record is
  extended where a component keeps more of the outside world.
\<close>

record os =
  files :: "string \<rightharpoonup> string"
  faults :: "error option list"

definition next_fault :: "'x os_scheme \<Rightarrow> error option \<times> 'x os_scheme" where
  "next_fault w = (case faults w of [] \<Rightarrow> (None, w) | f # fs \<Rightarrow> (f, w\<lparr>faults := fs\<rparr>))"

text \<open>An operation that changes the files when it does not fail.\<close>

definition file_op :: "((string \<rightharpoonup> string) \<Rightarrow> (string \<rightharpoonup> string)) \<Rightarrow> 'x os_scheme \<Rightarrow> error option \<times> 'x os_scheme" where
  "file_op change w = (case next_fault w of
     (Some err, w) \<Rightarrow> (Some err, w)
   | (None, w) \<Rightarrow> (None, w\<lparr>files := change (files w)\<rparr>))"

definition os_Remove :: "string \<Rightarrow> 'x os_scheme \<Rightarrow> error option \<times> 'x os_scheme" where
  "os_Remove path = file_op (\<lambda>m. m(path := None))"

definition os_Rename :: "string \<Rightarrow> string \<Rightarrow> 'x os_scheme \<Rightarrow> error option \<times> 'x os_scheme" where
  "os_Rename src dst = file_op (\<lambda>m. (m(src := None))(dst := m src))"

definition file_Sync :: "'x os_scheme \<Rightarrow> error option \<times> 'x os_scheme" where
  "file_Sync = file_op id"

definition file_Close :: "'x os_scheme \<Rightarrow> error option \<times> 'x os_scheme" where
  "file_Close = file_op id"

text \<open>
  \<open>os.CreateTemp\<close> picks a path that does not exist, from the directory, the pattern and a
  random number; the choice is a parameter.
\<close>

type_synonym picker = "string \<Rightarrow> string \<Rightarrow> (string \<rightharpoonup> string) \<Rightarrow> string"

definition os_CreateTemp :: "picker \<Rightarrow> string \<Rightarrow> string \<Rightarrow> 'x os_scheme \<Rightarrow> (error + string) \<times> 'x os_scheme" where
  "os_CreateTemp pick dir pattern w =
     (let path = pick dir pattern (files w) in
      case file_op (\<lambda>m. m(path \<mapsto> [])) w of
        (Some err, w) \<Rightarrow> (Inl err, w)
      | (None, w) \<Rightarrow> (Inr path, w))"

text \<open>\<open>filepath.Dir\<close> and \<open>filepath.Base\<close>.\<close>

definition filepath_Dir :: "string \<Rightarrow> string" where
  "filepath_Dir path = path_Clean (rev (dropWhile (\<lambda>c. c \<noteq> CHR ''/'') (rev path)))"

definition filepath_Base :: "string \<Rightarrow> string" where
  "filepath_Base path =
     (if path = [] then ''.''
      else (let p = rev (takeWhile (\<lambda>c. c \<noteq> CHR ''/'') (dropWhile (\<lambda>c. c = CHR ''/'') (rev path)))
            in if p = [] then ''/'' else p))"

section \<open>BuildFile\<close>

record SyncResult =
  Path :: string
  Count :: nat
  SkippedCount :: nat
  Report :: VerifyReport

text \<open>A directory is opened and synced; whatever fails is ignored.\<close>

definition syncDir :: "string \<Rightarrow> 'x os_scheme \<Rightarrow> 'x os_scheme" where
  "syncDir dir w = (case file_op id w of
     (Some err, w) \<Rightarrow> w
   | (None, w) \<Rightarrow> (case file_Sync w of (_, w) \<Rightarrow> (case file_Close w of (_, w) \<Rightarrow> w)))"

text \<open>The guard on the fraction of skipped entries.\<close>

definition skip_guard :: "BuildStats \<Rightarrow> float64 \<Rightarrow> error option" where
  "skip_guard sts maxSkipFrac =
     (if maxSkipFrac > 0 then
        (let total = Inserted sts + Skipped sts in
         if total > 0 \<and> fdiv (float_of_int (int (Skipped sts))) (float_of_int (int total)) > maxSkipFrac
         then Some (Errorf ''skipped too many networks: %d of %d (%.1f%% > %.0f%%); refusing to publish''
           [I (int (Skipped sts)), I (int total)])
         else None)
      else None)"

text \<open>The guard on a drop against the database published before.\<close>

definition drop_guard :: "VerifyReport option \<Rightarrow> float64 \<Rightarrow> VerifyReport \<Rightarrow> error option" where
  "drop_guard prev maxDropFrac rep = (case prev of
     None \<Rightarrow> None
   | Some prev \<Rightarrow>
       if maxDropFrac > 0 \<and> NetworkCount prev > 0 then
         (let floor = fmul (float_of_int (int (NetworkCount prev))) (fsub 1 maxDropFrac) in
          if float_of_int (int (NetworkCount rep)) < floor
          then Some (Errorf ''network count dropped too far: %d < %.0f (prev %d, max drop %.0f%%); refusing to publish''
            [I (int (NetworkCount rep)), I (int (NetworkCount prev))])
          else None)
       else None)"

text \<open>Writing the temporary file: build, sync and close. Bytes written stay there on an error.\<close>

definition write_temp :: "('t, string) mmdbwriter \<Rightarrow> (item, ('t build_state \<times> 'x os_scheme) \<times> 'b) seq \<Rightarrow> string \<Rightarrow>
    BuildOptions \<Rightarrow> 'x os_scheme \<times> 'b \<Rightarrow> (error + BuildStats) \<times> 'x os_scheme \<times> 'b" where
  "write_temp W entries tmpPath opts env = (case Build W entries [] opts env of
     (bytes, sts, err, (w, b)) \<Rightarrow>
       (let w = w\<lparr>files := (files w)(tmpPath \<mapsto> bytes)\<rparr> in
        case err of
          Some err \<Rightarrow> (case file_Close w of (_, w) \<Rightarrow> (Inl err, w, b))
        | None \<Rightarrow>
            (case file_Sync w of
               (Some err, w) \<Rightarrow> (case file_Close w of (_, w) \<Rightarrow> (Inl (Errorf ''fsync temp: %w'' [E err]), w, b))
             | (None, w) \<Rightarrow>
                 (case file_Close w of
                    (Some err, w) \<Rightarrow> (Inl (Errorf ''close temp: %w'' [E err]), w, b)
                  | (None, w) \<Rightarrow> (Inr sts, w, b)))))"

text \<open>Reopening it and walking the result.\<close>

definition verify_temp :: "('h, 'x os_scheme) maxminddb \<Rightarrow> string \<Rightarrow> 'x os_scheme \<Rightarrow> (error + VerifyReport) \<times> 'x os_scheme" where
  "verify_temp M tmpPath w = (case Open M tmpPath w of
     (Inl err, w) \<Rightarrow> (Inl (Errorf ''reopen for verify: %w'' [E err]), w)
   | (Inr db, w) \<Rightarrow>
       (case Verify M db of (rep, err) \<Rightarrow>
          (case CloseDB M db w of (_, w) \<Rightarrow>
             (case err of Some err \<Rightarrow> (Inl (Errorf ''verify: %w'' [E err]), w) | None \<Rightarrow> (Inr rep, w)))))"

text \<open>The body between creating the temporary file and the deferred cleanup.\<close>

definition publish :: "('t, string) mmdbwriter \<Rightarrow> ('h, 'x os_scheme) maxminddb \<Rightarrow>
    (item, ('t build_state \<times> 'x os_scheme) \<times> 'b) seq \<Rightarrow> string \<Rightarrow> string \<Rightarrow> BuildOptions \<Rightarrow> VerifyReport option \<Rightarrow>
    float64 \<Rightarrow> float64 \<Rightarrow> 'x os_scheme \<times> 'b \<Rightarrow> (error + SyncResult) \<times> 'x os_scheme \<times> 'b" where
  "publish W M entries path tmpPath opts prev maxDropFrac maxSkipFrac env =
     (case write_temp W entries tmpPath opts env of
        (Inl err, w, b) \<Rightarrow> (Inl err, w, b)
      | (Inr sts, w, b) \<Rightarrow>
          (case skip_guard sts maxSkipFrac of
             Some err \<Rightarrow> (Inl err, w, b)
           | None \<Rightarrow>
               (case verify_temp M tmpPath w of
                  (Inl err, w) \<Rightarrow> (Inl err, w, b)
                | (Inr rep, w) \<Rightarrow>
                    (case drop_guard prev maxDropFrac rep of
                       Some err \<Rightarrow> (Inl err, w, b)
                     | None \<Rightarrow>
                         (case os_Rename tmpPath path w of
                            (Some err, w) \<Rightarrow> (Inl (Errorf ''atomic rename: %w'' [E err]), w, b)
                          | (None, w) \<Rightarrow>
                              (Inr \<lparr>Path = path, Count = Inserted sts, SkippedCount = Skipped sts, Report = rep\<rparr>,
                               syncDir (filepath_Dir path) w, b))))))"

definition BuildFile :: "('t, string) mmdbwriter \<Rightarrow> ('h, 'x os_scheme) maxminddb \<Rightarrow> picker \<Rightarrow>
    (item, ('t build_state \<times> 'x os_scheme) \<times> 'b) seq \<Rightarrow> string \<Rightarrow> BuildOptions \<Rightarrow> VerifyReport option \<Rightarrow>
    float64 \<Rightarrow> float64 \<Rightarrow> 'x os_scheme \<times> 'b \<Rightarrow> (error + SyncResult) \<times> 'x os_scheme \<times> 'b" where
  "BuildFile W M pick entries path opts prev maxDropFrac maxSkipFrac env =
     (case os_CreateTemp pick (filepath_Dir path) (filepath_Base path @ ''.tmp-*'') (fst env) of
        (Inl err, w) \<Rightarrow> (Inl (Errorf ''create temp: %w'' [E err]), w, snd env)
      | (Inr tmpPath, w) \<Rightarrow>
          (case publish W M entries path tmpPath opts prev maxDropFrac maxSkipFrac (w, snd env) of
             (Inl err, w, b) \<Rightarrow> (Inl err, snd (os_Remove tmpPath w), b)
           | (Inr res, w, b) \<Rightarrow> (Inr res, w, b)))"

section \<open>What each step does to the files\<close>

lemma file_op_files: "file_op change w = (r, w') \<Longrightarrow> files w' = (if r = None then change (files w) else files w)"
  by (auto simp: file_op_def next_fault_def split: list.splits prod.splits option.splits)

lemma file_neutral:
  "file_Sync w = (r, w') \<Longrightarrow> files w' = files w" "file_Close w = (r, w') \<Longrightarrow> files w' = files w"
  using file_op_files [of id w r w'] by (auto simp: file_Sync_def file_Close_def split: if_splits)

lemma syncDir_files: "files (syncDir dir w) = files w"
proof -
  have id: "file_op id w = (r, w') \<Longrightarrow> files w' = files w" for r w' and w :: "'a os_scheme"
    using file_op_files [of id w r w'] by (simp split: if_splits)
  show ?thesis
    by (auto simp: syncDir_def file_Sync_def file_Close_def id split: prod.split option.split)
qed

text \<open>Opening and closing a database leaves the files; so does the stream of entries.\<close>

definition reader_contract :: "('h, 'x os_scheme) maxminddb \<Rightarrow> bool" where
  "reader_contract M \<longleftrightarrow> (\<forall>p w. files (snd (OpenReader M p w)) = files w) \<and>
     (\<forall>h w. files (snd (CloseReader M h w)) = files w)"

definition leaves_files :: "('t, string) mmdbwriter \<Rightarrow> (item, ('t build_state \<times> 'x os_scheme) \<times> 'b) seq \<Rightarrow> bool" where
  "leaves_files W entries \<longleftrightarrow>
     (\<forall>t w b. files (fst (snd (build_loop W entries t (w, b)))) = files w)"

lemma seq_of_leaves_files: "leaves_files W (seq_of xs)"
  by (simp add: leaves_files_def build_loop_seq_of)

lemma Build_files:
  assumes "leaves_files W entries" "Build W entries out opts (w, b) = (out', sts, err, (w', b'))"
  shows "files w' = files w"
proof (cases "NewTree W (treeOptions opts)")
  case (Inr t)
  obtain st w1 b1 where l: "build_loop W entries t (w, b) = (st, w1, b1)" by (metis prod_cases3)
  then have "files w1 = files w" using assms(1) by (metis fst_conv snd_conv leaves_files_def)
  then show ?thesis
    using assms(2) Inr l by (auto simp: Build_def split: option.splits if_splits prod.splits)
qed (use assms in \<open>simp add: Build_def\<close>)

lemma write_temp_files:
  assumes "leaves_files W entries" "write_temp W entries tmp opts (w, b) = (res, w', b')"
  shows "\<exists>bytes sts err env. Build W entries [] opts (w, b) = (bytes, sts, err, env) \<and>
    files w' = (files w)(tmp \<mapsto> bytes) \<and> (\<forall>sts'. res = Inr sts' \<longrightarrow> sts' = sts \<and> err = None)"
proof -
  obtain bytes sts err w1 b1 where B: "Build W entries [] opts (w, b) = (bytes, sts, err, (w1, b1))"
    by (metis prod_cases5)
  note files = Build_files [OF assms(1) B] file_neutral
  show ?thesis
    using assms(2) B
    by (intro exI [of _ bytes] exI [of _ sts] exI [of _ err] exI [of _ "(w1, b1)"])
       (auto simp: write_temp_def Let_def files(1) dest!: files(2,3) split: option.splits prod.splits)
qed

lemma verify_temp_files:
  assumes "reader_contract M" "verify_temp M tmp w = (res, w')"
  shows "files w' = files w \<and> (\<forall>rep. res = Inr rep \<longrightarrow>
    (\<exists>db w1. Open M tmp w = (Inr db, w1) \<and> Verify M db = (rep, None)))"
proof -
  have o: "files w1 = files w" if "Open M tmp w = (r, w1)" for r w1
    using that assms(1) by (auto simp: Open_def reader_contract_def split: prod.splits sum.splits) (metis snd_conv)+
  have c: "files w2 = files w1" if "CloseDB M db w1 = (r, w2)" for db w1 r w2
    using that assms(1) by (auto simp: CloseDB_def reader_contract_def) (metis snd_conv)
  show ?thesis
    using assms(2) by (auto simp: verify_temp_def dest!: o c split: prod.splits sum.splits option.splits)
qed


text \<open>What a committed build went through.\<close>

definition committed :: "('t, string) mmdbwriter \<Rightarrow> ('h, 'x os_scheme) maxminddb \<Rightarrow>
    (item, ('t build_state \<times> 'x os_scheme) \<times> 'b) seq \<Rightarrow> string \<Rightarrow> BuildOptions \<Rightarrow> VerifyReport option \<Rightarrow>
    float64 \<Rightarrow> float64 \<Rightarrow> 'x os_scheme \<times> 'b \<Rightarrow> SyncResult \<Rightarrow> string \<Rightarrow> bool" where
  "committed W M entries tmp opts prev maxDrop maxSkip env res bytes \<longleftrightarrow>
     (\<exists>sts env' db w1 w2. Build W entries [] opts env = (bytes, sts, None, env') \<and>
        Count res = Inserted sts \<and> SkippedCount res = Skipped sts \<and> skip_guard sts maxSkip = None \<and>
        files w1 tmp = Some bytes \<and> Open M tmp w1 = (Inr db, w2) \<and> Verify M db = (Report res, None) \<and>
        drop_guard prev maxDrop (Report res) = None)"

lemma publish_files:
  assumes "reader_contract M" "leaves_files W entries"
    and "publish W M entries path tmp opts prev maxDrop maxSkip (w, b) = (res, w', b')"
  shows "\<exists>bytes. (case res of
      Inl err \<Rightarrow> files w' = (files w)(tmp \<mapsto> bytes)
    | Inr r \<Rightarrow> Path r = path \<and> files w' = (files w)(tmp := None, path \<mapsto> bytes) \<and>
        committed W M entries tmp opts prev maxDrop maxSkip (w, b) r bytes)"
proof -
  obtain r1 w1 b1 where 1: "write_temp W entries tmp opts (w, b) = (r1, w1, b1)" by (metis prod_cases3)
  obtain bytes sts err env where B: "Build W entries [] opts (w, b) = (bytes, sts, err, env)"
      "files w1 = (files w)(tmp \<mapsto> bytes)" "\<forall>sts'. r1 = Inr sts' \<longrightarrow> sts' = sts \<and> err = None"
    using write_temp_files [OF assms(2) 1] by blast
  have stop: ?thesis if "files w' = files w1" "res = Inl e" for e
    using that B(2) by auto
  show ?thesis
  proof (cases r1)
    case (Inl e)
    then show ?thesis using assms(3) 1 by (intro stop [of e]) (auto simp: publish_def)
  next
    case (Inr sts')
    then have r1: "r1 = Inr sts" "err = None" using B(3) by auto
    show ?thesis
    proof (cases "skip_guard sts maxSkip")
      case (Some e)
      then show ?thesis using assms(3) 1 r1 by (intro stop [of e]) (auto simp: publish_def)
    next
      case ok: None
      obtain r2 w2 where 2: "verify_temp M tmp w1 = (r2, w2)" by (metis prod.exhaust)
      note v = verify_temp_files [OF assms(1) 2]
      show ?thesis
      proof (cases r2)
        case (Inl e)
        then show ?thesis using assms(3) 1 r1 ok 2 v by (intro stop [of e]) (auto simp: publish_def)
      next
        case (Inr rep)
        then obtain db w1' where db: "Open M tmp w1 = (Inr db, w1')" "Verify M db = (rep, None)" using v by blast
        show ?thesis
        proof (cases "drop_guard prev maxDrop rep")
          case (Some e)
          then show ?thesis using assms(3) 1 r1 ok 2 v Inr by (intro stop [of e]) (auto simp: publish_def)
        next
          case dok: None
          obtain r3 w3 where 3: "os_Rename tmp path w2 = (r3, w3)" by (metis prod.exhaust)
          note rn = file_op_files [OF 3 [unfolded os_Rename_def]]
          show ?thesis
          proof (cases r3)
            case (Some e)
            then show ?thesis
              using assms(3) 1 r1 ok 2 v Inr dok 3 rn by (intro stop) (auto simp: publish_def)
          next
            case None
            define r where "r = \<lparr>Path = path, Count = Inserted sts, SkippedCount = Skipped sts, Report = rep\<rparr>"
            have res: "res = Inr r" "w' = syncDir (filepath_Dir path) w3"
              using assms(3) 1 r1 ok 2 Inr dok 3 None by (auto simp: publish_def r_def)
            have dok': "Verify M db = (Report r, None)" "drop_guard prev maxDrop (Report r) = None"
              using db(2) dok by (simp_all add: r_def)
            have "files w3 = (files w)(tmp := None, path \<mapsto> bytes)"
              using rn None v B(2) by (simp add: fun_upd_twist)
            moreover have "committed W M entries tmp opts prev maxDrop maxSkip (w, b) r bytes"
              unfolding committed_def
              by (rule exI [of _ sts], rule exI [of _ env], rule exI [of _ db], rule exI [of _ w1], rule exI [of _ w1'])
                (intro conjI; (rule B(1) [unfolded r1(2)] ok db(1) dok' | simp add: r_def B(2)))
            ultimately show ?thesis
              by (intro exI [of _ bytes]) (simp add: res syncDir_files r_def)
          qed
        qed
      qed
    qed
  qed
qed

text \<open>A path that \<open>CreateTemp\<close> may pick: it is not there yet, and not the published one.\<close>

definition temp_fresh :: "picker \<Rightarrow> string \<Rightarrow> (string \<rightharpoonup> string) \<Rightarrow> bool" where
  "temp_fresh pick path m \<longleftrightarrow>
     (let tmp = pick (filepath_Dir path) (filepath_Base path @ ''.tmp-*'') m in tmp \<notin> dom m \<and> tmp \<noteq> path)"

section \<open>Publishing as a whole\<close>

lemma BuildFile_run:
  assumes "reader_contract M" and "leaves_files W entries" and "temp_fresh pick path (files w)"
    and "BuildFile W M pick entries path opts prev maxDrop maxSkip (w, b) = (res, w', b')"
  shows "\<exists>tmp w0. tmp \<notin> dom (files w) \<and> files w0 = (files w)(tmp \<mapsto> []) \<and> (case res of
      Inl err \<Rightarrow> files w' path = files w path \<and>
        (files w' = files w \<or> (\<exists>e w1. os_Remove tmp w1 = (Some e, w') \<and> (files w')(tmp := None) = files w))
    | Inr r \<Rightarrow> Path r = path \<and> (\<exists>bytes. files w' = (files w)(path \<mapsto> bytes) \<and>
        committed W M entries tmp opts prev maxDrop maxSkip (w0, b) r bytes))"
proof -
  define tmp where "tmp = pick (filepath_Dir path) (filepath_Base path @ ''.tmp-*'') (files w)"
  have fresh: "tmp \<notin> dom (files w)" "tmp \<noteq> path" using assms(3) by (auto simp: temp_fresh_def tmp_def Let_def)
  then have undo: "(files w)(tmp := None) = files w" by (auto simp: fun_upd_idem_iff)
  obtain r0 w0 where c: "file_op (\<lambda>m. m(tmp \<mapsto> [])) w = (r0, w0)" by (metis prod.exhaust)
  note c' = file_op_files [OF c]
  show ?thesis
  proof (cases r0)
    case (Some e)
    then have "files w' = files w" "\<exists>e. res = Inl e"
      using assms(4) c c' by (auto simp: BuildFile_def os_CreateTemp_def tmp_def [symmetric] Let_def)
    then show ?thesis
      using fresh(1) by (intro exI [of _ tmp] exI [of _ "w\<lparr>files := (files w)(tmp \<mapsto> [])\<rparr>"]) auto
  next
    case None
    then have w0: "files w0 = (files w)(tmp \<mapsto> [])" using c' by simp
    obtain r1 w1 b1 where p: "publish W M entries path tmp opts prev maxDrop maxSkip (w0, b) = (r1, w1, b1)"
      by (metis prod_cases3)
    obtain bytes where files: "case r1 of
        Inl err \<Rightarrow> files w1 = (files w0)(tmp \<mapsto> bytes)
      | Inr r \<Rightarrow> Path r = path \<and> files w1 = (files w0)(tmp := None, path \<mapsto> bytes) \<and>
          committed W M entries tmp opts prev maxDrop maxSkip (w0, b) r bytes"
      using publish_files [OF assms(1,2) p] by blast
    show ?thesis
    proof (cases r1)
      case (Inl err)
      obtain e w2 where r: "os_Remove tmp w1 = (e, w2)" by (metis prod.exhaust)
      have res: "res = Inl err" "w' = w2"
        using assms(4) c None p Inl r by (auto simp: BuildFile_def os_CreateTemp_def tmp_def [symmetric] Let_def)
      have "files w2 = (if e = None then (files w1)(tmp := None) else files w1)"
        using file_op_files r unfolding os_Remove_def by blast
      then have w2: "files w2 = (if e = None then files w else (files w)(tmp \<mapsto> bytes))"
        using files Inl w0 undo by simp
      have "files w2 = files w \<or> (\<exists>e w1. os_Remove tmp w1 = (Some e, w2) \<and> (files w2)(tmp := None) = files w)"
        using w2 r undo by (cases e) auto
      moreover have "files w2 path = files w path" using w2 fresh(2) by simp
      ultimately show ?thesis
        using fresh(1) w0 res by (intro exI [of _ tmp] exI [of _ w0]) simp
    next
      case (Inr r)
      then have res: "res = Inr r" "w' = w1"
        using assms(4) c None p by (auto simp: BuildFile_def os_CreateTemp_def tmp_def [symmetric] Let_def)
      have "files w1 = (files w)(path \<mapsto> bytes)" using files Inr w0 undo fresh(2) by simp
      then show ?thesis
        using fresh(1) w0 res files Inr by (intro exI [of _ tmp] exI [of _ w0]) auto
    qed
  qed
qed


section \<open>Property: publishing is atomic\<close>

text \<open>
  C3. Whatever fails, and at whatever point, an unsuccessful \<open>BuildFile\<close> leaves every file as
  it was, the published database included; only the temporary file may remain, and only when
  removing it failed too. A successful one changes exactly the published path: it holds the
  bytes that \<open>Build\<close> wrote in full, which were reopened, walked without an error, and passed
  both guards; the temporary file is gone.
\<close>

theorem BuildFile_atomic:
  assumes "reader_contract M" and "leaves_files W entries" and "temp_fresh pick path (files w)"
    and "BuildFile W M pick entries path opts prev maxDrop maxSkip (w, b) = (res, w', b')"
  shows "\<exists>tmp w0. tmp \<notin> dom (files w) \<and> files w0 = (files w)(tmp \<mapsto> []) \<and> (case res of
      Inl err \<Rightarrow> files w' path = files w path \<and>
        (files w' = files w \<or> (\<exists>e w1. os_Remove tmp w1 = (Some e, w') \<and> (files w')(tmp := None) = files w))
    | Inr r \<Rightarrow> Path r = path \<and> (\<exists>bytes. files w' = (files w)(path \<mapsto> bytes) \<and>
        committed W M entries tmp opts prev maxDrop maxSkip (w0, b) r bytes))"
  by (rule BuildFile_run [OF assms])

text \<open>
  A concrete run: the writer's file format is one word, the reader accepts it, and the
  published file is replaced.
\<close>

definition word_writer :: "(addr \<Rightarrow> mmdb option, string) mmdbwriter" where
  "word_writer = \<lparr>NewTree = NewTree function_writer, InsertFunc = InsertFunc function_writer,
     WriteTo = (\<lambda>t out. (out @ ''new'', None))\<rparr>"

definition word_reader :: "(table, 'x os_scheme) maxminddb" where
  "word_reader =
     \<lparr>OpenReader = (\<lambda>p w. case files w p of
         Some bytes \<Rightarrow> if bytes = ''new'' then (Inr sample_table, w) else (Inl (LibErr ''invalid database'' []), w)
       | None \<Rightarrow> (Inl (LibErr ''no such file'' []), w)),
      OpenReaderBytes = (\<lambda>_. Inr sample_table), CloseReader = (\<lambda>_ w. (None, w)),
      ReaderMetadata = ReaderMetadata (table_reader sample_table), LookupAddr = LookupAddr (table_reader sample_table),
      ReaderNetworks = ReaderNetworks (table_reader sample_table),
      DecodeStored = DecodeStored (table_reader sample_table), DecodeMini = DecodeMini (table_reader sample_table)\<rparr>"

definition next_to :: picker where
  "next_to dir pattern m = dir @ ''/'' @ butlast pattern @ ''1''"

definition old_world :: os where
  "old_world = \<lparr>files = [''cloud.mmdb'' \<mapsto> ''old''], faults = []\<rparr>"

theorem BuildFile_atomic_witness:
  "\<exists>r w'. BuildFile word_writer word_reader next_to (seq_of [Inr (sample_entry ''aws'' ''EC2'')]) ''cloud.mmdb''
       sample_opts None (1 / 2) (1 / 4) (old_world, ()) = (Inr r, w', ()) \<and>
     files w' ''cloud.mmdb'' = Some ''new'' \<and> Count r = 1"
proof -
  let ?es = "seq_of [Inr (sample_entry ''aws'' ''EC2'')] ::
    (item, ((addr \<Rightarrow> mmdb option) build_state \<times> os) \<times> unit) seq"
  let ?run = "BuildFile word_writer word_reader next_to ?es ''cloud.mmdb'' sample_opts None (1 / 2) (1 / 4) (old_world, ())"
  have ok: "case fst ?run of Inr r \<Rightarrow> Count r = 1 | Inl e \<Rightarrow> False"
    by code_simp
  then obtain r w' where run: "?run = (Inr r, w', ())" "Count r = 1"
    by (cases ?run) (auto split: sum.splits)
  have reader: "reader_contract (word_reader :: (table, os) maxminddb)"
    by (auto simp: reader_contract_def word_reader_def split: option.split)
  have fresh: "temp_fresh next_to ''cloud.mmdb'' (files old_world)"
    by code_simp
  obtain tmp w0 bytes where "files w' = (files old_world)(''cloud.mmdb'' \<mapsto> bytes)"
      "committed word_writer word_reader ?es tmp sample_opts None (1 / 2) (1 / 4) (w0, ()) r bytes"
    using BuildFile_atomic [OF reader seq_of_leaves_files fresh run(1)] by auto
  moreover from this(2) obtain sts env' where "Build word_writer ?es [] sample_opts (w0, ()) = (bytes, sts, None, env')"
    by (auto simp: committed_def)
  then have "bytes = ''new''"
    by (auto simp: Build_def word_writer_def split: sum.splits option.splits prod.splits if_splits)
  ultimately show ?thesis using run by auto
qed

end
