(* ===== verification/Runs.thy ===== *)
theory Runs
  imports Main
begin

text \<open>
  Runs of a step relation, for the concurrent parts of the program: their closure properties,
  invariants, and the simulation of one relation by another, as interfaces.
\<close>

inductive runs :: "('s \<Rightarrow> 's \<Rightarrow> bool) \<Rightarrow> 's \<Rightarrow> 's \<Rightarrow> bool" for st where
  start: "runs st s s"
| more: "runs st s s' \<Longrightarrow> st s' s'' \<Longrightarrow> runs st s s''"

lemma runs_step: "st s s' \<Longrightarrow> runs st s s'"
  by (rule runs.more [OF runs.start])

lemma runs_trans: "runs st s' s'' \<Longrightarrow> runs st s s' \<Longrightarrow> runs st s s''"
  by (induction rule: runs.induct) (auto intro: runs.more)

text \<open>What every step keeps, every run keeps.\<close>

locale invariant =
  fixes st :: "'s \<Rightarrow> 's \<Rightarrow> bool" and inv :: "'s \<Rightarrow> bool"
  assumes step_inv: "st s s' \<Longrightarrow> inv s \<Longrightarrow> inv s'"
begin

lemma runs_inv: "runs st s s' \<Longrightarrow> inv s \<Longrightarrow> inv s'"
  by (induction rule: runs.induct) (auto intro: step_inv)

end

text \<open>Every step of the detailed system is a step of the abstract one, or none at all.\<close>

locale simulation =
  fixes detailed :: "'s \<Rightarrow> 's \<Rightarrow> bool" and abstract :: "'a \<Rightarrow> 'a \<Rightarrow> bool" and view :: "'s \<Rightarrow> 'a"
  assumes step_view: "detailed s s' \<Longrightarrow> view s' = view s \<or> abstract (view s) (view s')"
begin

lemma runs_view: "runs detailed s s' \<Longrightarrow> runs abstract (view s) (view s')"
proof (induction rule: runs.induct)
  case (more s s1 s2)
  then show ?case using step_view [OF more.hyps(2)] runs.more by metis
qed (rule runs.start)

end

end
