(* ===== verification/Service.thy ===== *)
theory Service
  imports Reader Runs "HOL-Library.Multiset"
begin

text \<open>
  \<open>server/service.go\<close>: the lookup core behind both servers, and what happens to database
  handles while lookups, reloads and the shutdown run concurrently.
\<close>

section \<open>The service\<close>

text \<open>
  A call either returns or panics. The only panic of this code is the use of a nil database.
\<close>

datatype 'a outcome = Returns 'a | Panics string

definition nil_dereference :: string where
  "nil_dereference = ''invalid memory address or nil pointer dereference''"

text \<open>
  The counters are \<open>atomic.Int64\<close>; \<open>svcDB\<close> is the atomic pointer (nil before the first load).
  The mutex is not a field: the operations that hold it are single steps below.
\<close>

record 'h service =
  svcPath :: string
  svcDB :: "'h DB option"
  lookups :: "64 word"
  hits :: "64 word"
  errorCount :: "64 word"
  svcClosed :: bool
  svcIndex :: bool

definition closeGrace :: int where
  "closeGrace = 30 * 1000000000"

definition svc_load :: "('h, 'w) maxminddb \<Rightarrow> 'h service \<Rightarrow> 'w \<Rightarrow> (error + 'h DB) \<times> 'w" where
  "svc_load M s w = (case OpenValidated M (svcPath s) w of
     (Inl err, w) \<Rightarrow> (Inl err, w)
   | (Inr db, w) \<Rightarrow>
       if svcIndex s then
         (case BuildIndex M db of
            (Some err, db) \<Rightarrow> (case CloseDB M db w of (_, w) \<Rightarrow> (Inl (Errorf ''build index: %w'' [E err]), w))
          | (None, db) \<Rightarrow> (Inr db, w))
       else (Inr db, w))"

definition NewServiceIndexed :: "('h, 'w) maxminddb \<Rightarrow> string \<Rightarrow> bool \<Rightarrow> 'w \<Rightarrow> (error + 'h service) \<times> 'w" where
  "NewServiceIndexed M path index w =
     (let s = \<lparr>svcPath = path, svcDB = None, lookups = 0, hits = 0, errorCount = 0, svcClosed = False, svcIndex = index\<rparr> in
      case svc_load M s w of
        (Inl err, w) \<Rightarrow> (Inl err, w)
      | (Inr db, w) \<Rightarrow> (Inr (s\<lparr>svcDB := Some db\<rparr>), w))"

definition NewService :: "('h, 'w) maxminddb \<Rightarrow> string \<Rightarrow> 'w \<Rightarrow> (error + 'h service) \<times> 'w" where
  "NewService M path w = NewServiceIndexed M path False w"

text \<open>The part of \<open>Reload\<close> that holds the mutex: \<open>closeAfter\<close> takes care of the handle replaced.\<close>

definition svc_install :: "('h, 'w) maxminddb \<Rightarrow> ('h DB \<Rightarrow> 'w \<Rightarrow> 'w) \<Rightarrow> 'h DB \<Rightarrow> 'h service \<Rightarrow> 'w \<Rightarrow> 'h service \<times> 'w" where
  "svc_install M closeAfter db s w =
     (if svcClosed s then (s, snd (CloseDB M db w))
      else (s\<lparr>svcDB := Some db\<rparr>, (case svcDB s of Some old \<Rightarrow> closeAfter old w | None \<Rightarrow> w)))"

definition Reload :: "('h, 'w) maxminddb \<Rightarrow> ('h DB \<Rightarrow> 'w \<Rightarrow> 'w) \<Rightarrow> 'h service \<Rightarrow> 'w \<Rightarrow> error option \<times> 'h service \<times> 'w" where
  "Reload M closeAfter s w = (case svc_load M s w of
     (Inl err, w) \<Rightarrow> (Some (Errorf ''reload %s: %w'' [S (svcPath s), E err]), s, w)
   | (Inr db, w) \<Rightarrow> (None, svc_install M closeAfter db s w))"

definition svc_Close :: "('h, 'w) maxminddb \<Rightarrow> 'h service \<Rightarrow> 'w \<Rightarrow> error option \<times> 'h service \<times> 'w" where
  "svc_Close M s w =
     (if svcClosed s then (None, s, w)
      else (let s = s\<lparr>svcClosed := True\<rparr> in
        case svcDB s of
          Some db \<Rightarrow> (case CloseDB M db w of (err, w) \<Rightarrow> (err, s, w))
        | None \<Rightarrow> (None, s, w)))"

text \<open>
  Both lookups: count, parse the address, ask the current database, count the outcome. \<open>query\<close>
  is the lookup of the database (\<open>DB.Lookup\<close> or \<open>DB.LookupProvider\<close>).
\<close>

definition svc_query :: "('h DB \<Rightarrow> addr \<Rightarrow> error + 'r option) \<Rightarrow> string \<Rightarrow> 'h service \<Rightarrow>
    (error + 'r option) outcome \<times> 'h service" where
  "svc_query query ipStr s =
     (let s = s\<lparr>lookups := lookups s + 1\<rparr> in
      case ParseAddr ipStr of
        Inl err \<Rightarrow> (Returns (Inl (Errorf ''invalid ip %q: %w'' [S ipStr, E err])), s\<lparr>errorCount := errorCount s + 1\<rparr>)
      | Inr a \<Rightarrow>
          (case svcDB s of
             None \<Rightarrow> (Panics nil_dereference, s)
           | Some db \<Rightarrow>
               (case query db a of
                  Inl err \<Rightarrow> (Returns (Inl err), s\<lparr>errorCount := errorCount s + 1\<rparr>)
                | Inr found \<Rightarrow>
                    (Returns (Inr found), if found \<noteq> None then s\<lparr>hits := hits s + 1\<rparr> else s))))"

definition svc_Lookup :: "('h, 'w) maxminddb \<Rightarrow> string \<Rightarrow> 'h service \<Rightarrow> (error + Record option) outcome \<times> 'h service" where
  "svc_Lookup M = svc_query (DB_Lookup M)"

definition svc_LookupProvider :: "('h, 'w) maxminddb \<Rightarrow> string \<Rightarrow> 'h service \<Rightarrow>
    (error + (string \<times> string) option) outcome \<times> 'h service" where
  "svc_LookupProvider M = svc_query (LookupProvider M)"

record Stats =
  StLookups :: int
  StHits :: int
  StErrors :: int

definition svc_Stats :: "'h service \<Rightarrow> Stats" where
  "svc_Stats s = \<lparr>StLookups = sint (lookups s), StHits = sint (hits s), StErrors = sint (errorCount s)\<rparr>"

section \<open>A loaded service\<close>

lemma NewServiceIndexed_loaded:
  "NewServiceIndexed M path index w = (Inr s, w') \<Longrightarrow> svcDB s \<noteq> None \<and> lookups s = 0 \<and> hits s = 0 \<and> errorCount s = 0"
  by (auto simp: NewServiceIndexed_def Let_def split: prod.splits sum.splits)

lemma svc_install_loaded: "svcDB s \<noteq> None \<Longrightarrow> svcDB (fst (svc_install M c db s w)) \<noteq> None"
  by (simp add: svc_install_def)

text \<open>What a loaded service answers, and how it counts.\<close>

definition query_result :: "('h DB \<Rightarrow> addr \<Rightarrow> error + 'r option) \<Rightarrow> 'h DB \<Rightarrow> string \<Rightarrow> error + 'r option" where
  "query_result query db ipStr = (case ParseAddr ipStr of
     Inl err \<Rightarrow> Inl (Errorf ''invalid ip %q: %w'' [S ipStr, E err])
   | Inr a \<Rightarrow> query db a)"

definition counted :: "error + 'r option \<Rightarrow> 'h service \<Rightarrow> 'h service" where
  "counted r s = s\<lparr>lookups := lookups s + 1,
     hits := hits s + (case r of Inr (Some _) \<Rightarrow> 1 | _ \<Rightarrow> 0),
     errorCount := errorCount s + (if isl r then 1 else 0)\<rparr>"

lemma svc_query_loaded:
  "svcDB s = Some db \<Longrightarrow> svc_query q x s = (let r = query_result q db x in (Returns r, counted r s))"
  by (auto simp: svc_query_def query_result_def counted_def Let_def split: sum.split option.split)

lemma counted_fields:
  "svcDB (counted r s) = svcDB s" "svcClosed (counted r s) = svcClosed s" "svcPath (counted r s) = svcPath s"
  by (simp_all add: counted_def)

section \<open>Handles under concurrency\<close>

text \<open>
  The world of the handles: which are mapped (opened and not closed), how many were opened,
  how often a handle was closed that was not mapped, the pending timers of \<open>time.AfterFunc\<close>
  with the time they are due, and the clock in nanoseconds. A handle is a number.
\<close>

record handles =
  mapped :: "nat set"
  opened :: nat
  bad_closes :: nat
  timers :: "(nat DB \<times> int) list"
  clock :: int

definition close_after :: "nat DB \<Rightarrow> handles \<Rightarrow> handles" where
  "close_after old w = w\<lparr>timers := timers w @ [(old, clock w + closeGrace)]\<rparr>"

text \<open>Opening fails, or maps a fresh handle; closing unmaps. Both leave timers and clock alone.\<close>

definition handle_contract :: "(nat, handles) maxminddb \<Rightarrow> bool" where
  "handle_contract M \<longleftrightarrow>
     (\<forall>p w. (case OpenReader M p w of
        (Inl _, w') \<Rightarrow> w' = w
      | (Inr h, w') \<Rightarrow> h = opened w \<and> w' = w\<lparr>mapped := insert h (mapped w), opened := opened w + 1\<rparr>)) \<and>
     (\<forall>h w. snd (CloseReader M h w) = (if h \<in> mapped w then w\<lparr>mapped := mapped w - {h}\<rparr>
        else w\<lparr>bad_closes := bad_closes w + 1\<rparr>))"

text \<open>
  The system: the service, the handles, the reloads that have loaded a database and wait for
  the mutex, and the lookups in flight with the handle they read and the time they started.
\<close>

record system =
  svc :: "nat service"
  world :: handles
  loading :: "nat DB list"
  inflight :: "(nat DB \<times> int) list"

text \<open>
  The steps that interleave. A reload is two: loading, and installing under the mutex. A
  lookup is two: taking the pointer, and being done. \<open>Tick\<close> lets time pass; that no lookup
  takes longer than \<open>longest\<close> is an assumption on the machine, a bound on how far.
\<close>

inductive step :: "(nat, handles) maxminddb \<Rightarrow> int \<Rightarrow> system \<Rightarrow> system \<Rightarrow> bool" for M longest where
  Load: "svc_load M (svc s) (world s) = (Inr db, w) \<Longrightarrow>
    step M longest s (s\<lparr>world := w, loading := db # loading s\<rparr>)"
| LoadFails: "svc_load M (svc s) (world s) = (Inl err, w) \<Longrightarrow> step M longest s (s\<lparr>world := w\<rparr>)"
| Install: "loading s = ls1 @ db # ls2 \<Longrightarrow> svc_install M close_after db (svc s) (world s) = (s', w) \<Longrightarrow>
    step M longest s (s\<lparr>svc := s', world := w, loading := ls1 @ ls2\<rparr>)"
| Shutdown: "svc_Close M (svc s) (world s) = (err, s', w) \<Longrightarrow> step M longest s (s\<lparr>svc := s', world := w\<rparr>)"
| Begin: "svcDB (svc s) = Some db \<Longrightarrow>
    step M longest s (s\<lparr>inflight := (db, clock (world s)) # inflight s\<rparr>)"
| Done: "inflight s = fs1 @ f # fs2 \<Longrightarrow> step M longest s (s\<lparr>inflight := fs1 @ fs2\<rparr>)"
| Fire: "timers (world s) = ts1 @ (old, due) # ts2 \<Longrightarrow> due \<le> clock (world s) \<Longrightarrow>
    step M longest s (s\<lparr>world := snd (CloseDB M old ((world s)\<lparr>timers := ts1 @ ts2\<rparr>))\<rparr>)"
| Tick: "0 \<le> d \<Longrightarrow> list_all (\<lambda>(db, start). clock (world s) + d \<le> start + longest) (inflight s) \<Longrightarrow>
    step M longest s (s\<lparr>world := (world s)\<lparr>clock := clock (world s) + d\<rparr>\<rparr>)"

abbreviation reachable :: "(nat, handles) maxminddb \<Rightarrow> int \<Rightarrow> system \<Rightarrow> system \<Rightarrow> bool" where
  "reachable M longest \<equiv> runs (step M longest)"

lemmas reachable_step = runs_step [where st = "step M longest" for M longest]
lemmas reachable_more = runs.more [where st = "step M longest" for M longest]
lemmas reachable_trans = runs_trans [where st = "step M longest" for M longest]

text \<open>A freshly started service.\<close>

definition started :: "(nat, handles) maxminddb \<Rightarrow> system \<Rightarrow> bool" where
  "started M s \<longleftrightarrow> loading s = [] \<and> inflight s = [] \<and>
     (\<exists>path index sv w. NewServiceIndexed M path index
        \<lparr>mapped = {}, opened = 0, bad_closes = 0, timers = [], clock = 0\<rparr> = (Inr sv, w) \<and> svc s = sv \<and> world s = w)"

section \<open>Who owns a handle\<close>

text \<open>Ownership is a matter of multiplicity, not of order.\<close>

lemma distinct_mset: "mset xs = add_mset x (mset ys) \<Longrightarrow> set xs = insert x (set ys) \<and> (distinct xs \<longleftrightarrow> distinct ys \<and> x \<notin> set ys)"
  by (metis distinct.simps(2) list.simps(15) mset.simps(2) mset_eq_imp_distinct_iff set_mset_mset)

lemma handle_contractD:
  assumes "handle_contract M"
  shows "OpenReader M p w = (Inl e, w') \<Longrightarrow> w' = w"
    and "OpenReader M p w = (Inr h, w') \<Longrightarrow> h = opened w \<and> w' = w\<lparr>mapped := insert h (mapped w), opened := opened w + 1\<rparr>"
    and "CloseReader M h w = (r, w') \<Longrightarrow> w' = (if h \<in> mapped w then w\<lparr>mapped := mapped w - {h}\<rparr>
        else w\<lparr>bad_closes := bad_closes w + 1\<rparr>)"
proof -
  note contract = assms [unfolded handle_contract_def]
  have o: "case OpenReader M p w of (Inl _, w') \<Rightarrow> w' = w
      | (Inr h, w') \<Rightarrow> h = opened w \<and> w' = w\<lparr>mapped := insert h (mapped w), opened := opened w + 1\<rparr>"
    by (rule spec [OF spec [OF conjunct1 [OF contract]]])
  show "OpenReader M p w = (Inl e, w') \<Longrightarrow> w' = w"
    "OpenReader M p w = (Inr h, w') \<Longrightarrow> h = opened w \<and> w' = w\<lparr>mapped := insert h (mapped w), opened := opened w + 1\<rparr>"
    using o by simp_all
  have "snd (CloseReader M h w) = (if h \<in> mapped w then w\<lparr>mapped := mapped w - {h}\<rparr>
        else w\<lparr>bad_closes := bad_closes w + 1\<rparr>)"
    by (rule spec [OF spec [OF conjunct2 [OF contract]]])
  then show "CloseReader M h w = (r, w') \<Longrightarrow> w' = (if h \<in> mapped w then w\<lparr>mapped := mapped w - {h}\<rparr>
        else w\<lparr>bad_closes := bad_closes w + 1\<rparr>)" by simp
qed

lemma CloseDB_mapped:
  assumes "handle_contract M" "rdr db \<in> mapped w"
  shows "snd (CloseDB M db w) = w\<lparr>mapped := mapped w - {rdr db}\<rparr>"
  using handle_contractD(3) [OF assms(1), of "rdr db" w] assms(2)
  by (cases "CloseReader M (rdr db) w") (simp add: CloseDB_def)

text \<open>Loading leaves the handles as they are or adds one, fresh and mapped; it loses none.\<close>

lemma svc_load_handles:
  assumes "handle_contract M" "\<forall>h \<in> mapped w. h < opened w" "svc_load M s w = (r, w')"
  shows "case r of
      Inl _ \<Rightarrow> w' = w\<lparr>opened := opened w'\<rparr> \<and> opened w \<le> opened w'
    | Inr db \<Rightarrow> rdr db = opened w \<and> w' = w\<lparr>mapped := insert (opened w) (mapped w), opened := opened w + 1\<rparr>"
proof (cases "OpenReader M (svcPath s) w")
  case (Pair ro w1)
  show ?thesis
  proof (cases ro)
    case (Inl e)
    then show ?thesis
      using assms(3) Pair handle_contractD(1) [OF assms(1), of "svcPath s" w e w1]
      by (auto simp: svc_load_def OpenValidated_def Open_def)
  next
    case (Inr h)
    then have h: "h = opened w" "w1 = w\<lparr>mapped := insert h (mapped w), opened := opened w + 1\<rparr>"
      using Pair handle_contractD(2) [OF assms(1)] by auto
    have fresh: "opened w \<notin> mapped w" using assms(2) by auto
    let ?db = "\<lparr>rdr = h, idx = None\<rparr>"
    have closed: "snd (CloseDB M db w1) = w\<lparr>opened := opened w + 1\<rparr>" if "rdr db = h" for db
      using CloseDB_mapped [OF assms(1), of db w1] that h fresh by simp
    have index: "rdr (snd (BuildIndex M ?db)) = h"
      by (auto simp: BuildIndex_def split: sum.split)
    have open1: "Open M (svcPath s) w = (Inr ?db, w1)" using Pair Inr by (simp add: Open_def)
    show ?thesis
    proof (cases "Validate M ?db")
      case (Some e)
      then show ?thesis
        using assms(3) open1 closed [of ?db] by (auto simp: svc_load_def OpenValidated_def split: prod.splits)
    next
      case None
      then have valid: "OpenValidated M (svcPath s) w = (Inr ?db, w1)" by (simp add: OpenValidated_def open1)
      obtain ie db where bi: "BuildIndex M ?db = (ie, db)" by (metis prod.exhaust)
      then have rd: "rdr db = h" using index by simp
      show ?thesis
        using assms(3) valid bi closed [OF rd] h rd
        by (cases "svcIndex s"; cases ie) (auto simp: svc_load_def split: prod.splits)
    qed
  qed
qed

definition current :: "system \<Rightarrow> nat list" where
  "current s = (if svcClosed (svc s) then [] else [rdr (the (svcDB (svc s)))])"

definition owned :: "system \<Rightarrow> nat list" where
  "owned s = current s @ map (rdr \<circ> fst) (timers (world s)) @ map rdr (loading s)"

text \<open>
  A lookup in flight reads the current database or one that was replaced after the lookup
  started, whose timer is still a grace period away from that start.
\<close>

definition protected :: "system \<Rightarrow> nat DB \<times> int \<Rightarrow> bool" where
  "protected s f \<longleftrightarrow> svcDB (svc s) = Some (fst f) \<or>
     (\<exists>due. (fst f, due) \<in> set (timers (world s)) \<and> snd f + closeGrace \<le> due)"

definition system_inv :: "int \<Rightarrow> system \<Rightarrow> bool" where
  "system_inv longest s \<longleftrightarrow>
     svcDB (svc s) \<noteq> None \<and> mapped (world s) = set (owned s) \<and> distinct (owned s) \<and>
     (\<forall>h \<in> mapped (world s). h < opened (world s)) \<and> bad_closes (world s) = 0 \<and>
     (\<forall>f \<in> set (inflight s). snd f \<le> clock (world s) \<and> clock (world s) \<le> snd f + longest \<and> protected s f)"

lemma system_invD:
  assumes "system_inv longest s"
  obtains db where "svcDB (svc s) = Some db" "mapped (world s) = set (owned s)" "distinct (owned s)"
    "\<forall>h \<in> mapped (world s). h < opened (world s)" "bad_closes (world s) = 0"
    "\<forall>f \<in> set (inflight s). snd f \<le> clock (world s) \<and> clock (world s) \<le> snd f + longest \<and> protected s f"
  using assms by (auto simp: system_inv_def)

lemma inv_Load:
  assumes "handle_contract M" "system_inv longest s" "svc_load M (svc s) (world s) = (r, w)"
  shows "system_inv longest (case r of Inl _ \<Rightarrow> s\<lparr>world := w\<rparr> | Inr db \<Rightarrow> s\<lparr>world := w, loading := db # loading s\<rparr>)"
proof -
  obtain cur where inv: "svcDB (svc s) = Some cur" "mapped (world s) = set (owned s)" "distinct (owned s)"
    "\<forall>h \<in> mapped (world s). h < opened (world s)" "bad_closes (world s) = 0"
    "\<forall>f \<in> set (inflight s). snd f \<le> clock (world s) \<and> clock (world s) \<le> snd f + longest \<and> protected s f"
    using system_invD [OF assms(2)] .
  note load = svc_load_handles [OF assms(1) inv(4) assms(3)]
  show ?thesis
  proof (cases r)
    case (Inl e)
    then have w: "timers w = timers (world s)" "mapped w = mapped (world s)" "bad_closes w = bad_closes (world s)"
        "clock w = clock (world s)" "opened (world s) \<le> opened w"
      using load by (auto dest: arg_cong [where f = timers] arg_cong [where f = mapped]
          arg_cong [where f = bad_closes] arg_cong [where f = clock])
    have "owned (s\<lparr>world := w\<rparr>) = owned s" using w by (simp add: owned_def current_def)
    moreover have "protected (s\<lparr>world := w\<rparr>) f \<longleftrightarrow> protected s f" for f using w by (simp add: protected_def)
    ultimately show ?thesis
      using inv w Inl by (auto simp: system_inv_def)
  next
    case (Inr db)
    then have w: "rdr db = opened (world s)"
        "w = (world s)\<lparr>mapped := insert (opened (world s)) (mapped (world s)), opened := opened (world s) + 1\<rparr>"
      using load by auto
    let ?s = "s\<lparr>world := w, loading := db # loading s\<rparr>"
    have fresh: "opened (world s) \<notin> set (owned s)" using inv(2,4) by auto
    have "mset (owned ?s) = add_mset (opened (world s)) (mset (owned s))"
      using w by (simp add: owned_def current_def)
    from distinct_mset [OF this]
    have "set (owned ?s) = insert (opened (world s)) (set (owned s))" "distinct (owned ?s)"
      using fresh inv(3) by simp_all
    moreover have "protected ?s f \<longleftrightarrow> protected s f" for f using w by (simp add: protected_def)
    ultimately show ?thesis
      using inv w Inr by (auto simp: system_inv_def)
  qed
qed

text \<open>A step that gives up the handle \<open>h\<close> closes it; one that keeps all closes none.\<close>

lemma inv_keep:
  assumes "system_inv longest s" "mset (owned s') = mset (owned s)" "svcDB (svc s') \<noteq> None"
    and "mapped (world s') = mapped (world s)" "opened (world s') = opened (world s)" "bad_closes (world s') = bad_closes (world s)"
    and "\<forall>f \<in> set (inflight s'). snd f \<le> clock (world s') \<and> clock (world s') \<le> snd f + longest \<and> protected s' f"
  shows "system_inv longest s'"
proof -
  have "set (owned s') = set (owned s)" "distinct (owned s') \<longleftrightarrow> distinct (owned s)"
    using assms(2) mset_eq_setD mset_eq_imp_distinct_iff by blast+
  then show ?thesis using assms by (simp add: system_inv_def)
qed

lemma inv_close:
  assumes "handle_contract M" "system_inv longest s" "mset (owned s) = add_mset (rdr db) (mset (owned s'))"
    and "w = (world s)\<lparr>timers := ts\<rparr>" "world s' = snd (CloseDB M db w)" "svcDB (svc s') \<noteq> None"
    and "\<forall>f \<in> set (inflight s'). snd f \<le> clock (world s) \<and> clock (world s) \<le> snd f + longest \<and> protected s' f"
  shows "system_inv longest s'"
proof -
  note m = distinct_mset [OF assms(3)]
  have inv: "mapped (world s) = set (owned s)" "distinct (owned s)" "\<forall>h \<in> mapped (world s). h < opened (world s)"
    "bad_closes (world s) = 0" using assms(2) by (auto simp: system_inv_def)
  then have "rdr db \<in> mapped w" using m assms(4) by simp
  from CloseDB_mapped [OF assms(1) this] have w: "world s' = w\<lparr>mapped := mapped w - {rdr db}\<rparr>" using assms(5) by simp
  have "mapped (world s') = set (owned s')" using w m inv(1,2) assms(4) by auto
  then show ?thesis
    using w m inv assms(4,6,7) by (auto simp: system_inv_def)
qed

lemma inv_Install:
  assumes "handle_contract M" "system_inv longest s" "loading s = ls1 @ db # ls2"
    and "svc_install M close_after db (svc s) (world s) = (sv, w)"
  shows "system_inv longest (s\<lparr>svc := sv, world := w, loading := ls1 @ ls2\<rparr>)"
proof -
  let ?s = "s\<lparr>svc := sv, world := w, loading := ls1 @ ls2\<rparr>"
  obtain cur where cur: "svcDB (svc s) = Some cur" using system_invD [OF assms(2)] by metis
  have fl: "\<forall>f \<in> set (inflight s). snd f \<le> clock (world s) \<and> clock (world s) \<le> snd f + longest \<and> protected s f"
    using assms(2) by (simp add: system_inv_def)
  show ?thesis
  proof (cases "svcClosed (svc s)")
    case True
    then have sv: "sv = svc s" "w = snd (CloseDB M db ((world s)\<lparr>timers := timers (world s)\<rparr>))"
      using assms(4) by (auto simp: svc_install_def)
    show ?thesis
    proof (rule inv_close [where ts = "timers (world s)", OF assms(1,2) _ refl])
      have "timers w = timers (world s)"
        using CloseDB_mapped [OF assms(1), of db "world s"] sv assms(2,3)
        by (simp add: system_inv_def owned_def)
      then show "mset (owned s) = add_mset (rdr db) (mset (owned ?s))"
        "\<forall>f \<in> set (inflight ?s). snd f \<le> clock (world s) \<and> clock (world s) \<le> snd f + longest \<and> protected ?s f"
        using assms(3) sv fl by (simp_all add: owned_def current_def protected_def)
    qed (use sv cur in simp_all)
  next
    case False
    then have sv: "sv = (svc s)\<lparr>svcDB := Some db\<rparr>" "w = close_after cur (world s)"
      using assms(4) cur by (auto simp: svc_install_def)
    show ?thesis
    proof (rule inv_keep [OF assms(2)])
      show "mset (owned ?s) = mset (owned s)"
        using assms(3) sv cur False by (simp add: owned_def current_def close_after_def)
      show "\<forall>f \<in> set (inflight ?s). snd f \<le> clock (world ?s) \<and> clock (world ?s) \<le> snd f + longest \<and> protected ?s f"
      proof
        fix f assume "f \<in> set (inflight ?s)"
        then have f: "snd f \<le> clock (world s)" "clock (world s) \<le> snd f + longest" "protected s f" using fl by auto
        have "(cur, clock (world s) + closeGrace) \<in> set (timers w)" "set (timers (world s)) \<subseteq> set (timers w)"
          using sv by (auto simp: close_after_def)
        then have "protected ?s f"
          using f(1,3) cur unfolding protected_def by (auto intro: exI [of _ "clock (world s) + closeGrace"])
        then show "snd f \<le> clock (world ?s) \<and> clock (world ?s) \<le> snd f + longest \<and> protected ?s f"
          using f sv by (simp add: close_after_def)
      qed
    qed (simp_all add: sv close_after_def)
  qed
qed

lemma inv_Shutdown:
  assumes "handle_contract M" "system_inv longest s" "svc_Close M (svc s) (world s) = (err, sv, w)"
  shows "system_inv longest (s\<lparr>svc := sv, world := w\<rparr>)"
proof (cases "svcClosed (svc s)")
  case True
  then have "sv = svc s" "w = world s" using assms(3) by (auto simp: svc_Close_def)
  then show ?thesis using assms(2) by simp
next
  case False
  let ?s = "s\<lparr>svc := sv, world := w\<rparr>"
  obtain cur where cur: "svcDB (svc s) = Some cur" using system_invD [OF assms(2)] by metis
  have sv: "sv = (svc s)\<lparr>svcClosed := True\<rparr>" "w = snd (CloseDB M cur ((world s)\<lparr>timers := timers (world s)\<rparr>))"
    using assms(3) cur False by (auto simp: svc_Close_def split: prod.splits)
  have fl: "\<forall>f \<in> set (inflight s). snd f \<le> clock (world s) \<and> clock (world s) \<le> snd f + longest \<and> protected s f"
    using assms(2) by (simp add: system_inv_def)
  show ?thesis
  proof (rule inv_close [where ts = "timers (world s)", OF assms(1,2) _ refl])
    have "timers w = timers (world s)"
      using CloseDB_mapped [OF assms(1), of cur "world s"] sv assms(2) cur False
      by (simp add: system_inv_def owned_def current_def)
    then show "mset (owned s) = add_mset (rdr cur) (mset (owned ?s))"
      "\<forall>f \<in> set (inflight ?s). snd f \<le> clock (world s) \<and> clock (world s) \<le> snd f + longest \<and> protected ?s f"
      using sv cur False fl by (simp_all add: owned_def current_def protected_def)
  qed (use sv cur in simp_all)
qed

lemma inv_Fire:
  assumes "handle_contract M" "system_inv longest s" "longest < closeGrace"
    and "timers (world s) = ts1 @ (old, due) # ts2" "due \<le> clock (world s)"
  shows "system_inv longest (s\<lparr>world := snd (CloseDB M old ((world s)\<lparr>timers := ts1 @ ts2\<rparr>))\<rparr>)"
proof -
  let ?w = "(world s)\<lparr>timers := ts1 @ ts2\<rparr>"
  let ?s = "s\<lparr>world := snd (CloseDB M old ?w)\<rparr>"
  have inv: "svcDB (svc s) \<noteq> None" "mapped (world s) = set (owned s)"
    "\<forall>f \<in> set (inflight s). snd f \<le> clock (world s) \<and> clock (world s) \<le> snd f + longest \<and> protected s f"
    using assms(2) by (auto simp: system_inv_def)
  have t: "timers (world ?s) = ts1 @ ts2"
    using CloseDB_mapped [OF assms(1), of old ?w] inv(2) assms(4) by (simp add: owned_def)
  show ?thesis
  proof (rule inv_close [OF assms(1,2) _ refl])
    show "mset (owned s) = add_mset (rdr old) (mset (owned ?s))"
      using t assms(4) by (simp add: owned_def current_def)
    have "protected ?s f" if "f \<in> set (inflight s)" for f
    proof -
      have "(fst f, d) \<in> set (ts1 @ ts2)" if "(fst f, d) \<in> set (timers (world s))" "snd f + closeGrace \<le> d" for d
      proof -
        have "due < d" using that(2) inv(3) \<open>f \<in> set (inflight s)\<close> assms(3,5) by force
        then show ?thesis using that(1) assms(4) by auto
      qed
      then show ?thesis using inv(3) that t unfolding protected_def by fastforce
    qed
    then show "\<forall>f \<in> set (inflight ?s). snd f \<le> clock (world s) \<and> clock (world s) \<le> snd f + longest \<and> protected ?s f"
      using inv(3) by simp
  qed (use inv in simp_all)
qed


lemma inv_step:
  assumes "handle_contract M" "0 \<le> longest" "longest < closeGrace" "step M longest s s'" "system_inv longest s"
  shows "system_inv longest s'"
  using assms(4)
proof cases
  case (Load db w)
  then show ?thesis using inv_Load [OF assms(1,5) Load(2)] by simp
next
  case (LoadFails err w)
  then show ?thesis using inv_Load [OF assms(1,5) LoadFails(2)] by simp
next
  case (Install ls1 db ls2 sv w)
  then show ?thesis using inv_Install [OF assms(1,5)] by simp
next
  case (Shutdown err sv w)
  then show ?thesis using inv_Shutdown [OF assms(1,5)] by simp
next
  case (Begin db)
  have "protected s' f \<longleftrightarrow> protected s f" for f using Begin(1) by (simp add: protected_def)
  then show ?thesis
    using assms(2,5) Begin
    by (intro inv_keep [OF assms(5)]) (simp_all add: system_inv_def owned_def current_def protected_def)
next
  case (Done fs1 f fs2)
  have "protected s' f \<longleftrightarrow> protected s f" for f using Done(1) by (simp add: protected_def)
  then show ?thesis
    using assms(5) Done
    by (intro inv_keep [OF assms(5)]) (simp_all add: system_inv_def owned_def current_def)
next
  case (Fire ts1 old due ts2)
  then show ?thesis using inv_Fire [OF assms(1,5,3)] by simp
next
  case (Tick d)
  have "protected s' f \<longleftrightarrow> protected s f" for f using Tick(1) by (simp add: protected_def)
  then show ?thesis
    using assms(5) Tick
    by (intro inv_keep [OF assms(5)]) (auto simp: system_inv_def owned_def current_def list_all_iff)
qed

lemma inv_started:
  assumes "handle_contract M" "started M s"
  shows "system_inv longest s"
proof -
  obtain path index where new: "NewServiceIndexed M path index
      \<lparr>mapped = {}, opened = 0, bad_closes = 0, timers = [], clock = 0\<rparr> = (Inr (svc s), world s)"
      "loading s = []" "inflight s = []"
    using assms(2) by (auto simp: started_def)
  then obtain db s0 where load: "svc_load M s0 \<lparr>mapped = {}, opened = 0, bad_closes = 0, timers = [], clock = 0\<rparr> =
      (Inr db, world s)" "svcDB (svc s) = Some db" "\<not> svcClosed (svc s)"
    by (auto simp: NewServiceIndexed_def Let_def dest!: sym [of _ "svc s"] split: prod.splits sum.splits)
  have "rdr db = 0 \<and> world s = \<lparr>mapped = {0}, opened = 1, bad_closes = 0, timers = [], clock = 0\<rparr>"
    using svc_load_handles [OF assms(1) _ load(1)] by simp
  then show ?thesis using load new by (simp add: system_inv_def owned_def current_def)
qed

definition system_ok :: "(nat, handles) maxminddb \<Rightarrow> int \<Rightarrow> system \<Rightarrow> bool" where
  "system_ok M longest s \<longleftrightarrow> handle_contract M \<and> 0 \<le> longest \<and> longest < closeGrace \<and> system_inv longest s"

interpretation service_run: invariant "step M longest" "system_ok M longest" for M longest
  by unfold_locales (auto simp: system_ok_def intro: inv_step)

lemma inv_reachable:
  assumes "handle_contract M" "0 \<le> longest" "longest < closeGrace" "reachable M longest s s'" "started M s"
  shows "system_inv longest s'"
  using service_run.runs_inv [OF assms(4)] inv_started [OF assms(1,5)] assms(1-3) by (simp add: system_ok_def)

section \<open>Properties of handles\<close>

text \<open>
  C8. However reloads, lookups, timers and the shutdown interleave, as long as no lookup takes
  longer than the grace period: a lookup in flight never reads an unmapped database, unless
  it reads the one that \<open>Close\<close> released at the shutdown, and no handle is closed twice.
\<close>

theorem no_use_after_unmap:
  assumes "handle_contract M" and "0 \<le> longest" and "longest < closeGrace" and "started M s"
    and "reachable M longest s s'" and "(db, start) \<in> set (inflight s')"
  shows "(rdr db \<in> mapped (world s') \<or> svcClosed (svc s') \<and> svcDB (svc s') = Some db) \<and> bad_closes (world s') = 0"
proof -
  have inv: "system_inv longest s'" using inv_reachable [OF assms(1-3,5,4)] .
  then have "protected s' (db, start)" using assms(6) by (auto simp: system_inv_def)
  then have "svcDB (svc s') = Some db \<or> rdr db \<in> rdr ` fst ` set (timers (world s'))"
    by (force simp: protected_def)
  then show ?thesis
    using inv by (auto simp: system_inv_def owned_def current_def)
qed

text \<open>
  C20. No handle leaks: at every moment the mapped handles are exactly, each once, the current
  database (until the shutdown), the replaced ones whose timer is pending, and those a reload
  is about to install. After the shutdown, once the reloads and timers in flight are through,
  nothing is mapped.
\<close>

theorem no_handle_leaks:
  assumes "handle_contract M" and "0 \<le> longest" and "longest < closeGrace" and "started M s"
    and "reachable M longest s s'"
  shows "mapped (world s') = set (owned s') \<and> distinct (owned s') \<and>
    (svcClosed (svc s') \<and> loading s' = [] \<and> timers (world s') = [] \<longrightarrow> mapped (world s') = {})"
  using inv_reachable [OF assms(1-3,5,4)] by (auto simp: system_inv_def owned_def current_def)

section \<open>The shutdown can always complete\<close>

lemma drain_inflight: "reachable M l s (s\<lparr>inflight := []\<rparr>)"
proof (induction "inflight s" arbitrary: s)
  case Nil
  then have "s\<lparr>inflight := []\<rparr> = s" by simp
  then show ?case using runs.start [of "step M l" s] by simp
next
  case (Cons f fs)
  have st: "step M l s (s\<lparr>inflight := fs\<rparr>)"
    using Cons(2) step.Done [of s "[]" f fs M l] by simp
  have "reachable M l (s\<lparr>inflight := fs\<rparr>) (s\<lparr>inflight := fs\<rparr>\<lparr>inflight := []\<rparr>)"
    by (rule Cons(1)) simp
  then have "reachable M l (s\<lparr>inflight := fs\<rparr>) (s\<lparr>inflight := []\<rparr>)" by simp
  then show ?case by (rule reachable_trans [OF _ reachable_step [OF st]])
qed

lemma drain_loading: "svcClosed (svc s) \<Longrightarrow> \<exists>w. reachable M l s (s\<lparr>world := w, loading := []\<rparr>)"
proof (induction "loading s" arbitrary: s)
  case Nil
  then have "s\<lparr>world := world s, loading := []\<rparr> = s" by simp
  then show ?case using runs.start [of "step M l" s] by metis
next
  case (Cons db dbs)
  let ?s = "s\<lparr>svc := svc s, world := snd (CloseDB M db (world s)), loading := [] @ dbs\<rparr>"
  have st: "step M l s ?s"
    using Cons(2,3) by (intro step.Install [of s "[]" db dbs]) (simp_all add: svc_install_def)
  obtain w where "reachable M l ?s (?s\<lparr>world := w, loading := []\<rparr>)"
    using Cons(1) [of ?s] Cons(3) by auto
  from reachable_trans [OF this reachable_step [OF st]] show ?case by (intro exI [of _ w]) simp
qed

lemma drain_timers:
  assumes "handle_contract M"
  shows "\<forall>(db, due) \<in> set (timers (world s)). due \<le> clock (world s) \<Longrightarrow>
    \<exists>w. reachable M l s (s\<lparr>world := w\<rparr>) \<and> timers w = []"
proof (induction "timers (world s)" arbitrary: s)
  case Nil
  then have "s\<lparr>world := world s\<rparr> = s" by simp
  then show ?case using Nil runs.start [of "step M l" s] by metis
next
  case (Cons t ts)
  obtain db due where t: "t = (db, due)" by (cases t)
  let ?w = "(world s)\<lparr>timers := [] @ ts\<rparr>"
  let ?s = "s\<lparr>world := snd (CloseDB M db ?w)\<rparr>"
  have "due \<le> clock (world s)" using Cons(2,3) t by (metis case_prodD list.set_intros(1))
  then have st: "step M l s ?s"
    using Cons(2) t by (intro step.Fire [of s "[]" db due ts]) simp_all
  have w: "timers (world ?s) = ts" "clock (world ?s) = clock (world s)"
    using handle_contractD(3) [OF assms, of "rdr db" ?w] by (cases "CloseReader M (rdr db) ?w"; simp add: CloseDB_def)+
  then obtain w where "reachable M l ?s (?s\<lparr>world := w\<rparr>)" "timers w = []"
  proof -
    have "\<forall>(db, due) \<in> set (timers (world ?s)). due \<le> clock (world ?s)"
      using Cons(2,3) unfolding w by (metis list.set_intros(2))
    from Cons(1) [OF w(1) [symmetric] this] obtain w where
      "reachable M l ?s (?s\<lparr>world := w\<rparr>)" "timers w = []" by blast
    then show ?thesis by (rule that)
  qed
  from reachable_trans [OF this(1) reachable_step [OF st]] this(2) show ?case by (intro exI [of _ w]) simp
qed

text \<open>
  C21. From every state the system can get into, the shutdown can run to its end: lookups and
  reloads in flight finish, the pending timers come due, and no database stays mapped.
\<close>

theorem shutdown_drains:
  assumes "handle_contract M" and "0 \<le> longest" and "longest < closeGrace" and "started M s"
    and "reachable M longest s s'"
  shows "\<exists>s''. reachable M longest s' s'' \<and> svcClosed (svc s'') \<and> mapped (world s'') = {}"
proof -
  let ?r = "reachable M longest"
  obtain err sv w1 where close: "svc_Close M (svc s') (world s') = (err, sv, w1)" by (metis prod_cases3)
  define s1 where "s1 = s'\<lparr>svc := sv, world := w1\<rparr>"
  have 1: "?r s' s1" unfolding s1_def by (rule reachable_step [OF step.Shutdown [OF close]])
  have closed: "svcClosed (svc s1)"
    using close by (auto simp: s1_def svc_Close_def Let_def split: if_splits option.splits prod.splits)
  define s2 where "s2 = s1\<lparr>inflight := []\<rparr>"
  have 2: "?r s1 s2" unfolding s2_def by (rule drain_inflight)
  have "svcClosed (svc s2)" using closed by (simp add: s2_def)
  then obtain w2 where w2: "?r s2 (s2\<lparr>world := w2, loading := []\<rparr>)" using drain_loading by blast
  define s3 where "s3 = s2\<lparr>world := w2, loading := []\<rparr>"
  define d where "d = Max (insert 0 ((\<lambda>(db, due). due - clock w2) ` set (timers w2)))"
  have d: "0 \<le> d" "\<forall>(db, due) \<in> set (timers w2). due - clock w2 \<le> d"
    by (auto simp: d_def intro!: Max_ge rev_image_eqI)
  define s4 where "s4 = s3\<lparr>world := (world s3)\<lparr>clock := clock (world s3) + d\<rparr>\<rparr>"
  have 4: "?r s3 s4" unfolding s4_def
    by (rule reachable_step [OF step.Tick [OF d(1)]]) (simp add: s3_def s2_def)
  have "\<forall>(db, due) \<in> set (timers (world s4)). due \<le> clock (world s4)"
    using d(2) by (force simp: s4_def s3_def)
  then obtain w5 where w5: "?r s4 (s4\<lparr>world := w5\<rparr>)" "timers w5 = []"
    using drain_timers [OF assms(1)] by blast
  define s5 where "s5 = s4\<lparr>world := w5\<rparr>"
  have run: "?r s' s5"
    using 1 2 w2 4 w5(1) unfolding s3_def [symmetric] s5_def [symmetric] by (meson reachable_trans)
  have "svcClosed (svc s5)" "loading s5 = []" "timers (world s5) = []"
    using closed w5 by (simp_all add: s5_def s4_def s3_def s2_def)
  moreover have "system_inv longest s5"
    using inv_reachable [OF assms(1-3) _ assms(4)] reachable_trans [OF run assms(5)] by blast
  ultimately show ?thesis using run by (auto simp: system_inv_def owned_def current_def)
qed

section \<open>A run\<close>

text \<open>A database that always opens, and a lookup that was in flight while it was reloaded.\<close>

definition always_open :: "(nat, handles) maxminddb" where
  "always_open =
     \<lparr>OpenReader = (\<lambda>_ w. (Inr (opened w), w\<lparr>mapped := insert (opened w) (mapped w), opened := opened w + 1\<rparr>)),
      OpenReaderBytes = (\<lambda>_. Inl (LibErr ''bytes'' [])),
      CloseReader = (\<lambda>h w. (None, if h \<in> mapped w then w\<lparr>mapped := mapped w - {h}\<rparr>
        else w\<lparr>bad_closes := bad_closes w + 1\<rparr>)),
      ReaderMetadata = (\<lambda>_. \<lparr>MetaDatabaseType = databaseType, NodeCount = 1, RecordBits = 28, MetaBuildTime = zeroTime\<rparr>),
      LookupAddr = (\<lambda>_ _. \<lparr>ResErr = None, Found = False, Offset = 0, ResPrefix = zeroPrefix\<rparr>),
      ReaderNetworks = (\<lambda>_. []),
      DecodeStored = (\<lambda>_ _. Inl (LibErr ''decode'' [])), DecodeMini = (\<lambda>_ _. Inl (LibErr ''decode'' []))\<rparr>"

lemma always_open_contract: "handle_contract always_open"
  by (simp add: handle_contract_def always_open_def)

definition handle :: "nat \<Rightarrow> nat DB" where
  "handle n = \<lparr>rdr = n, idx = None\<rparr>"

definition serving :: "nat \<Rightarrow> nat service" where
  "serving n = \<lparr>svcPath = ''db'', svcDB = Some (handle n), lookups = 0, hits = 0, errorCount = 0,
     svcClosed = False, svcIndex = False\<rparr>"

definition fresh_system :: system where
  "fresh_system = \<lparr>svc = serving 0,
     world = \<lparr>mapped = {0}, opened = 1, bad_closes = 0, timers = [], clock = 0\<rparr>, loading = [], inflight = []\<rparr>"

definition reloaded_system :: system where
  "reloaded_system = \<lparr>svc = serving 1,
     world = \<lparr>mapped = {0, 1}, opened = 2, bad_closes = 0, timers = [(handle 0, closeGrace)], clock = 0\<rparr>,
     loading = [], inflight = [(handle 0, 0)]\<rparr>"

lemma always_open_load:
  "svc_load always_open (serving n) w =
    (Inr (handle (opened w)), w\<lparr>mapped := insert (opened w) (mapped w), opened := opened w + 1\<rparr>)"
  by (simp add: svc_load_def OpenValidated_def Open_def Validate_def always_open_def serving_def handle_def)

lemma fresh_started: "started always_open fresh_system"
  unfolding started_def
  by (intro conjI exI [of _ "''db''"] exI [of _ False])
     (simp_all add: fresh_system_def NewServiceIndexed_def svc_load_def OpenValidated_def Open_def Validate_def
       always_open_def serving_def handle_def)

lemma reloaded_reachable: "reachable always_open 1000 fresh_system reloaded_system"
proof -
  let ?s1 = "fresh_system\<lparr>inflight := [(handle 0, 0)]\<rparr>"
  let ?w = "\<lparr>mapped = {0, 1}, opened = 2, bad_closes = 0, timers = [], clock = 0\<rparr>"
  let ?s2 = "?s1\<lparr>world := ?w, loading := [handle 1]\<rparr>"
  let ?s3 = "?s2\<lparr>svc := serving 1, world := close_after (handle 0) ?w, loading := [] @ []\<rparr>"
  have 1: "step always_open 1000 fresh_system ?s1"
    using step.Begin [of fresh_system "handle 0" always_open 1000] by (simp add: fresh_system_def serving_def)
  have 2: "step always_open 1000 ?s1 ?s2"
    using step.Load [of always_open ?s1 "handle 1" ?w 1000]
    by (simp add: fresh_system_def always_open_load insert_commute numeral_2_eq_2)
  have 3: "step always_open 1000 ?s2 ?s3"
    by (rule step.Install [where db = "handle 1"]) (simp_all add: svc_install_def fresh_system_def serving_def)
  have "?s3 = reloaded_system"
    by (simp add: fresh_system_def reloaded_system_def close_after_def)
  from reachable_more [OF reachable_more [OF reachable_step [OF 1] 2] 3, unfolded this]
  show ?thesis .
qed

theorem no_use_after_unmap_witness:
  "reachable always_open 1000 fresh_system reloaded_system \<and> (handle 0, 0) \<in> set (inflight reloaded_system) \<and>
   svcDB (svc reloaded_system) \<noteq> Some (handle 0) \<and> rdr (handle 0) \<in> mapped (world reloaded_system)"
proof -
  have i: "(handle 0, 0) \<in> set (inflight reloaded_system)" by (simp add: reloaded_system_def)
  have n: "\<not> svcClosed (svc reloaded_system)" "svcDB (svc reloaded_system) \<noteq> Some (handle 0)"
    by (simp_all add: reloaded_system_def serving_def handle_def)
  have "(1000 :: int) < closeGrace" by (simp add: closeGrace_def)
  from no_use_after_unmap [OF always_open_contract _ this fresh_started reloaded_reachable i] n
  show ?thesis using i reloaded_reachable by simp
qed

theorem no_handle_leaks_witness:
  "mapped (world reloaded_system) = set (owned reloaded_system) \<and> length (owned reloaded_system) = 2"
proof -
  have "(1000 :: int) < closeGrace" by (simp add: closeGrace_def)
  from no_handle_leaks [OF always_open_contract _ this fresh_started reloaded_reachable]
  show ?thesis by (simp add: reloaded_system_def serving_def owned_def current_def)
qed

theorem shutdown_drains_witness:
  "\<exists>s. reachable always_open 1000 reloaded_system s \<and> mapped (world s) = {}"
proof -
  have "(1000 :: int) < closeGrace" by (simp add: closeGrace_def)
  from shutdown_drains [OF always_open_contract _ this fresh_started reloaded_reachable]
  show ?thesis by auto
qed

end
