(* ===== verification/Handlers.thy ===== *)
theory Handlers
  imports Service
begin

text \<open>
  \<open>server/http.go\<close>, \<open>server/grpc.go\<close> and \<open>server/recover.go\<close>: the two frontends of the service. A
  response is the status and the Go value handed to the JSON encoder (or the protobuf message);
  the encoders, the transport and the generated stubs are libraries. A handler runs on the
  service's state and returns or panics.
\<close>

section \<open>Responses\<close>

record jsonRecord =
  jProvider :: string
  jRegion :: string
  jServices :: "string list"
  jCategories :: "string list"
  jIPv6 :: bool
  jSource :: string
  jSyncedAt :: int
  jExt :: "string \<rightharpoonup> string"
  jNetwork :: string

definition toJSON :: "Record \<Rightarrow> jsonRecord" where
  "toJSON r =
     (let synced = (if \<not> time_IsZero (SyncedAt r) then sint (time_Unix (SyncedAt r)) else 0);
          network = (if prefix_IsValid (RecNetwork r) then prefix_String (RecNetwork r) else [])
      in \<lparr>jProvider = Provider r, jRegion = Region r, jServices = Services r, jCategories = Categories r,
          jIPv6 = IPv6 r, jSource = Source r, jSyncedAt = synced, jExt = Ext r, jNetwork = network\<rparr>)"

record batchResult =
  bIP :: string
  bFound :: bool
  bRecord :: "jsonRecord option"
  bError :: "error option"

text \<open>The values of a JSON object: text, the message of an error, a number, a time in RFC 3339.\<close>

datatype jvalue = JText string | JErr error | JInt int | JTime gotime

datatype body = Fields "(string \<times> jvalue) list" | RecordBody jsonRecord | BatchBody "batchResult list" | Plain string

record http_response =
  rStatus :: int
  rBody :: body

type_synonym 'h http_handler = "'h service \<Rightarrow> http_response outcome \<times> 'h service"

definition writeJSON :: "int \<Rightarrow> body \<Rightarrow> http_response" where
  "writeJSON st v = \<lparr>rStatus = st, rBody = v\<rparr>"

text \<open>What a handler does with the outcome of a lookup; a panic goes through it.\<close>

fun map_outcome :: "('a \<Rightarrow> 'b) \<Rightarrow> 'a outcome \<Rightarrow> 'b outcome" where
  "map_outcome f (Returns a) = Returns (f a)"
| "map_outcome f (Panics v) = Panics v"

section \<open>The HTTP handlers\<close>

definition handleProvider :: "('h, 'w) maxminddb \<Rightarrow> string \<Rightarrow> 'h http_handler" where
  "handleProvider M ipStr s = (case svc_LookupProvider M ipStr s of
     (r, s) \<Rightarrow> (map_outcome (\<lambda>r. case r of
         Inl err \<Rightarrow> writeJSON 400 (Fields [(''error'', JErr err)])
       | Inr None \<Rightarrow> writeJSON 404 (Fields [(''ip'', JText ipStr), (''error'', JText ''not attributed'')])
       | Inr (Some (provider, region)) \<Rightarrow>
           writeJSON 200 (Fields [(''provider'', JText provider), (''region'', JText region)])) r, s))"

definition handleLookupOne :: "('h, 'w) maxminddb \<Rightarrow> string \<Rightarrow> 'h http_handler" where
  "handleLookupOne M ipStr s = (case svc_Lookup M ipStr s of
     (r, s) \<Rightarrow> (map_outcome (\<lambda>r. case r of
         Inl err \<Rightarrow> writeJSON 400 (Fields [(''error'', JErr err)])
       | Inr None \<Rightarrow> writeJSON 404 (Fields [(''ip'', JText ipStr), (''error'', JText ''not attributed'')])
       | Inr (Some rec) \<Rightarrow> writeJSON 200 (RecordBody (toJSON rec))) r, s))"

definition maxBatch :: nat where
  "maxBatch = 1024"

definition batch_result :: "string \<Rightarrow> error + Record option \<Rightarrow> batchResult" where
  "batch_result ipStr r = (case r of
     Inl err \<Rightarrow> \<lparr>bIP = ipStr, bFound = False, bRecord = None, bError = Some err\<rparr>
   | Inr None \<Rightarrow> \<lparr>bIP = ipStr, bFound = False, bRecord = None, bError = None\<rparr>
   | Inr (Some rec) \<Rightarrow> \<lparr>bIP = ipStr, bFound = True, bRecord = Some (toJSON rec), bError = None\<rparr>)"

fun batch_loop :: "('h, 'w) maxminddb \<Rightarrow> string list \<Rightarrow> batchResult list \<Rightarrow> 'h service \<Rightarrow>
    batchResult list outcome \<times> 'h service" where
  "batch_loop M [] out s = (Returns out, s)"
| "batch_loop M (ipStr # ips) out s = (case svc_Lookup M ipStr s of
     (Panics v, s) \<Rightarrow> (Panics v, s)
   | (Returns r, s) \<Rightarrow> batch_loop M ips (out @ [batch_result ipStr r]) s)"

definition handleLookupBatch :: "('h, 'w) maxminddb \<Rightarrow> string list \<Rightarrow> 'h http_handler" where
  "handleLookupBatch M ips s =
     (if length ips = 0 then (Returns (writeJSON 400 (Fields [(''error'', JText ''no ip query parameter'')])), s)
      else if length ips > maxBatch then
        (Returns (writeJSON 400 (Fields [(''error'',
           JErr (Errorf ''too many ips: %d (max %d)'' [I (int (length ips)), I (int maxBatch)]))])), s)
      else (case batch_loop M ips [] s of
          (out, s) \<Rightarrow> (map_outcome (\<lambda>out. writeJSON 200 (BatchBody out)) out, s)))"

definition handleHealthz :: "'h http_handler" where
  "handleHealthz s = (case svcDB s of
     None \<Rightarrow> (Returns (writeJSON 503 (Fields [(''status'', JText ''no database'')])), s)
   | Some _ \<Rightarrow> (Returns (writeJSON 200 (Fields [(''status'', JText ''ok'')])), s))"

definition handleVersion :: "('h, 'w) maxminddb \<Rightarrow> 'h http_handler" where
  "handleVersion M s = (case svcDB s of
     None \<Rightarrow> (Returns (writeJSON 503 (Fields [(''error'', JText ''no database loaded'')])), s)
   | Some db \<Rightarrow>
       (let md = Metadata M db in
        (Returns (writeJSON 200 (Fields
           [(''build_epoch'', JInt (sint (time_Unix (BuildTime M db)))), (''build_time'', JTime (BuildTime M db)),
            (''database_type'', JText (MetaDatabaseType md)), (''node_count'', JInt (int (NodeCount md))),
            (''record_size'', JInt (int (RecordBits md)))])), s)))"

definition metric :: "string \<Rightarrow> string \<Rightarrow> int \<Rightarrow> string" where
  "metric name kind n =
     ''# TYPE '' @ name @ '' '' @ kind @ [CHR 0x0a] @ name @ '' '' @ FormatInt n @ [CHR 0x0a]"

definition handleMetrics :: "('h, 'w) maxminddb \<Rightarrow> 'h http_handler" where
  "handleMetrics M s =
     (let st = svc_Stats s;
          out = metric ''cloudattr_lookups_total'' ''counter'' (StLookups st) @
            metric ''cloudattr_hits_total'' ''counter'' (StHits st) @
            metric ''cloudattr_errors_total'' ''counter'' (StErrors st) @
            (case svcDB s of
               Some db \<Rightarrow> metric ''cloudattr_build_epoch'' ''gauge'' (sint (time_Unix (BuildTime M db)))
             | None \<Rightarrow> [])
      in (Returns \<lparr>rStatus = 200, rBody = Plain out\<rparr>, s))"

section \<open>Recovery and routing\<close>

definition ErrAbortHandler :: string where
  "ErrAbortHandler = ''net/http: abort Handler''"

definition recoverHTTP :: "'h http_handler \<Rightarrow> 'h http_handler" where
  "recoverHTTP handler s = (case handler s of
     (Returns resp, s) \<Rightarrow> (Returns resp, s)
   | (Panics v, s) \<Rightarrow>
       if v = ErrAbortHandler then (Panics v, s)
       else (Returns (writeJSON 500 (Fields [(''error'', JText ''internal error'')])), s))"

text \<open>
  A request: method, the segments of the (clean) path, decoded, and the values of the query
  parameter \<open>ip\<close>. The mux of net/http matches a GET pattern for HEAD too, a wildcard for one
  non-empty segment, and answers 405 where only the method does not match.
\<close>

record request =
  Method :: string
  Segments :: "string list"
  QueryIPs :: "string list"

definition routes :: "('h, 'w) maxminddb \<Rightarrow> request \<Rightarrow> 'h http_handler option" where
  "routes M r = (case Segments r of
     [v, l, ipStr] \<Rightarrow>
       if v = ''v1'' \<and> l = ''lookup'' \<and> ipStr \<noteq> [] then Some (handleLookupOne M ipStr)
       else if v = ''v1'' \<and> l = ''provider'' \<and> ipStr \<noteq> [] then Some (handleProvider M ipStr)
       else None
   | [v, l] \<Rightarrow> if v = ''v1'' \<and> l = ''lookup'' then Some (handleLookupBatch M (QueryIPs r)) else None
   | [p] \<Rightarrow>
       if p = ''healthz'' then Some handleHealthz
       else if p = ''version'' then Some (handleVersion M)
       else if p = ''metrics'' then Some (handleMetrics M)
       else None
   | _ \<Rightarrow> None)"

definition mux :: "('h, 'w) maxminddb \<Rightarrow> request \<Rightarrow> 'h http_handler" where
  "mux M r s = (case routes M r of
     None \<Rightarrow> (Returns \<lparr>rStatus = 404, rBody = Plain ''404 page not found''\<rparr>, s)
   | Some handler \<Rightarrow>
       if Method r = ''GET'' \<or> Method r = ''HEAD'' then handler s
       else (Returns \<lparr>rStatus = 405, rBody = Plain ''Method Not Allowed''\<rparr>, s))"

definition NewHTTPHandler :: "('h, 'w) maxminddb \<Rightarrow> request \<Rightarrow> 'h http_handler" where
  "NewHTTPHandler M r = recoverHTTP (mux M r)"

section \<open>gRPC\<close>

datatype code = InvalidArgument | Internal | Unavailable

text \<open>A failed call: a status with its message, or an error of the stream passed on.\<close>

datatype rpc_error = Status code jvalue | StreamErr error

record pbRecord =
  pbProvider :: string
  pbRegion :: string
  pbServices :: "string list"
  pbCategories :: "string list"
  pbIpv6 :: bool
  pbSource :: string
  pbSyncedAt :: int
  pbExt :: "string \<rightharpoonup> string"
  pbNetwork :: string

record LookupResult =
  pbIp :: string
  pbFound :: bool
  pbRec :: "pbRecord option"
  pbError :: "error option"

record VersionResponse =
  pbBuildEpoch :: int
  pbDatabaseType :: string
  pbNodeCount :: int

definition recordToProto :: "Record \<Rightarrow> pbRecord" where
  "recordToProto r =
     (let synced = (if \<not> time_IsZero (SyncedAt r) then sint (time_Unix (SyncedAt r)) else 0);
          network = (if prefix_IsValid (RecNetwork r) then prefix_String (RecNetwork r) else [])
      in \<lparr>pbProvider = Provider r, pbRegion = Region r, pbServices = Services r, pbCategories = Categories r,
          pbIpv6 = IPv6 r, pbSource = Source r, pbSyncedAt = synced, pbExt = Ext r, pbNetwork = network\<rparr>)"

text \<open>On a miss the record is the zero one.\<close>

definition found_record :: "Record option \<Rightarrow> Record" where
  "found_record found = (case found of Some rec \<Rightarrow> rec | None \<Rightarrow> zeroRecord)"

definition grpc_Lookup :: "('h, 'w) maxminddb \<Rightarrow> string \<Rightarrow> 'h service \<Rightarrow> (rpc_error + LookupResult) outcome \<times> 'h service" where
  "grpc_Lookup M ipStr s = (case svc_Lookup M ipStr s of
     (r, s) \<Rightarrow> (map_outcome (\<lambda>r. case r of
         Inl err \<Rightarrow> Inl (Status InvalidArgument (JErr err))
       | Inr found \<Rightarrow> Inr \<lparr>pbIp = ipStr, pbFound = found \<noteq> None,
           pbRec = Some (recordToProto (found_record found)), pbError = None\<rparr>) r, s))"

definition stream_result :: "string \<Rightarrow> error + Record option \<Rightarrow> LookupResult" where
  "stream_result ipStr r = (case r of
     Inl err \<Rightarrow> \<lparr>pbIp = ipStr, pbFound = False, pbRec = None, pbError = Some err\<rparr>
   | Inr found \<Rightarrow> \<lparr>pbIp = ipStr, pbFound = found \<noteq> None,
       pbRec = Some (recordToProto (found_record found)), pbError = None\<rparr>)"

text \<open>
  A stream: what the coming receives give (a request, or an error; then the end of the
  requests), the outcome of the coming sends, and what was sent.
\<close>

record stream_state =
  recvs :: "(error + string) list"
  send_faults :: "error option list"
  sent :: "LookupResult list"

definition send :: "LookupResult \<Rightarrow> stream_state \<Rightarrow> error option \<times> stream_state" where
  "send res st = (case send_faults st of
     Some err # fs \<Rightarrow> (Some err, st\<lparr>send_faults := fs\<rparr>)
   | fs \<Rightarrow> (None, st\<lparr>send_faults := tl fs, sent := sent st @ [res]\<rparr>))"

function BatchLookup :: "('h, 'w) maxminddb \<Rightarrow> stream_state \<Rightarrow> 'h service \<Rightarrow>
    rpc_error option outcome \<times> stream_state \<times> 'h service" where
  "BatchLookup M st s = (case recvs st of
     [] \<Rightarrow> (Returns None, st, s)
   | Inl err # rs \<Rightarrow> (Returns (Some (StreamErr err)), st\<lparr>recvs := rs\<rparr>, s)
   | Inr ipStr # rs \<Rightarrow>
       (case svc_Lookup M ipStr s of
          (Panics v, s) \<Rightarrow> (Panics v, st\<lparr>recvs := rs\<rparr>, s)
        | (Returns r, s) \<Rightarrow>
            (case send (stream_result ipStr r) (st\<lparr>recvs := rs\<rparr>) of
               (Some err, st) \<Rightarrow> (Returns (Some (StreamErr err)), st, s)
             | (None, st) \<Rightarrow> BatchLookup M st s)))"
  by pat_completeness auto
termination
  by (relation "measure (\<lambda>(_, st, _). length (recvs st))")
     (auto simp: send_def split: list.splits option.splits)

declare BatchLookup.simps [simp del]

definition grpc_Version :: "('h, 'w) maxminddb \<Rightarrow> 'h service \<Rightarrow> (rpc_error + VersionResponse) outcome \<times> 'h service" where
  "grpc_Version M s = (case svcDB s of
     None \<Rightarrow> (Returns (Inl (Status Unavailable (JText ''no database loaded''))), s)
   | Some db \<Rightarrow>
       (let md = Metadata M db in
        (Returns (Inr \<lparr>pbBuildEpoch = sint (time_Unix (BuildTime M db)), pbDatabaseType = MetaDatabaseType md,
           pbNodeCount = int (NodeCount md)\<rparr>), s)))"

text \<open>The interceptors around a unary call and around a stream.\<close>

definition RecoveryUnaryInterceptor :: "('s \<Rightarrow> (rpc_error + 'a) outcome \<times> 's) \<Rightarrow> 's \<Rightarrow> (rpc_error + 'a) outcome \<times> 's" where
  "RecoveryUnaryInterceptor handler s = (case handler s of
     (Returns r, s) \<Rightarrow> (Returns r, s)
   | (Panics v, s) \<Rightarrow> (Returns (Inl (Status Internal (JText ''internal error''))), s))"

definition RecoveryStreamInterceptor :: "('s \<Rightarrow> rpc_error option outcome \<times> 's) \<Rightarrow> 's \<Rightarrow> rpc_error option outcome \<times> 's" where
  "RecoveryStreamInterceptor handler s = (case handler s of
     (Returns r, s) \<Rightarrow> (Returns r, s)
   | (Panics v, s) \<Rightarrow> (Returns (Some (Status Internal (JText ''internal error''))), s))"

section \<open>What a loaded service answers\<close>

text \<open>The effect of a list of lookups on the counters, and the answers in order.\<close>

definition answers :: "('h, 'w) maxminddb \<Rightarrow> 'h DB \<Rightarrow> string \<Rightarrow> error + Record option" where
  "answers M db = query_result (DB_Lookup M) db"

definition counted_all :: "('h, 'w) maxminddb \<Rightarrow> 'h DB \<Rightarrow> string list \<Rightarrow> 'h service \<Rightarrow> 'h service" where
  "counted_all M db ips s = fold (\<lambda>x. counted (answers M db x)) ips s"

lemma counted_all_simps [simp]:
  "counted_all M db [] s = s"
  "counted_all M db (x # ips) s = counted_all M db ips (counted (answers M db x) s)"
  by (simp_all add: counted_all_def)

lemma counted_all_svcDB [simp]: "svcDB (counted_all M db ips s) = svcDB s"
  by (induction ips arbitrary: s) (simp_all add: counted_fields)

lemma counted_all_svcClosed [simp]: "svcClosed (counted_all M db ips s) = svcClosed s"
  by (induction ips arbitrary: s) (simp_all add: counted_fields)

lemma counted_all_lookups: "lookups (counted_all M db ips s) = lookups s + of_nat (length ips)"
  by (induction ips arbitrary: s) (simp_all add: counted_def)

lemma counted_all_hits:
  "hits (counted_all M db ips s) = hits s + of_nat (length (filter (\<lambda>x. \<exists>rec. answers M db x = Inr (Some rec)) ips))"
  by (induction ips arbitrary: s) (auto simp: counted_def split: sum.splits option.splits)

lemma counted_all_errors:
  "errorCount (counted_all M db ips s) = errorCount s + of_nat (length (filter (\<lambda>x. isl (answers M db x)) ips))"
  by (induction ips arbitrary: s) (simp_all add: counted_def)

lemma svc_Lookup_loaded:
  "svcDB s = Some db \<Longrightarrow> svc_Lookup M x s = (Returns (answers M db x), counted (answers M db x) s)"
  by (simp add: svc_Lookup_def answers_def svc_query_loaded Let_def)

lemma batch_loop_loaded:
  "svcDB s = Some db \<Longrightarrow>
     batch_loop M ips out s = (Returns (out @ map (\<lambda>x. batch_result x (answers M db x)) ips), counted_all M db ips s)"
  by (induction ips arbitrary: out s) (simp_all add: svc_Lookup_loaded counted_fields)

text \<open>A lookup never touches the database pointer, whatever it returns.\<close>

lemma svc_query_keeps: "svc_query q x s = (r, s') \<Longrightarrow> svcDB s' = svcDB s \<and> svcClosed s' = svcClosed s \<and> lookups s' = lookups s + 1"
  by (auto simp: svc_query_def Let_def split: sum.splits option.splits if_splits)

lemma svc_query_panics: "svc_query q x s = (Panics v, s') \<Longrightarrow> svcDB s = None \<and> v = nil_dereference"
  by (auto simp: svc_query_def Let_def split: sum.splits option.splits)

lemma batch_loop_unloaded:
  "svcDB s = None \<Longrightarrow> batch_loop M ips out s = (r, s') \<Longrightarrow>
     svcDB s' = None \<and> svcClosed s' = svcClosed s \<and>
     (\<exists>n \<le> length ips. lookups s' = lookups s + of_nat n) \<and> (\<forall>v. r = Panics v \<longrightarrow> v = nil_dereference)"
proof (induction M ips out s arbitrary: r s' rule: batch_loop.induct)
  case (2 M x ips out s)
  obtain q s1 where q: "svc_Lookup M x s = (q, s1)" by fastforce
  then have s1: "svcDB s1 = None" "svcClosed s1 = svcClosed s" "lookups s1 = lookups s + 1"
    using svc_query_keeps [of "DB_Lookup M" x s] "2.prems"(1) by (auto simp: svc_Lookup_def)
  show ?case
  proof (cases q)
    case (Panics v)
    then show ?thesis
      using q "2.prems" s1 svc_query_panics [of "DB_Lookup M" x s] by (auto simp: svc_Lookup_def intro!: exI [of _ 1])
  next
    case (Returns a)
    then have step: "batch_loop M ips (out @ [batch_result x a]) s1 = (r, s')" using q "2.prems" by simp
    obtain n where n: "svcDB s' = None" "svcClosed s' = svcClosed s1" "n \<le> length ips"
        "lookups s' = lookups s1 + of_nat n" "\<forall>v. r = Panics v \<longrightarrow> v = nil_dereference"
      using "2.IH" [OF q [symmetric] Returns s1(1) step] by blast
    then show ?thesis using s1 by (auto intro!: exI [of _ "Suc n"])
  qed
qed (auto intro: exI [of _ 0])

text \<open>What every handler guarantees, the recovery around it apart.\<close>

definition served_well :: "'h service \<Rightarrow> http_response outcome \<times> 'h service \<Rightarrow> bool" where
  "served_well s out \<longleftrightarrow> (case out of (r, s') \<Rightarrow>
     svcDB s' = svcDB s \<and> svcClosed s' = svcClosed s \<and>
     (\<exists>n \<le> maxBatch. lookups s' = lookups s + of_nat n) \<and>
     (case r of
        Returns resp \<Rightarrow> rStatus resp \<in> {200, 400, 404, 405} \<or> svcDB s = None \<and> rStatus resp = 503
      | Panics v \<Rightarrow> svcDB s = None \<and> v = nil_dereference))"

lemma maxBatch_ge [simp]: "Suc 0 \<le> maxBatch" by (simp add: maxBatch_def)

lemma served_well_quiet:
  "rStatus resp \<in> {200, 400, 404, 405} \<or> svcDB s = None \<and> rStatus resp = 503 \<Longrightarrow> served_well s (Returns resp, s)"
  by (auto simp: served_well_def intro!: exI [of _ 0])

lemma served_well_query:
  assumes "svc_query q x s = (r, s')" and status: "\<And>a. rStatus (f a) \<in> {200, 400, 404, 405}"
  shows "served_well s (map_outcome f r, s')"
  using svc_query_keeps [OF assms(1)] svc_query_panics [of q x s _ s'] assms(1) status
  by (cases r) (auto simp: served_well_def intro!: exI [of _ "Suc 0"])

lemma writeJSON_status [simp]: "rStatus (writeJSON st v) = st" "rBody (writeJSON st v) = v"
  by (simp_all add: writeJSON_def)

lemma handleProvider_well: "served_well s (handleProvider M x s)"
  by (simp add: handleProvider_def svc_LookupProvider_def split: prod.split)
     (intro allI impI, erule served_well_query, simp split: sum.split option.split prod.split)

lemma handleLookupOne_well: "served_well s (handleLookupOne M x s)"
  by (simp add: handleLookupOne_def svc_Lookup_def split: prod.split)
     (intro allI impI, erule served_well_query, simp split: sum.split option.split)

lemma handleLookupBatch_well: "served_well s (handleLookupBatch M ips s)"
proof (cases "length ips = 0 \<or> length ips > maxBatch")
  case True
  then show ?thesis by (auto simp: handleLookupBatch_def intro!: served_well_quiet)
next
  case False
  obtain r s' where run: "batch_loop M ips [] s = (r, s')" by fastforce
  show ?thesis
  proof (cases "svcDB s")
    case None
    obtain n where "svcDB s' = None" "svcClosed s' = svcClosed s" "n \<le> length ips" "lookups s' = lookups s + of_nat n"
        "\<forall>v. r = Panics v \<longrightarrow> v = nil_dereference"
      using batch_loop_unloaded [OF None run] by blast
    then show ?thesis
      using False run None by (cases r) (auto simp: handleLookupBatch_def served_well_def intro!: exI [of _ n])
  next
    case (Some db)
    then show ?thesis
      using False by (auto simp: handleLookupBatch_def served_well_def batch_loop_loaded counted_all_lookups
          intro!: exI [of _ "length ips"])
  qed
qed

lemma routes_cases:
  assumes "routes M r = Some h"
  shows "(\<exists>x. h = handleLookupOne M x) \<or> (\<exists>x. h = handleProvider M x) \<or> h = handleLookupBatch M (QueryIPs r) \<or>
    h = handleHealthz \<or> h = handleVersion M \<or> h = handleMetrics M"
proof -
  consider "Segments r = []" | a where "Segments r = [a]" | a b where "Segments r = [a, b]"
    | a b c where "Segments r = [a, b, c]" | a b c d ds where "Segments r = a # b # c # d # ds"
    by (metis list.exhaust)
  then show ?thesis
    using assms unfolding routes_def by cases (simp_all only: list.case option.inject split: if_splits, blast+)
qed

lemma mux_well: "served_well s (mux M r s)"
proof (cases "routes M r")
  case None
  then show ?thesis by (simp add: mux_def served_well_quiet)
next
  case (Some h)
  have "served_well s (h s)"
    using routes_cases [OF Some]
    by (elim disjE exE)
       (simp_all add: handleLookupOne_well handleProvider_well handleLookupBatch_well handleHealthz_def
          handleVersion_def handleMetrics_def Let_def served_well_quiet split: option.split)
  then show ?thesis using Some by (simp add: mux_def served_well_quiet)
qed

lemma ErrAbortHandler_not_nil [simp]: "nil_dereference \<noteq> ErrAbortHandler"
  by (simp add: nil_dereference_def ErrAbortHandler_def)

text \<open>
  C11. Whatever the request and the state of the service, the HTTP handler returns a response: no
  panic of a lookup escapes it. The database of the service is untouched and at most \<open>maxBatch\<close>
  lookups are made. The status is 200, 400, 404 or 405, unless no database is loaded, where it may be
  503 (health, version) or 500 (a recovered panic).
\<close>

theorem http_never_panics:
  "case NewHTTPHandler M r s of (out, s') \<Rightarrow>
     (\<exists>resp. out = Returns resp \<and>
        (rStatus resp \<in> {200, 400, 404, 405} \<or> svcDB s = None \<and> rStatus resp \<in> {500, 503})) \<and>
     svcDB s' = svcDB s \<and> svcClosed s' = svcClosed s \<and> unat (lookups s' - lookups s) \<le> maxBatch"
proof -
  obtain out s' where run: "mux M r s = (out, s')" by fastforce
  have w: "served_well s (out, s')" using mux_well [of s M r] run by simp
  then obtain n where n: "n \<le> maxBatch" "lookups s' = lookups s + of_nat n"
    by (auto simp: served_well_def)
  have "unat (lookups s' - lookups s) \<le> maxBatch"
    using n by (simp add: unat_of_nat maxBatch_def)
  then show ?thesis
    using w run by (cases out) (auto simp: served_well_def NewHTTPHandler_def recoverHTTP_def)
qed

text \<open>
  C19. The batch endpoint with one to \<open>maxBatch\<close> addresses answers 200 with one result per address in
  the order asked, each what a single lookup of that address gives, a bad address among them
  being an entry with its error; the counters grow by the number of addresses, of hits and of
  errors. With none or too many the answer is 400 and nothing is looked up.
\<close>

theorem batch_answers_each:
  assumes "svcDB s = Some db" and "Segments r = [''v1'', ''lookup'']" and "Method r = ''GET''"
  shows "let ips = QueryIPs r; n = length ips; (out, s') = NewHTTPHandler M r s in
    if n = 0 \<or> n > maxBatch then (\<exists>b. out = Returns \<lparr>rStatus = 400, rBody = b\<rparr>) \<and> s' = s
    else out = Returns \<lparr>rStatus = 200, rBody = BatchBody (map (\<lambda>x. batch_result x (answers M db x)) ips)\<rparr> \<and>
      svcDB s' = Some db \<and> lookups s' = lookups s + of_nat n \<and>
      hits s' = hits s + of_nat (length (filter (\<lambda>x. \<exists>rec. answers M db x = Inr (Some rec)) ips)) \<and>
      errorCount s' = errorCount s + of_nat (length (filter (\<lambda>x. isl (answers M db x)) ips))"
proof -
  have h: "NewHTTPHandler M r s = recoverHTTP (\<lambda>s. handleLookupBatch M (QueryIPs r) s) s"
    using assms by (simp add: NewHTTPHandler_def recoverHTTP_def mux_def routes_def)
  show ?thesis
    using assms(1)
    by (simp add: h recoverHTTP_def handleLookupBatch_def batch_loop_loaded writeJSON_def Let_def
        counted_all_lookups counted_all_hits counted_all_errors)
qed

section \<open>The two frontends agree\<close>

text \<open>What the HTTP endpoints say for what the gRPC methods return.\<close>

definition json_of :: "pbRecord \<Rightarrow> jsonRecord" where
  "json_of p = \<lparr>jProvider = pbProvider p, jRegion = pbRegion p, jServices = pbServices p,
     jCategories = pbCategories p, jIPv6 = pbIpv6 p, jSource = pbSource p, jSyncedAt = pbSyncedAt p,
     jExt = pbExt p, jNetwork = pbNetwork p\<rparr>"

definition http_of_rpc :: "rpc_error + LookupResult \<Rightarrow> http_response" where
  "http_of_rpc r = (case r of
     Inl (Status _ msg) \<Rightarrow> writeJSON 400 (Fields [(''error'', msg)])
   | Inl (StreamErr err) \<Rightarrow> writeJSON 400 (Fields [(''error'', JErr err)])
   | Inr res \<Rightarrow>
       if pbFound res then writeJSON 200 (RecordBody (json_of (the (pbRec res))))
       else writeJSON 404 (Fields [(''ip'', JText (pbIp res)), (''error'', JText ''not attributed'')]))"

definition batch_of_stream :: "LookupResult \<Rightarrow> batchResult" where
  "batch_of_stream res = \<lparr>bIP = pbIp res, bFound = pbFound res,
     bRecord = (if pbFound res then map_option json_of (pbRec res) else None), bError = pbError res\<rparr>"

lemma json_of_recordToProto [simp]: "json_of (recordToProto r) = toJSON r"
  by (simp add: json_of_def recordToProto_def toJSON_def Let_def)

lemma batch_of_stream_result [simp]: "batch_of_stream (stream_result x r) = batch_result x r"
  by (auto simp: batch_of_stream_def stream_result_def batch_result_def found_record_def
      split: sum.split option.split)

text \<open>A stream without faults: the requests \<open>ips\<close>, then the end.\<close>

definition calm :: "string list \<Rightarrow> stream_state" where
  "calm ips = \<lparr>recvs = map Inr ips, send_faults = [], sent = []\<rparr>"

lemma BatchLookup_calm:
  "batch_loop M ips (map batch_of_stream (sent st)) s = (r, s') \<Longrightarrow> recvs st = map Inr ips \<Longrightarrow> send_faults st = [] \<Longrightarrow>
     \<exists>st'. BatchLookup M st s = (map_outcome (\<lambda>_. None) r, st', s') \<and>
       (\<forall>out. r = Returns out \<longrightarrow> out = map batch_of_stream (sent st'))"
proof (induction ips arbitrary: st s)
  case Nil
  then show ?case by (intro exI [of _ st]) (auto simp: BatchLookup.simps [of M st])
next
  case (Cons x ips)
  obtain q s1 where q: "svc_Lookup M x s = (q, s1)" by fastforce
  show ?case
  proof (cases q)
    case (Panics v)
    then show ?thesis using q Cons.prems by (auto simp: BatchLookup.simps [of M st s])
  next
    case (Returns a)
    let ?st = "st\<lparr>recvs := map Inr ips, send_faults := [], sent := sent st @ [stream_result x a]\<rparr>"
    have "batch_loop M ips (map batch_of_stream (sent ?st)) s1 = (r, s')" using Cons.prems(1) q Returns by simp
    from Cons.IH [OF this] obtain st' where st': "BatchLookup M ?st s1 = (map_outcome (\<lambda>_. None) r, st', s')"
        "\<forall>out. r = Returns out \<longrightarrow> out = map batch_of_stream (sent st')"
      by auto
    have "BatchLookup M st s = BatchLookup M ?st s1"
      using q Returns Cons.prems(2,3) by (simp add: BatchLookup.simps [of M st s] send_def)
    with st' show ?thesis by auto
  qed
qed

text \<open>
  C17. The two frontends give the same answers in every state of the service, panics included: the
  HTTP response to a single lookup is the reading of the gRPC result, and the HTTP batch, entry for
  entry, that of the results the gRPC stream sends for the same addresses. Both leave the service
  in the same state.
\<close>

theorem frontends_agree:
  "handleLookupOne M x s = (case grpc_Lookup M x s of (r, s') \<Rightarrow> (map_outcome http_of_rpc r, s')) \<and>
   (case BatchLookup M (calm ips) s of (r, st, s') \<Rightarrow>
      batch_loop M ips [] s = (map_outcome (\<lambda>_. map batch_of_stream (sent st)) r, s'))"
proof
  show "handleLookupOne M x s = (case grpc_Lookup M x s of (r, s') \<Rightarrow> (map_outcome http_of_rpc r, s'))"
  proof (cases "svc_Lookup M x s")
    case (Pair q s1)
    then show ?thesis
      by (cases q) (auto simp: handleLookupOne_def grpc_Lookup_def http_of_rpc_def found_record_def
          split: sum.split option.split)
  qed
  obtain r s' where run: "batch_loop M ips [] s = (r, s')" by fastforce
  then have "batch_loop M ips (map batch_of_stream (sent (calm ips))) s = (r, s')" by (simp add: calm_def)
  from BatchLookup_calm [OF this] obtain st' where st': "BatchLookup M (calm ips) s = (map_outcome (\<lambda>_. None) r, st', s')"
      "\<forall>out. r = Returns out \<longrightarrow> out = map batch_of_stream (sent st')"
    by (auto simp: calm_def)
  then show "case BatchLookup M (calm ips) s of (r, st, s') \<Rightarrow>
      batch_loop M ips [] s = (map_outcome (\<lambda>_. map batch_of_stream (sent st)) r, s')"
    using run by (cases r) simp_all
qed

section \<open>Streams with faults\<close>

text \<open>The requests a stream delivers before its first receive error, and how its call may end.\<close>

definition requests :: "stream_state \<Rightarrow> string list" where
  "requests st = map projr (takeWhile (\<lambda>x. \<not> isl x) (recvs st))"

text \<open>
  A call that read \<open>j\<close> of the requests and answered \<open>k\<close> of them ended with \<open>r\<close>: cleanly after the
  last one, at a receive error after the last one, or at a send error for the one read.
\<close>

definition ended :: "stream_state \<Rightarrow> nat \<Rightarrow> nat \<Rightarrow> rpc_error option outcome \<Rightarrow> bool" where
  "ended st k j r \<longleftrightarrow> list_all (\<lambda>f. f = None) (take k (send_faults st)) \<and>
    (j = k \<and> k = length (recvs st) \<and> r = Returns None \<or>
     j = k \<and> k = length (requests st) \<and> k < length (recvs st) \<and>
       r = Returns (Some (StreamErr (projl (recvs st ! k)))) \<or>
     j = Suc k \<and> j \<le> length (requests st) \<and> k < length (send_faults st) \<and>
       send_faults st ! k \<noteq> None \<and> r = Returns (Some (StreamErr (the (send_faults st ! k)))))"

lemma ended_Suc:
  assumes "ended (st\<lparr>recvs := rs, send_faults := fs\<rparr>) k j r"
    and "recvs st = Inr x # rs" and "send_faults st = None # fs \<or> send_faults st = [] \<and> fs = []"
  shows "ended st (Suc k) (Suc j) r"
  using assms by (auto simp: ended_def requests_def)

lemma requests_Cons: "recvs st = Inr x # rs \<Longrightarrow> requests st = x # requests (st\<lparr>recvs := rs\<rparr>)"
  by (simp add: requests_def)

lemma requests_sent [simp]: "requests (st\<lparr>send_faults := fs, sent := out\<rparr>) = requests st"
  by (simp add: requests_def)

lemma ended_sent [simp]: "ended (st\<lparr>sent := out\<rparr>) k j r = ended st k j r"
  by (simp add: ended_def requests_def)

lemma send_ok:
  "send_faults st = None # fs \<or> send_faults st = [] \<and> fs = [] \<Longrightarrow>
     send res st = (None, st\<lparr>send_faults := fs, sent := sent st @ [res]\<rparr>)"
  by (auto simp: send_def)

lemma BatchLookup_faults:
  "svcDB s = Some db \<Longrightarrow> BatchLookup M st s = (r, st', s') \<Longrightarrow>
     \<exists>k j. sent st' = sent st @ map (\<lambda>x. stream_result x (answers M db x)) (take k (requests st)) \<and>
       s' = counted_all M db (take j (requests st)) s \<and> ended st k j r"
proof (induction "recvs st" arbitrary: st s)
  case Nil
  then show ?case
    by (intro exI [of _ 0]) (auto simp: BatchLookup.simps [of M st s] requests_def ended_def)
next
  case (Cons q rs)
  note rs = Cons.hyps(2) [symmetric]
  show ?case
  proof (cases q)
    case (Inl err)
    then show ?thesis
      using Cons.prems rs by (intro exI [of _ 0]) (auto simp: BatchLookup.simps [of M st s] requests_def ended_def)
  next
    case (Inr x)
    have reqs: "requests st = x # requests (st\<lparr>recvs := rs\<rparr>)" using rs Inr by (simp add: requests_Cons)
    let ?s = "counted (answers M db x) s"
    show ?thesis
    proof (cases "\<exists>err fs. send_faults st = Some err # fs")
      case True
      then obtain err fs where fs: "send_faults st = Some err # fs" by blast
      have "r = Returns (Some (StreamErr err)) \<and> sent st' = sent st \<and> s' = ?s"
        using Cons.prems rs Inr fs by (auto simp: BatchLookup.simps [of M st s] svc_Lookup_loaded send_def)
      then show ?thesis
        using fs reqs by - (rule exI [of _ 0], rule exI [of _ "Suc 0"], simp add: ended_def)
    next
      case False
      then have fs: "send_faults st = None # tl (send_faults st) \<or> send_faults st = [] \<and> tl (send_faults st) = []"
        by (cases "send_faults st") auto
      let ?st = "st\<lparr>recvs := rs, send_faults := tl (send_faults st), sent := sent st @ [stream_result x (answers M db x)]\<rparr>"
      have "BatchLookup M st s = BatchLookup M ?st ?s"
        using Cons.prems(1) rs Inr send_ok [of "st\<lparr>recvs := rs\<rparr>"] fs
        by (simp add: BatchLookup.simps [of M st s] svc_Lookup_loaded)
      then have run: "BatchLookup M ?st ?s = (r, st', s')" using Cons.prems(2) by simp
      have "\<exists>k j. sent st' = sent ?st @ map (\<lambda>x. stream_result x (answers M db x)) (take k (requests ?st)) \<and>
          s' = counted_all M db (take j (requests ?st)) ?s \<and> ended ?st k j r"
        by (rule Cons.hyps(1)) (use run Cons.prems(1) in \<open>simp_all add: counted_fields\<close>)
      then obtain k j where kj: "sent st' = sent ?st @ map (\<lambda>x. stream_result x (answers M db x)) (take k (requests ?st))"
          "s' = counted_all M db (take j (requests ?st)) ?s" "ended ?st k j r"
        by blast
      have "ended st (Suc k) (Suc j) r"
        by (rule ended_Suc [OF _ _ fs]) (use kj(3) rs Inr in simp_all)
      then show ?thesis
        using kj(1,2) reqs by - (rule exI [of _ "Suc k"], rule exI [of _ "Suc j"], simp)
    qed
  qed
qed

text \<open>
  C18. A stream on a loaded service, whatever fails on its receiving and its sending side: what was
  sent are the answers to the first requests, one each and in their order; the call ends without
  an error only after answering all of them, otherwise with the error of the receive or the
  send that failed, and no request beyond the one it was answering has been looked up.
\<close>

theorem stream_answers_in_order:
  assumes "svcDB s = Some db"
  shows "case BatchLookup M st s of (r, st', s') \<Rightarrow>
    \<exists>k j. sent st' = sent st @ map (\<lambda>x. stream_result x (answers M db x)) (take k (requests st)) \<and>
      s' = counted_all M db (take j (requests st)) s \<and> ended st k j r"
proof (cases "BatchLookup M st s")
  case (fields r st' s')
  then show ?thesis using BatchLookup_faults [OF assms fields] by simp
qed

section \<open>A service on the sample table\<close>

definition sample_db :: "table DB" where
  "sample_db = \<lparr>rdr = sample_table, idx = None\<rparr>"

definition sample_service :: "table service" where
  "sample_service = \<lparr>svcPath = ''db'', svcDB = Some sample_db, lookups = 0, hits = 0, errorCount = 0,
     svcClosed = False, svcIndex = False\<rparr>"

lemma sample_answers:
  "\<exists>rec. answers (table_reader sample_table) sample_db ''52.94.1.2'' = Inr (Some rec) \<and> Provider rec = ''aws''"
  "answers (table_reader sample_table) sample_db ''10.0.0.1'' = Inr None"
  "isl (answers (table_reader sample_table) sample_db ''cloud'')"
proof -
  have "case answers (table_reader sample_table) sample_db ''52.94.1.2'' of
      Inr (Some rec) \<Rightarrow> Provider rec = ''aws'' | _ \<Rightarrow> False"
    by code_simp
  then show "\<exists>rec. answers (table_reader sample_table) sample_db ''52.94.1.2'' = Inr (Some rec) \<and> Provider rec = ''aws''"
    by (simp split: sum.splits option.splits)
  have "case answers (table_reader sample_table) sample_db ''10.0.0.1'' of Inr None \<Rightarrow> True | _ \<Rightarrow> False"
    by code_simp
  then show "answers (table_reader sample_table) sample_db ''10.0.0.1'' = Inr None"
    by (simp split: sum.splits option.splits)
  show "isl (answers (table_reader sample_table) sample_db ''cloud'')" by code_simp
qed

theorem batch_answers_each_witness:
  "\<exists>rs s'. NewHTTPHandler (table_reader sample_table)
      \<lparr>Method = ''GET'', Segments = [''v1'', ''lookup''], QueryIPs = [''52.94.1.2'', ''cloud'']\<rparr> sample_service =
        (Returns \<lparr>rStatus = 200, rBody = BatchBody rs\<rparr>, s') \<and>
     map bIP rs = [''52.94.1.2'', ''cloud''] \<and> map bFound rs = [True, False] \<and> bError (rs ! 1) \<noteq> None \<and>
     lookups s' = 2 \<and> hits s' = 1 \<and> errorCount s' = 1"
proof -
  let ?r = "\<lparr>Method = ''GET'', Segments = [''v1'', ''lookup''], QueryIPs = [''52.94.1.2'', ''cloud'']\<rparr>"
  let ?M = "table_reader sample_table"
  obtain rec err where a: "answers ?M sample_db ''52.94.1.2'' = Inr (Some rec)" "answers ?M sample_db ''cloud'' = Inl err"
    using sample_answers(1,3) by (auto simp: isl_def)
  obtain out s' where run: "NewHTTPHandler ?M ?r sample_service = (out, s')" by fastforce
  have s: "svcDB sample_service = Some sample_db" "lookups sample_service = 0" "hits sample_service = 0"
      "errorCount sample_service = 0"
    by (simp_all add: sample_service_def)
  from batch_answers_each [of sample_service sample_db ?r ?M] show ?thesis
    using s run a by (simp add: Let_def maxBatch_def batch_result_def)
qed

theorem stream_answers_in_order_witness:
  "\<exists>st s'. BatchLookup (table_reader sample_table)
      \<lparr>recvs = [Inr ''10.0.0.1'', Inr ''52.94.1.2''], send_faults = [None, Some (LibErr ''broken pipe'' [])], sent = []\<rparr> sample_service =
        (Returns (Some (StreamErr (LibErr ''broken pipe'' []))), st, s') \<and> map pbIp (sent st) = [''10.0.0.1'']"
proof -
  let ?st = "\<lparr>recvs = [Inr ''10.0.0.1'', Inr ''52.94.1.2''], send_faults = [None, Some (LibErr ''broken pipe'' [])], sent = []\<rparr>"
  let ?M = "table_reader sample_table"
  obtain r st s' where run: "BatchLookup ?M ?st sample_service = (r, st, s')" using prod_cases3 by blast
  have "svcDB sample_service = Some sample_db" by (simp add: sample_service_def)
  from stream_answers_in_order [OF this, where M = ?M and st = ?st] obtain k j where
    kj: "sent st = map (\<lambda>x. stream_result x (answers ?M sample_db x)) (take k (requests ?st))" "ended ?st k j r"
    by (auto simp: run)
  have reqs: "requests ?st = [''10.0.0.1'', ''52.94.1.2'']" by (simp add: requests_def)
  have "k = 1 \<and> r = Returns (Some (StreamErr (LibErr ''broken pipe'' [])))"
    using kj(2) unfolding ended_def reqs by (cases k) (auto simp: take_Cons split: nat.splits)
  then show ?thesis
    using run kj(1) by (simp add: reqs stream_result_def split: sum.split)
qed

end
