(* ===== verification/Query.thy ===== *)
theory Query
  imports Export Sync Pipeline
begin

text \<open>
  \<open>cmd/cloudattr/query.go\<close>: the commands \<open>lookup\<close>, \<open>export\<close> and \<open>verify\<close>, on the parsed flags.
\<close>

section \<open>The process\<close>

text \<open>
  What a command writes: a line, a formatted message, a piece of a CSV file, a JSON document of
  a lookup, the counts per provider (one line each, in the order a map is iterated), or the line
  on the age of the entries.
\<close>

datatype rvalue = RStr string | RStrs "string list" | RBool bool | RInt int | RMap "string \<rightharpoonup> string"

datatype out = Line string | Message error | Bytes string
  | LookupJSON string bool "error option" "(string \<times> rvalue) list option"
  | Counts "string \<rightharpoonup> nat" | EntryAge gotime string gotime

text \<open>
  The world of a command: the file system with its script of faults, the standard streams and,
  for \<open>build\<close>, the failures noted so far. A write to standard output takes a fault of the
  script; it is up to the code to look at it.
\<close>

record cli = os +
  stdin :: reader
  stdout :: "out list"
  stderr :: "out list"
  failures :: "FeedFailure list"

definition say :: "out \<Rightarrow> 'x cli_scheme \<Rightarrow> 'x cli_scheme" where
  "say l w = w\<lparr>stderr := stderr w @ [l]\<rparr>"

definition emit :: "out \<Rightarrow> 'x cli_scheme \<Rightarrow> error option \<times> 'x cli_scheme" where
  "emit l w = (case next_fault w of
     (Some err, w) \<Rightarrow> (Some err, w)
   | (None, w) \<Rightarrow> (None, w\<lparr>stdout := stdout w @ [l]\<rparr>))"

definition print :: "out \<Rightarrow> 'x cli_scheme \<Rightarrow> 'x cli_scheme" where
  "print l w = snd (emit l w)"

definition tsv :: "string list \<Rightarrow> string" where
  "tsv cols = strings_Join cols [CHR 0x09]"

section \<open>lookup\<close>

record lookup_flags =
  luIn :: string
  luFormat :: string
  luFile :: string
  luArgs :: "string list"

definition recordMap :: "Record \<Rightarrow> (string \<times> rvalue) list" where
  "recordMap r =
     (let synced = (if \<not> time_IsZero (SyncedAt r) then sint (time_Unix (SyncedAt r)) else 0);
          network = (if prefix_IsValid (RecNetwork r) then prefix_String (RecNetwork r) else [])
      in [(''provider'', RStr (Provider r)), (''region'', RStr (Region r)), (''services'', RStrs (Services r)),
          (''categories'', RStrs (Categories r)), (''ipv6'', RBool (IPv6 r)), (''source'', RStr (Source r)),
          (''synced_at'', RInt synced), (''ext'', RMap (Ext r)), (''network'', RStr network)])"

text \<open>The lines of a file: trimmed, without the empty ones and comments.\<close>

definition ip_lines :: "string list \<Rightarrow> string list" where
  "ip_lines ls = filter (\<lambda>l. \<not> (l = [] \<or> has_prefix l ''#'')) (map TrimSpace ls)"

definition readIPsFile :: "('x cli_scheme) platform \<Rightarrow> string \<Rightarrow> 'x cli_scheme \<Rightarrow>
    (string list \<times> error option) \<times> 'x cli_scheme" where
  "readIPsFile P path w =
     (if path \<noteq> ''-'' then
        (case OsOpen P path w of
           (Inl err, w) \<Rightarrow> (([], Some err), w)
         | (Inr f, w) \<Rightarrow> (case scan_lines MaxScanTokenSize (Rd f) of (ls, err) \<Rightarrow> ((ip_lines ls, err), Close f w)))
      else (case scan_lines MaxScanTokenSize (stdin w) of (ls, err) \<Rightarrow>
          ((ip_lines ls, err), w\<lparr>stdin := Reader [] (fault (stdin w))\<rparr>)))"

text \<open>The text line of a record: the categories in the place of the services when there are any.\<close>

definition text_line :: "string \<Rightarrow> Record \<Rightarrow> string" where
  "text_line x rec =
     (let tags = strings_Join (Services rec) '','';
          tags = (if length (Categories rec) > 0 then strings_Join (Categories rec) '','' else tags)
      in tsv [x, Provider rec, Region rec, tags, prefix_String (RecNetwork rec)])"

text \<open>One address: the error that ends the command, whether the lookup failed, and the world.\<close>

definition lookup_one :: "string \<Rightarrow> string \<Rightarrow> error + Record option \<Rightarrow> 'x cli_scheme \<Rightarrow>
    error option \<times> bool \<times> 'x cli_scheme" where
  "lookup_one fmt x r w = (case r of
     Inl err \<Rightarrow>
       (None, True, if fmt = ''json'' then print (LookupJSON x False (Some err) None) w
                    else say (Message (Errorf ''skip %s: %v'' [S x, E err])) w)
   | Inr found \<Rightarrow>
       if fmt = ''json'' then
         (case emit (LookupJSON x (found \<noteq> None) None (map_option recordMap found)) w of
            (err, w) \<Rightarrow> (err, False, w))
       else (None, False, print (Line (case found of
           None \<Rightarrow> tsv [x, ''not attributed'']
         | Some rec \<Rightarrow> text_line x rec)) w))"

fun lookup_loop :: "('h, 'w) maxminddb \<Rightarrow> 'h DB \<Rightarrow> string \<Rightarrow> string list \<Rightarrow> nat \<Rightarrow> 'x cli_scheme \<Rightarrow>
    (error + nat) \<times> 'x cli_scheme" where
  "lookup_loop M db fmt [] nfail w = (Inr nfail, w)"
| "lookup_loop M db fmt (x # ips) nfail w = (case lookup_one fmt x (LookupString M db x) w of
     (Some err, _, w) \<Rightarrow> (Inl err, w)
   | (None, bad, w) \<Rightarrow> lookup_loop M db fmt ips (if bad then nfail + 1 else nfail) w)"

text \<open>The addresses: the arguments, then those of the file.\<close>

definition ips_given :: "('x cli_scheme) platform \<Rightarrow> lookup_flags \<Rightarrow> 'x cli_scheme \<Rightarrow>
    (error + string list) \<times> 'x cli_scheme" where
  "ips_given P fl w =
     (if luFile fl \<noteq> [] then
        (case readIPsFile P (luFile fl) w of
           ((_, Some err), w) \<Rightarrow> (Inl err, w)
         | ((fileIPs, None), w) \<Rightarrow> (Inr (luArgs fl @ fileIPs), w))
      else (Inr (luArgs fl), w))"

definition runLookup :: "('h, 'x cli_scheme) maxminddb \<Rightarrow> ('x cli_scheme) platform \<Rightarrow> lookup_flags \<Rightarrow>
    'x cli_scheme \<Rightarrow> error option \<times> 'x cli_scheme" where
  "runLookup M P fl w = (case ips_given P fl w of
     (Inl err, w) \<Rightarrow> (Some err, w)
   | (Inr ips, w) \<Rightarrow>
       if length ips = 0 then (Some (Errorf ''no IPs given (pass IPs as args or use -f FILE)'' []), w)
       else (case Open M (luIn fl) w of
           (Inl err, w) \<Rightarrow> (Some err, w)
         | (Inr db, w) \<Rightarrow>
             (case lookup_loop M db (luFormat fl) ips 0 w of
                (r, w) \<Rightarrow> ((case r of
                    Inl err \<Rightarrow> Some err
                  | Inr nfail \<Rightarrow>
                      if nfail > 0 \<and> nfail = length ips
                      then Some (Errorf ''all %d lookups failed'' [I (int nfail)]) else None),
                  snd (CloseDB M db w)))))"

section \<open>export\<close>

text \<open>
  Writing to an open file appends to it; a write that fails is taken to leave nothing of its
  bytes. Standard output is written in the same way.
\<close>

definition file_sink :: "string \<Rightarrow> ('x cli_scheme) byte_sink" where
  "file_sink path bs w = (case file_op (\<lambda>m. m(path \<mapsto> (case m path of Some s \<Rightarrow> s | None \<Rightarrow> []) @ bs)) w of
     (err, w) \<Rightarrow> (w, err))"

definition stdout_sink :: "('x cli_scheme) byte_sink" where
  "stdout_sink bs w = (case emit (Bytes bs) w of (err, w) \<Rightarrow> (w, err))"

text \<open>From the creation of the temporary file to its renaming.\<close>

definition csv_commit :: "('h, 'x cli_scheme) maxminddb \<Rightarrow> 'h DB \<Rightarrow> string \<Rightarrow> string \<Rightarrow> 'x cli_scheme \<Rightarrow>
    error option \<times> nat \<times> 'x cli_scheme" where
  "csv_commit M db tmpPath path w = (case ExportCSV M db (file_sink tmpPath) w of
     (w, n, Some err) \<Rightarrow> (Some err, n, snd (file_Close w))
   | (w, n, None) \<Rightarrow>
       (case file_Sync w of
          (Some err, w) \<Rightarrow> (Some err, n, snd (file_Close w))
        | (None, w) \<Rightarrow>
            (case file_Close w of
               (Some err, w) \<Rightarrow> (Some err, n, w)
             | (None, w) \<Rightarrow> (case os_Rename tmpPath path w of (err, w) \<Rightarrow> (err, n, w)))))"

definition exportCSVFile :: "('h, 'x cli_scheme) maxminddb \<Rightarrow> picker \<Rightarrow> string \<Rightarrow> string \<Rightarrow> 'x cli_scheme \<Rightarrow>
    error option \<times> 'x cli_scheme" where
  "exportCSVFile M pick src path w = (case Open M src w of
     (Inl err, w) \<Rightarrow> (Some err, w)
   | (Inr db, w) \<Rightarrow>
       (case (if path = ''-'' then (case ExportCSV M db stdout_sink w of (w, n, err) \<Rightarrow> (err, w))
              else (case os_CreateTemp pick (filepath_Dir path) (filepath_Base path @ ''.tmp-*'') w of
                  (Inl err, w) \<Rightarrow> (Some err, w)
                | (Inr tmpPath, w) \<Rightarrow>
                    (case csv_commit M db tmpPath path w of
                       (Some err, n, w) \<Rightarrow> (Some err, snd (os_Remove tmpPath w))
                     | (None, n, w) \<Rightarrow> (None, say (Message (Errorf ''exported %d rows'' [I (int n)])) w)))) of
          (err, w) \<Rightarrow> (err, snd (CloseDB M db w))))"

record export_flags =
  exIn :: string
  exOut :: string

definition runExport :: "('h, 'x cli_scheme) maxminddb \<Rightarrow> picker \<Rightarrow> export_flags \<Rightarrow> 'x cli_scheme \<Rightarrow>
    error option \<times> 'x cli_scheme" where
  "runExport M pick fl w = exportCSVFile M pick (exIn fl) (exOut fl) w"

section \<open>verify\<close>

text \<open>\<open>Time.Sub\<close> in nanoseconds, saturating at the ends of an \<open>int64\<close>.\<close>

definition time_Sub :: "gotime \<Rightarrow> gotime \<Rightarrow> int" where
  "time_Sub t u =
     (let d = sint (tsec t - tsec u) * 1000000000 + (int (tnsec t) - int (tnsec u)) in
      if - (2 ^ 63) \<le> d \<and> d < 2 ^ 63 then d else if time_Before t u then - (2 ^ 63) else 2 ^ 63 - 1)"

definition duration_Hours :: "int \<Rightarrow> float64" where
  "duration_Hours d = rnd (float_of_int (d div 3600000000000) +
     fdiv (float_of_int (d mod 3600000000000)) 3600000000000)"

definition humanAge :: "gotime \<Rightarrow> gotime \<Rightarrow> string" where
  "humanAge now t =
     (let d = time_Sub now t in
      if d < 24 * 3600000000000 then ''today'' else FormatInt (floor (fdiv (duration_Hours d) 24)) @ ''d'')"

definition runVerify :: "('h, 'x cli_scheme) maxminddb \<Rightarrow> gotime \<Rightarrow> string \<Rightarrow> 'x cli_scheme \<Rightarrow>
    error option \<times> 'x cli_scheme" where
  "runVerify M now path w = (case Open M path w of
     (Inl err, w) \<Rightarrow> (Some err, w)
   | (Inr db, w) \<Rightarrow>
       (case Verify M db of
          (rep, Some err) \<Rightarrow> (Some err, snd (CloseDB M db w))
        | (rep, None) \<Rightarrow>
            (let md = Metadata M db;
                 w = print (Message (Errorf ''database_type: %s'' [S (MetaDatabaseType md)])) w;
                 w = print (Message (Errorf ''build_epoch:   %d'' [I (sint (time_Unix (BuildTime M db)))])) w;
                 w = print (Message (Errorf ''record_size:   %d'' [I (int (RecordBits md))])) w;
                 w = print (Message (Errorf ''networks:      %d (%d v4 / %d v6)''
                       [I (int (NetworkCount rep)), I (int (IPv4Count rep)), I (int (IPv6Count rep))])) w;
                 w = (if \<not> time_IsZero (Oldest rep)
                      then print (EntryAge (Oldest rep) (humanAge now (Oldest rep)) (Newest rep)) w else w);
                 w = print (Counts (ByProvider rep)) w
             in (None, snd (CloseDB M db w)))))"

section \<open>What lookup prints\<close>

text \<open>The lines of one address on standard output and on standard error.\<close>

definition out_lines :: "string \<Rightarrow> string \<Rightarrow> error + Record option \<Rightarrow> out list" where
  "out_lines fmt x r = (case r of
     Inl err \<Rightarrow> if fmt = ''json'' then [LookupJSON x False (Some err) None] else []
   | Inr found \<Rightarrow>
       if fmt = ''json'' then [LookupJSON x (found \<noteq> None) None (map_option recordMap found)]
       else (case found of None \<Rightarrow> [Line (tsv [x, ''not attributed''])] | Some rec \<Rightarrow> [Line (text_line x rec)]))"

definition err_lines :: "string \<Rightarrow> string \<Rightarrow> error + Record option \<Rightarrow> out list" where
  "err_lines fmt x r = (case r of
     Inl err \<Rightarrow> if fmt = ''json'' then [] else [Message (Errorf ''skip %s: %v'' [S x, E err])]
   | Inr _ \<Rightarrow> [])"

lemma emit_calm: "faults w = [] \<Longrightarrow> emit l w = (None, w\<lparr>stdout := stdout w @ [l]\<rparr>)"
  by (simp add: emit_def next_fault_def)

lemma lookup_one_calm:
  assumes "faults w = []"
  shows "lookup_one fmt x r w = (None, isl r,
     w\<lparr>stdout := stdout w @ out_lines fmt x r, stderr := stderr w @ err_lines fmt x r\<rparr>)"
  using assms
  by (cases r) (auto simp: lookup_one_def out_lines_def err_lines_def emit_calm print_def say_def split: option.split)

lemma lookup_loop_calm:
  "faults w = [] \<Longrightarrow> lookup_loop M db fmt ips nfail w =
    (Inr (nfail + length (filter (\<lambda>x. isl (LookupString M db x)) ips)),
     w\<lparr>stdout := stdout w @ concat (map (\<lambda>x. out_lines fmt x (LookupString M db x)) ips),
       stderr := stderr w @ concat (map (\<lambda>x. err_lines fmt x (LookupString M db x)) ips)\<rparr>)"
  by (induction ips arbitrary: nfail w) (simp_all add: lookup_one_calm)

text \<open>Opening and closing a database prints nothing and takes no fault of the script.\<close>

definition quiet_reader :: "('h, 'x cli_scheme) maxminddb \<Rightarrow> bool" where
  "quiet_reader M \<longleftrightarrow>
     (\<forall>p w. let w' = snd (OpenReader M p w) in stdout w' = stdout w \<and> stderr w' = stderr w \<and> faults w' = faults w) \<and>
     (\<forall>h w. let w' = snd (CloseReader M h w) in stdout w' = stdout w \<and> stderr w' = stderr w \<and> faults w' = faults w)"

lemma quiet_Open:
  "quiet_reader M \<Longrightarrow> Open M p w = (r, w') \<Longrightarrow> stdout w' = stdout w \<and> stderr w' = stderr w \<and> faults w' = faults w"
  unfolding quiet_reader_def Open_def by (auto simp: Let_def split: prod.splits sum.splits) (metis snd_conv)+

lemma quiet_Close:
  "quiet_reader M \<Longrightarrow> stdout (snd (CloseDB M db w)) = stdout w \<and> stderr (snd (CloseDB M db w)) = stderr w"
  unfolding quiet_reader_def CloseDB_def by (auto simp: Let_def)

lemma all_fail: "length (filter P xs) = length xs \<longleftrightarrow> list_all P xs"
  by (metis filter_True length_filter_less list_all_iff nat_neq_iff)

text \<open>
  C27. \<open>lookup\<close> on an existing database, with nothing failing on standard output, answers every
  address it was given, in order: a JSON document each, or a line each with the failed ones on
  standard error. A miss is an answer; the command fails exactly when every single address
  failed.
\<close>

theorem lookup_answers_all:
  assumes "quiet_reader M" and "ips_given P fl w = (Inr ips, w0)" and "ips \<noteq> []" and "faults w0 = []"
    and "Open M (luIn fl) w0 = (Inr db, w1)"
  shows "case runLookup M P fl w of (err, w') \<Rightarrow>
    stdout w' = stdout w0 @ concat (map (\<lambda>x. out_lines (luFormat fl) x (LookupString M db x)) ips) \<and>
    stderr w' = stderr w0 @ concat (map (\<lambda>x. err_lines (luFormat fl) x (LookupString M db x)) ips) \<and>
    (err = None \<longleftrightarrow> \<not> list_all (\<lambda>x. isl (LookupString M db x)) ips)"
proof -
  note w1 = quiet_Open [OF assms(1,5)]
  let ?n = "length (filter (\<lambda>x. isl (LookupString M db x)) ips)"
  have "?n > 0 \<and> ?n = length ips \<longleftrightarrow> list_all (\<lambda>x. isl (LookupString M db x)) ips"
    using assms(3) all_fail [of "\<lambda>x. isl (LookupString M db x)" ips] by (cases ips) auto
  then show ?thesis
    using assms w1 quiet_Close [OF assms(1)]
    by (simp add: runLookup_def lookup_loop_calm)
qed

section \<open>Exported files\<close>

interpretation file_writer: byte_writer "file_sink path" "\<lambda>w. case files w path of Some s \<Rightarrow> s | None \<Rightarrow> []"
    "\<lambda>w. (files w)(path := None)" for path
  by unfold_locales (auto simp: file_sink_def dest!: file_op_files split: prod.splits if_splits)

text \<open>Standard output holds the pieces of the export, next to anything else printed.\<close>

definition stdout_bytes :: "'x cli_scheme \<Rightarrow> string" where
  "stdout_bytes w = concat (map (\<lambda>l. case l of Bytes b \<Rightarrow> b | _ \<Rightarrow> []) (stdout w))"

interpretation stdout_writer: byte_writer stdout_sink stdout_bytes files
  by unfold_locales
    (auto simp: stdout_sink_def emit_def next_fault_def stdout_bytes_def split: prod.splits list.splits option.splits)

text \<open>The text of an export of a database.\<close>

definition csv_of :: "('h, 'w) maxminddb \<Rightarrow> 'h DB \<Rightarrow> string \<Rightarrow> bool" where
  "csv_of M db doc \<longleftrightarrow> (\<exists>rs. walk_items M (rdr db) (ReaderNetworks M (rdr db)) = map Inr rs \<and>
     doc = csv_line csvHeader @ csv_rows rs)"

lemma csv_commit_files:
  assumes "csv_commit M db tmp path w = (err, n, w')" "files w tmp = Some []" "tmp \<noteq> path"
  shows "if err = None then \<exists>doc. csv_of M db doc \<and> files w' = (files w)(tmp := None, path \<mapsto> doc)
    else (files w')(tmp := None) = (files w)(tmp := None)"
proof -
  obtain w1 n1 e1 where 1: "ExportCSV M db (file_sink tmp) w = (w1, n1, e1)" by (metis prod_cases3)
  note x = file_writer.ExportCSV_written [OF 1]
  show ?thesis
  proof (cases e1)
    case (Some e)
    obtain r2 w2 where "file_Close w1 = (r2, w2)" by (metis prod.exhaust)
    then have "files w2 = files w1" "err = Some e" "w' = w2"
      using assms(1) 1 Some by (auto simp: csv_commit_def dest: file_neutral)
    then show ?thesis using x by simp
  next
    case ok: None
    obtain rs where rs: "walk_items M (rdr db) (ReaderNetworks M (rdr db)) = map Inr rs"
        "(case files w1 tmp of Some s \<Rightarrow> s | None \<Rightarrow> []) = csv_line csvHeader @ csv_rows rs"
      using x ok assms(2) by auto
    have ne: "csv_line csvHeader \<noteq> []" by code_simp
    have w1: "files w1 = (files w)(tmp \<mapsto> csv_line csvHeader @ csv_rows rs)"
      using rs(2) conjunct1 [OF x] by (cases "files w1 tmp") (auto simp: ne, metis fun_upd_triv fun_upd_upd)
    obtain e2 w2 e3 w3 where 2: "file_Sync w1 = (e2, w2)" and 3: "file_Close w2 = (e3, w3)" by (metis prod.exhaust)
    have same: "files w2 = files w1" "files w3 = files w1" using file_neutral 2 3 by metis+
    obtain e4 w4 where 4: "os_Rename tmp path w3 = (e4, w4)" by (metis prod.exhaust)
    have w4: "files w4 = (if e4 = None then (files w3)(tmp := None, path := files w3 tmp) else files w3)"
      using file_op_files 4 unfolding os_Rename_def by fastforce
    show ?thesis
      using assms(1,3) 1 ok 2 3 4 w4 same w1 rs(1)
      by (auto simp: csv_commit_def csv_of_def fun_upd_twist split: option.splits)
  qed
qed

lemma csv_stdout_files:
  "ExportCSV M db stdout_sink w = (w', n, err) \<Longrightarrow> files w' = files w \<and>
    (err = None \<longrightarrow> (\<exists>doc. csv_of M db doc \<and> stdout_bytes w' = stdout_bytes w @ doc))"
  using stdout_writer.ExportCSV_written by (fastforce simp: csv_of_def)

lemma reader_contract_files:
  assumes "reader_contract M"
  shows "Open M p w = (r, w') \<Longrightarrow> files w' = files w" "files (snd (CloseDB M db w)) = files w"
  using assms by (auto simp: reader_contract_def Open_def CloseDB_def split: prod.splits sum.splits) (metis snd_conv)+

lemma exportCSVFile_run:
  assumes "reader_contract M" and "temp_fresh pick path (files w)"
    and "exportCSVFile M pick src path w = (err, w')"
  shows "if err = None
    then \<exists>db w1 doc. Open M src w = (Inr db, w1) \<and> csv_of M db doc \<and>
      files w' = (if path = ''-'' then files w else (files w)(path \<mapsto> doc))
    else files w' = files w \<or> path \<noteq> ''-'' \<and> (\<exists>tmp. tmp \<notin> dom (files w) \<and> (files w')(tmp := None) = files w)"
proof -
  obtain r w1 where 1: "Open M src w = (r, w1)" by (metis prod.exhaust)
  note same = reader_contract_files [OF assms(1)]
  have w1: "files w1 = files w" by (rule same(1) [OF 1])
  show ?thesis
  proof (cases r)
    case (Inl e)
    then show ?thesis using assms(3) 1 w1 by (auto simp: exportCSVFile_def)
  next
    case (Inr db)
    show ?thesis
    proof (cases "path = ''-''")
      case True
      obtain w2 n e where x: "ExportCSV M db stdout_sink w1 = (w2, n, e)" by (metis prod_cases3)
      have res: "err = e" "w' = snd (CloseDB M db w2)"
        using assms(3) 1 Inr True x by (simp_all add: exportCSVFile_def)
      then show ?thesis using csv_stdout_files [OF x] same(2) w1 1 Inr True by auto
    next
      case False
      define tmp where "tmp = pick (filepath_Dir path) (filepath_Base path @ ''.tmp-*'') (files w)"
      have fresh: "tmp \<notin> dom (files w)" "tmp \<noteq> path" using assms(2) by (auto simp: temp_fresh_def tmp_def Let_def)
      obtain e2 w2 where 2: "file_op (\<lambda>m. m(tmp \<mapsto> [])) w1 = (e2, w2)" by (metis prod.exhaust)
      note w2 = file_op_files [OF 2]
      show ?thesis
      proof (cases e2)
        case (Some e)
        then have "err = Some e" "w' = snd (CloseDB M db w2)"
          using assms(3) 1 Inr False 2 w1
          by (simp_all add: exportCSVFile_def os_CreateTemp_def tmp_def [symmetric] Let_def)
        then show ?thesis using Some w2 w1 same(2) by simp
      next
        case None
        obtain e3 n w3 where 3: "csv_commit M db tmp path w2 = (e3, n, w3)" by (metis prod_cases3)
        have tmp: "files w2 tmp = Some []" using w2 None by simp
        note c = csv_commit_files [OF 3 tmp fresh(2)]
        obtain e4 w4 where 4: "os_Remove tmp w3 = (e4, w4)" by (metis prod.exhaust)
        have w4: "files w4 = (if e4 = None then (files w3)(tmp := None) else files w3)"
          using file_op_files 4 unfolding os_Remove_def by fastforce
        have undo: "(files w)(tmp := None) = files w" using fresh(1) by (auto simp: fun_upd_idem_iff)
        have res: "err = e3" "w' = snd (CloseDB M db (if e3 = None then say (Message (Errorf ''exported %d rows'' [I (int n)])) w3 else w4))"
          using assms(3) 1 Inr False 2 None w1 3 4
          by (auto simp: exportCSVFile_def os_CreateTemp_def tmp_def [symmetric] Let_def split: option.splits)
        show ?thesis
        proof (cases e3)
          case None
          then show ?thesis
            using c res same(2) w2 \<open>e2 = None\<close> w1 undo 1 Inr False fresh(2)
            by (auto simp: say_def fun_upd_twist)
        next
          case (Some e)
          then have "(files w3)(tmp := None) = files w" using c w2 \<open>e2 = None\<close> w1 undo by simp
          then have "files w4 = files w \<or> tmp \<notin> dom (files w) \<and> (files w4)(tmp := None) = files w"
            using w4 fresh(1) by auto
          then show ?thesis using res Some same(2) False by auto
        qed
      qed
    qed
  qed
qed

text \<open>
  C26. An export to a file is all or nothing: on success the file holds the header and a row for
  every network of the whole, error-free walk, and nothing else changed; after any failure
  the file is as it was, and so is every other, but for the temporary file if it could not be
  removed. An export to standard output leaves the files and, on success, printed that text.
\<close>

theorem exportCSVFile_atomic:
  assumes "reader_contract M" and "temp_fresh pick path (files w)"
    and "exportCSVFile M pick src path w = (err, w')"
  shows "if err = None
    then \<exists>db w1 doc. Open M src w = (Inr db, w1) \<and> csv_of M db doc \<and>
      files w' = (if path = ''-'' then files w else (files w)(path \<mapsto> doc))
    else files w' = files w \<or> path \<noteq> ''-'' \<and> (\<exists>tmp. tmp \<notin> dom (files w) \<and> (files w')(tmp := None) = files w)"
  by (rule exportCSVFile_run [OF assms])

section \<open>Concrete runs\<close>

text \<open>The sample table behind a reader that opens \<open>db\<close> and leaves the world alone.\<close>

definition quiet_table :: "table \<Rightarrow> (table, 'w) maxminddb" where
  "quiet_table db = (let M = table_reader db in
     \<lparr>OpenReader = (\<lambda>path w. (if path = ''db'' then Inr db else Inl (LibErr ''no such file'' []), w)),
      OpenReaderBytes = OpenReaderBytes M, CloseReader = (\<lambda>_ w. (None, w)), ReaderMetadata = ReaderMetadata M,
      LookupAddr = LookupAddr M, ReaderNetworks = ReaderNetworks M, DecodeStored = DecodeStored M,
      DecodeMini = DecodeMini M\<rparr>)"

lemma quiet_table_contracts: "quiet_reader (quiet_table db)" "reader_contract (quiet_table db)"
  by (simp_all add: quiet_reader_def reader_contract_def quiet_table_def Let_def)

definition fresh_cli :: cli where
  "fresh_cli = \<lparr>files = [''old.csv'' \<mapsto> ''x''], faults = [], stdin = Reader [] None, stdout = [], stderr = [], failures = []\<rparr>"

definition no_platform :: "'s platform" where
  "no_platform = \<lparr>NewRequest = (\<lambda>_. None), Do = (\<lambda>_ w. (Inl (LibErr ''offline'' []), w)), Wait = (\<lambda>_ w. (None, w)),
     Getenv = (\<lambda>_. []), OsOpen = (\<lambda>_ w. (Inl (LibErr ''no such file'' []), w)),
     OpenInRoot = (\<lambda>_ _ w. (Inl (LibErr ''no such file'' []), w)), Sha256 = (\<lambda>s. s), Gunzip = Inr\<rparr>"

theorem lookup_answers_all_witness:
  "case runLookup (quiet_table sample_table) no_platform
      \<lparr>luIn = ''db'', luFormat = ''text'', luFile = [], luArgs = [''10.0.0.1'', ''nowhere'']\<rparr> fresh_cli of (err, w') \<Rightarrow>
    err = None \<and> stdout w' = [Line (tsv [''10.0.0.1'', ''not attributed''])] \<and> length (stderr w') = 1"
proof -
  let ?fl = "\<lparr>luIn = ''db'', luFormat = ''text'', luFile = [], luArgs = [''10.0.0.1'', ''nowhere'']\<rparr>"
  let ?M = "quiet_table sample_table :: (table, cli) maxminddb"
  let ?db = "\<lparr>rdr = sample_table, idx = None\<rparr>"
  have g: "ips_given no_platform ?fl fresh_cli = (Inr [''10.0.0.1'', ''nowhere''], fresh_cli)"
    by (simp add: ips_given_def)
  have o: "Open ?M (luIn ?fl) fresh_cli = (Inr ?db, fresh_cli)" by (simp add: Open_def quiet_table_def Let_def)
  have w: "faults fresh_cli = []" "stdout fresh_cli = []" "stderr fresh_cli = []" by (simp_all add: fresh_cli_def)
  have "case LookupString ?M ?db ''10.0.0.1'' of Inr None \<Rightarrow> True | _ \<Rightarrow> False" by code_simp
  then have miss: "LookupString ?M ?db ''10.0.0.1'' = Inr None" by (simp split: sum.splits option.splits)
  have "isl (LookupString ?M ?db ''nowhere'')" by code_simp
  then obtain e where bad: "LookupString ?M ?db ''nowhere'' = Inl e" by (auto simp: isl_def)
  from lookup_answers_all [OF quiet_table_contracts(1) g _ w(1) o] show ?thesis
    by (auto simp: w miss bad out_lines_def err_lines_def)
qed

theorem exportCSVFile_atomic_witness:
  "case exportCSVFile (quiet_table sample_table) (\<lambda>_ p _. p) ''missing'' ''old.csv'' fresh_cli of (err, w') \<Rightarrow>
    err \<noteq> None \<and> files w' ''old.csv'' = Some ''x''"
proof -
  let ?M = "quiet_table sample_table :: (table, cli) maxminddb"
  obtain err w' where run: "exportCSVFile ?M (\<lambda>_ p _. p) ''missing'' ''old.csv'' fresh_cli = (err, w')" by fastforce
  have fresh: "temp_fresh (\<lambda>_ p _. p) ''old.csv'' (files fresh_cli)"
    by (simp add: temp_fresh_def fresh_cli_def filepath_Base_def Let_def)
  have "err \<noteq> None"
    using run by (auto simp: exportCSVFile_def Open_def quiet_table_def Let_def)
  moreover have "files fresh_cli ''old.csv'' = Some ''x''" by (simp add: fresh_cli_def)
  ultimately show ?thesis
    using exportCSVFile_atomic [OF quiet_table_contracts(2) fresh run] run
    by (auto simp: fun_eq_iff split: if_splits) (metis domIff option.distinct(1))+
qed

end
