(* ===== verification/Effects.thy ===== *)
theory Effects
  imports Pipeline Plugin_Set Asn
begin

text \<open>
  What a stream of entries does to the world while it runs: it opens, reads and closes feeds, and
  calls the consumer. An invariant \<open>J\<close> of the state survives a stream when it survives the
  consumer and the platform; one rule per combinator, source and collector.
\<close>

named_theorems keeping "rules for invariants kept by iterators and sources"

section \<open>Iterators\<close>

definition keeps_yield :: "('s \<Rightarrow> bool) \<Rightarrow> ('a, 's) yield \<Rightarrow> bool" where
  "keeps_yield J yield \<longleftrightarrow> (\<forall>x s. J s \<longrightarrow> J (snd (yield x s)))"

definition keeps :: "('s \<Rightarrow> bool) \<Rightarrow> ('a, 's) seq \<Rightarrow> bool" where
  "keeps J p \<longleftrightarrow> (\<forall>yield s. keeps_yield J yield \<longrightarrow> J s \<longrightarrow> J (snd (p yield s)))"

lemma keepsD: "keeps J p \<Longrightarrow> keeps_yield J yield \<Longrightarrow> J s \<Longrightarrow> p yield s = (r, s') \<Longrightarrow> J s'"
  by (metis keeps_def snd_conv)

lemma keeps_yieldD: "keeps_yield J yield \<Longrightarrow> J s \<Longrightarrow> yield x s = (r, s') \<Longrightarrow> J s'"
  by (metis keeps_yield_def snd_conv)

lemma keeps_seq_yield [keeping]: "keeps J (seq_yield x)"
  by (simp add: keeps_def keeps_yield_def seq_yield_def)

lemma keeps_seq_nil [keeping]: "keeps J seq_nil"
  by (simp add: keeps_def seq_nil_def)

lemma keeps_seq_then [keeping]: "keeps J p \<Longrightarrow> keeps J q \<Longrightarrow> keeps J (seq_then p q)"
  unfolding keeps_def by (auto simp: seq_then_def split: prod.split) (metis snd_conv)+

lemma keeps_seq_for [keeping]: "(\<And>x. x \<in> set xs \<Longrightarrow> keeps J (body x)) \<Longrightarrow> keeps J (seq_for xs body)"
  by (induction xs) (simp_all add: keeping)

lemma keeps_seq_range [keeping]: "keeps J p \<Longrightarrow> (\<And>x. keeps J (body x)) \<Longrightarrow> keeps J (seq_range p body)"
  unfolding keeps_def seq_range_def by (simp add: keeps_yield_def)

lemma keeps_seq_of [keeping]: "keeps J (seq_of xs)" for J :: "'s \<Rightarrow> bool" and xs :: "'a list"
proof -
  have "seq_of xs = (seq_for xs seq_yield :: ('a, 's) seq)"
    by (induction xs) (simp_all add: iter del: seq_of.simps)
  then show ?thesis using keeps_seq_for [of xs J seq_yield] keeps_seq_yield by metis
qed

section \<open>The platform and the sources\<close>

text \<open>An opened stream keeps \<open>J\<close> when its closing does; a call when its result state and stream do.\<close>

definition keeps_stream :: "('s \<Rightarrow> bool) \<Rightarrow> 's stream \<Rightarrow> bool" where
  "keeps_stream J rc \<longleftrightarrow> (\<forall>s. J s \<longrightarrow> J (Close rc s))"

definition keeps_open :: "('s \<Rightarrow> bool) \<Rightarrow> (error + 's stream) \<times> 's \<Rightarrow> bool" where
  "keeps_open J r \<longleftrightarrow> J (snd r) \<and> (case fst r of Inl _ \<Rightarrow> True | Inr rc \<Rightarrow> keeps_stream J rc)"

definition keeps_source :: "('s \<Rightarrow> bool) \<Rightarrow> 's source \<Rightarrow> bool" where
  "keeps_source J src \<longleftrightarrow> (\<forall>ref s. J s \<longrightarrow> keeps_open J (src ref s))"

definition keeps_platform :: "('s \<Rightarrow> bool) \<Rightarrow> 's platform \<Rightarrow> bool" where
  "keeps_platform J P \<longleftrightarrow>
     (\<forall>url s. J s \<longrightarrow> J (snd (Do P url s)) \<and>
        (case fst (Do P url s) of Inl _ \<Rightarrow> True | Inr resp \<Rightarrow> keeps_stream J (Body resp))) \<and>
     (\<forall>d s. J s \<longrightarrow> J (snd (Wait P d s))) \<and>
     (\<forall>path. \<forall>s. J s \<longrightarrow> keeps_open J (OsOpen P path s)) \<and>
     (\<forall>dir path s. J s \<longrightarrow> keeps_open J (OpenInRoot P dir path s))"

lemma keeps_platformD:
  assumes "keeps_platform J P"
  shows "J s \<Longrightarrow> Do P url s = (r, s') \<Longrightarrow> J s'"
    and "J s \<Longrightarrow> Do P url s = (Inr resp, s') \<Longrightarrow> keeps_stream J (Body resp)"
    and "J s \<Longrightarrow> Wait P d s = (e, s') \<Longrightarrow> J s'"
    and "J s \<Longrightarrow> keeps_open J (OsOpen P path s)"
    and "J s \<Longrightarrow> keeps_open J (OpenInRoot P dir path s)"
proof -
  note c = assms [unfolded keeps_platform_def]
  show "J s \<Longrightarrow> Do P url s = (r, s') \<Longrightarrow> J s'"
    "J s \<Longrightarrow> Do P url s = (Inr resp, s') \<Longrightarrow> keeps_stream J (Body resp)"
    using spec [OF spec [OF conjunct1 [OF c], of url], of s] by simp_all
  show "J s \<Longrightarrow> Wait P d s = (e, s') \<Longrightarrow> J s'" using c by (metis snd_conv)
  show "J s \<Longrightarrow> keeps_open J (OsOpen P path s)" "J s \<Longrightarrow> keeps_open J (OpenInRoot P dir path s)"
    using c by blast+
qed

lemma http_loop_keeps:
  "keeps_platform J P \<Longrightarrow> J s \<Longrightarrow> keeps_open J (http_loop P url attempts backoff attempt lastErr s)"
proof (induction P url attempts backoff attempt lastErr s rule: http_loop.induct)
  case (1 P url attempts backoff attempt lastErr s)
  note keep = keeps_platformD [OF "1.prems"(1)]
  obtain e s1 where w: "(if attempt > 1 then Wait P (backoff * word_of_int (attempt - 1)) s else (None, s)) = (e, s1)"
    by fastforce
  then have s1: "J s1" using keep(3) "1.prems"(2) by (auto split: if_splits)
  obtain r s2 where d: "Do P url s1 = (r, s2)" by fastforce
  then have s2: "J s2" using keep(1) s1 by blast
  show ?case
  proof (cases "attempt \<le> attempts \<and> e = None \<and> NewRequest P url = None")
    case False
    then show ?thesis
      using w s1 "1.prems"(2)
      by (subst http_loop.simps) (auto simp: keeps_open_def split: option.split)
  next
    case go: True
    show ?thesis
    proof (cases r)
      case (Inl err)
      have "keeps_open J (http_loop P url attempts backoff (attempt + 1) (Errorf ''fetch %q: %w'' [S url, E err]) s2)"
        by (rule "1.IH"(1) [OF _ w [symmetric] _ _ d [symmetric]]) (use go Inl s2 "1.prems"(1) in simp_all)
      then show ?thesis using go w d Inl by (subst http_loop.simps) simp
    next
      case (Inr resp)
      have body: "keeps_stream J (Body resp)" using keep(2) s1 d Inr by blast
      then have s3: "J (Close (Body resp) s2)" using s2 by (simp add: keeps_stream_def)
      show ?thesis
      proof (cases "StatusCode resp = 200 \<or> \<not> retryableStatus (StatusCode resp)")
        case True
        then show ?thesis
          using go w d Inr body s2 s3 by (subst http_loop.simps) (auto simp: keeps_open_def Let_def)
      next
        case False
        have "keeps_open J (http_loop P url attempts backoff (attempt + 1)
            (Errorf ''fetch %q: status %s'' [S url, S (Status resp)]) (Close (Body resp) s2))"
          by (rule "1.IH"(2) [OF _ w [symmetric] _ _ d [symmetric]]) (use go Inr False s3 "1.prems"(1) in simp_all)
        then show ?thesis using go w d Inr False by (subst http_loop.simps) (simp add: Let_def)
      qed
    qed
  qed
qed

lemma http_Open_keeps [keeping]: "keeps_platform J P \<Longrightarrow> keeps_source J (http_Open P h)"
  by (simp add: keeps_source_def http_Open_def Let_def http_loop_keeps)

lemma file_Open_keeps [keeping]:
  assumes "keeps_platform J P"
  shows "keeps_source J (file_Open P f)"
proof -
  have "keeps_open J (file_Open P f ref s)" if s: "J s" for ref s
  proof (cases "Dir f = []")
    case True
    then show ?thesis
      using keeps_platformD(4) [OF assms s, of ref]
      by (auto simp: file_Open_def keeps_open_def split: prod.split sum.split)
  next
    case False
    then show ?thesis
      using keeps_platformD(5) [OF assms s, of "Dir f" "relative_ref ref"]
      by (auto simp: file_Open_def keeps_open_def split: prod.split sum.split)
  qed
  then show ?thesis by (simp add: keeps_source_def)
qed

definition keeps_record :: "('s \<Rightarrow> bool) \<Rightarrow> (string \<Rightarrow> string \<Rightarrow> 's \<Rightarrow> 's) option \<Rightarrow> bool" where
  "keeps_record J rec \<longleftrightarrow> (\<forall>r ref sha s. rec = Some r \<longrightarrow> J s \<longrightarrow> J (r ref sha s))"

lemma digest_Open_keeps [keeping]:
  assumes "keeps_source J (Inner d)" "keeps_record J (DigestRecord d)"
  shows "keeps_source J (digest_Open P d)"
proof -
  have "keeps_open J (digest_Open P d ref s)" if s: "J s" for ref s
  proof -
    obtain r s1 where r: "Inner d ref s = (r, s1)" by fastforce
    then have o: "keeps_open J (r, s1)" using assms(1) s by (metis keeps_source_def)
    show ?thesis
      using r o assms(2)
      by (cases r) (auto simp: digest_Open_def keeps_open_def keeps_stream_def keeps_record_def Let_def split: option.split)
  qed
  then show ?thesis by (simp add: keeps_source_def)
qed

section \<open>Collectors and enrichment\<close>

definition keeps_feed :: "('s \<Rightarrow> bool) \<Rightarrow> 's Feed \<Rightarrow> bool" where
  "keeps_feed J f \<longleftrightarrow> keeps_source J (FeedSource f) \<and> (\<forall>ref r. keeps J (FeedParse f ref r))"

lemma collectFeed_keeps [keeping]:
  fixes J :: "'s \<Rightarrow> bool"
  assumes "keeps_feed J f"
  shows "keeps J (collectFeed provider f)"
  unfolding keeps_def
proof (intro allI impI)
  fix yield :: "(item, 's) yield" and s
  assume y: "keeps_yield J yield" and s: "J s"
  obtain r s1 where r: "FeedSource f (Ref f) s = (r, s1)" by fastforce
  then have o: "keeps_open J (r, s1)" using assms s by (metis keeps_feed_def keeps_source_def)
  show "J (snd (collectFeed provider f yield s))"
  proof (cases r)
    case (Inl err)
    then show ?thesis using r o y by (simp add: collectFeed_def keeps_open_def keeps_yield_def)
  next
    case (Inr rc)
    let ?p = "seq_range (FeedParse f (Ref f) (Rd rc)) (\<lambda>it. case it of
            Inl perr \<Rightarrow> seq_yield (Inl (Errorf ''%s: parse %s: %w'' [S provider, S (Ref f), E perr]))
          | Inr e \<Rightarrow> seq_yield (Inr e))"
    have p: "keeps J ?p"
      using assms by (intro keeping) (auto simp: keeps_feed_def keeping split: sum.split)
    obtain running s2 where run: "?p yield s1 = (running, s2)" by fastforce
    have "J s1" using o by (simp add: keeps_open_def)
    then have "J (snd (?p yield s1))" using p y unfolding keeps_def by blast
    then have "J s2" by (simp only: run snd_conv)
    then show ?thesis using r Inr run o by (simp add: collectFeed_def keeps_open_def keeps_stream_def)
  qed
qed

lemma Collect_keeps [keeping]:
  "(\<And>p f. p \<in> set plugins \<Longrightarrow> f \<in> set (resolve p) \<Longrightarrow> keeps_feed J f) \<Longrightarrow> keeps J (Collect plugins resolve)"
  unfolding Collect_def by (intro keeping)

text \<open>The resilient collector works on a cell beside the rest of the state; \<open>J\<close> ignores it.\<close>

definition on_fst :: "('w \<Rightarrow> bool) \<Rightarrow> 'w \<times> 'b \<Rightarrow> bool" where
  "on_fst J s \<longleftrightarrow> J (fst s)"

lemma bufferFeed_keeps:
  fixes J :: "'w \<Rightarrow> bool" and s :: "'w \<times> buffer"
  assumes "keeps_feed (on_fst J) f" "on_fst J s"
  shows "on_fst J (snd (bufferFeed f s))"
proof -
  obtain r w saved where r: "FeedSource f (Ref f) s = (r, (w, saved))" by (metis prod.exhaust)
  then have o: "keeps_open (on_fst J) (r, (w, saved))" using assms by (metis keeps_feed_def keeps_source_def)
  show ?thesis
  proof (cases r)
    case (Inl err)
    then show ?thesis using r o by (simp add: bufferFeed_def keeps_open_def)
  next
    case (Inr rc)
    have y: "keeps_yield (on_fst J) (buffer_body :: (item, 'w \<times> buffer) yield)"
      by (auto simp: keeps_yield_def buffer_body_def on_fst_def split: sum.split)
    obtain running w2 out ret where
      run: "FeedParse f (Ref f) (Rd rc) buffer_body (w, ([], None)) = (running, (w2, out, ret))"
      by (metis prod_cases4)
    have "keeps (on_fst J) (FeedParse f (Ref f) (Rd rc))" "on_fst J (w, ([], None))"
      using assms o by (simp_all add: keeps_feed_def keeps_open_def on_fst_def)
    then have "on_fst J (snd (FeedParse f (Ref f) (Rd rc) buffer_body (w, ([], None))))"
      using y unfolding keeps_def by blast
    then have "on_fst J (w2, out, ret)" by (simp only: run snd_conv)
    then show ?thesis
      using r Inr run o
      by (cases saved) (simp add: bufferFeed_def keeps_open_def keeps_stream_def on_fst_def)
  qed
qed

lemma resilientFeed_keeps [keeping]:
  fixes J :: "'w \<Rightarrow> bool" and f :: "('w \<times> buffer) Feed"
  assumes "keeps_feed (on_fst J) f" and "\<And>report x s. onFail = Some report \<Longrightarrow> on_fst J s \<Longrightarrow> on_fst J (report x s)"
  shows "keeps (on_fst J) (resilientFeed provider f onFail)"
  unfolding keeps_def
proof (intro allI impI)
  fix yield :: "(item, 'w \<times> buffer) yield" and s :: "'w \<times> buffer"
  assume y: "keeps_yield (on_fst J) yield" and s: "on_fst J s"
  obtain r s1 where r: "bufferFeed f s = (r, s1)" by (metis prod.exhaust)
  then have s1: "on_fst J s1" using bufferFeed_keeps [OF assms(1) s] by simp
  show "on_fst J (snd (resilientFeed provider f onFail yield s))"
  proof (cases r)
    case (Inl err)
    then show ?thesis using r s1 assms(2) by (simp add: resilientFeed_def split: option.split)
  next
    case (Inr entries)
    have "keeps (on_fst J) (seq_for entries (\<lambda>e. seq_yield (Inr e :: item)))" by (intro keeping)
    then have "on_fst J (snd (seq_for entries (\<lambda>e. seq_yield (Inr e :: item)) yield s1))"
      using y s1 unfolding keeps_def by blast
    then show ?thesis using r Inr by (simp add: resilientFeed_def)
  qed
qed

lemma CollectResilient_keeps [keeping]:
  "(\<And>p f. p \<in> set plugins \<Longrightarrow> f \<in> set (resolve p) \<Longrightarrow> keeps_feed (on_fst J) f) \<Longrightarrow>
   (\<And>report x s. onFail = Some report \<Longrightarrow> on_fst J s \<Longrightarrow> on_fst J (report x s)) \<Longrightarrow>
   keeps (on_fst J) (CollectResilient plugins resolve onFail)"
  unfolding CollectResilient_def by (intro keeping)

lemma ConcatEntries_keeps [keeping]: "(\<And>p. p \<in> set seqs \<Longrightarrow> keeps J p) \<Longrightarrow> keeps J (ConcatEntries seqs)"
  unfolding ConcatEntries_def by (intro keeping)

lemma yieldRange_keeps [keeping]: "keeps J (yieldRange X e lo hi row)"
  unfolding yieldRange_def Let_def by (intro keeping)

lemma enrich_loop_keeps [keeping]: "keeps J (enrich_loop X e rows hi i cur)"
proof (induction X e rows hi i cur rule: enrich_loop.induct)
  case (1 X e rows hi i cur)
  show ?case
    by (subst enrich_loop.simps) (auto simp: Let_def intro!: keeping "1.IH")
qed

lemma EnrichASN_keeps [keeping]: "keeps J entries \<Longrightarrow> keeps J (EnrichASN X entries t)"
  unfolding EnrichASN_def enrichEntry_def Let_def
  by (intro keeping) (auto split: sum.split option.split prod.split intro!: keeping)

section \<open>Plugins and resolvers\<close>

text \<open>The parsers do no IO.\<close>

lemma ParseRezmoss_keeps [keeping]: "keeps J (ParseRezmoss provider ref r)"
  by (simp add: rezmoss_feed.parse_items keeping)

lemma ParseRezmossAll_keeps [keeping]: "keeps J (ParseRezmossAll flt ref r)"
  by (simp add: rezmossAll_feed.parse_items keeping)

definition keeps_plugin :: "('s \<Rightarrow> bool) \<Rightarrow> 's Plugin \<Rightarrow> bool" where
  "keeps_plugin J p \<longleftrightarrow> (\<forall>ref r. keeps J (Parse p ref r))"

lemma shipped_keeps:
  "keeps_plugin J aws_plugin" "keeps_plugin J azure_plugin" "keeps_plugin J gcp_plugin"
  "keeps_plugin J feodo_plugin" "keeps_plugin J spamhaus_plugin" "keeps_plugin J tor_plugin"
  "keeps_plugin J (iptoasn_plugin P X srt)"
  by (simp_all add: keeps_plugin_def plugin_defs aws_feed.parse_items azure_feed.parse_items gcp_feed.parse_items
      feodo_feed.parse_items spamhaus_feed.parse_items tor_feed.parse_items iptoasn_Parse_items keeping)

lemma rezmossFeeds_keeps: "keeps_platform J P \<Longrightarrow> f \<in> set (rezmossFeeds P p src) \<Longrightarrow> keeps_feed J f"
  by (auto simp: rezmossFeeds_def keeps_feed_def keeping)

lemma resolvers_keep:
  assumes "keeps_platform J P" "keeps_plugin J p"
  shows "f \<in> set (RezmossResolver P p) \<Longrightarrow> keeps_feed J f"
    and "f \<in> set (DirectResolver P p) \<Longrightarrow> keeps_feed J f"
    and "f \<in> set (FixtureResolver P dir p) \<Longrightarrow> keeps_feed J f"
    and "f \<in> set (MirrorResolver P base p) \<Longrightarrow> keeps_feed J f"
  using assms rezmossFeeds_keeps [OF assms(1)]
  by (auto simp: RezmossResolver_def DirectResolver_def FixtureResolver_def MirrorResolver_def
      keeps_feed_def keeps_plugin_def keeping split: option.splits)

lemma WithDigest_keeps:
  assumes "\<And>f. f \<in> set (resolve p) \<Longrightarrow> keeps_feed J f" "keeps_record J rec"
  shows "f \<in> set (WithDigest P resolve pins rec p) \<Longrightarrow> keeps_feed J f"
  using assms by (auto simp: WithDigest_def keeps_feed_def keeping)

text \<open>Selection from the shipped registries gives shipped plugins.\<close>

lemma select_named_keeps:
  "select_named reg names out = Inr ps \<Longrightarrow> (\<And>n p. map_of reg n = Some p \<Longrightarrow> keeps_plugin J p) \<Longrightarrow>
     (\<And>p. p \<in> set out \<Longrightarrow> keeps_plugin J p) \<Longrightarrow> p \<in> set ps \<Longrightarrow> keeps_plugin J p"
proof (induction reg names out rule: select_named.induct)
  case (2 reg n ns out)
  obtain q where q: "map_of reg n = Some q" using "2.prems"(1) by (cases "map_of reg n") simp_all
  show ?case
    by (rule "2.IH" [OF q]) (use "2.prems" q in \<open>auto\<close>)
qed simp

lemma selectFrom_keeps:
  assumes "selectFrom reg names = Inr ps" "\<And>n p. (n, p) \<in> set reg \<Longrightarrow> keeps_plugin J p" "p \<in> set ps"
  shows "keeps_plugin J p"
proof (cases "names = []")
  case True
  have "foldl (\<lambda>out (_, p). out @ [p]) out reg = out @ map snd reg" for out
    by (induction reg arbitrary: out) auto
  then show ?thesis using assms True by (auto simp: selectFrom_def)
next
  case False
  then show ?thesis
    using select_named_keeps [of reg names "[]" ps J p] assms
    by (auto simp: selectFrom_def dest: map_of_SomeD)
qed

lemma selected_keep:
  assumes g: "g = registered P X srt"
  shows "SelectPlugins g names = Inr ps \<Longrightarrow> p \<in> set ps \<Longrightarrow> keeps_plugin J p"
    and "SelectReputationPlugins g names = Inr ps \<Longrightarrow> p \<in> set ps \<Longrightarrow> keeps_plugin J p"
    and "SelectASNPlugins g names = Inr ps \<Longrightarrow> p \<in> set ps \<Longrightarrow> keeps_plugin J p"
proof -
  note all = shipped_keeps [of J]
  show "SelectPlugins g names = Inr ps \<Longrightarrow> p \<in> set ps \<Longrightarrow> keeps_plugin J p"
    by (rule selectFrom_keeps [of "registry g" names ps J p])
      (auto simp: g SelectPlugins_def Plugins_def registered_eq all)
  show "SelectReputationPlugins g names = Inr ps \<Longrightarrow> p \<in> set ps \<Longrightarrow> keeps_plugin J p"
    by (rule selectFrom_keeps [of "reputationRegistry g" names ps J p])
      (auto simp: g SelectReputationPlugins_def ReputationPlugins_def registered_eq all)
  show "SelectASNPlugins g names = Inr ps \<Longrightarrow> p \<in> set ps \<Longrightarrow> keeps_plugin J p"
    by (rule selectFrom_keeps [of "asnRegistry g" names ps J p])
      (auto simp: g SelectASNPlugins_def ASNPlugins_def registered_eq all)
qed

end
