(* ===== verification/Build_Cmd.thy ===== *)
theory Build_Cmd
  imports Query Effects
begin

text \<open>
  \<open>cmd/cloudattr/build.go\<close>: the command \<open>build\<close> on its parsed flags, from the rejection of flags
  that conflict to the published database and the optional CSV file.
\<close>

section \<open>Effects of a command inside a build\<close>

text \<open>
  While a build consumes the stream of entries, its state is the tree, the world of the command
  and the cell of the resilient collector. What the platform does to the world is lifted to it.
\<close>

type_synonym ('t, 'w) build_env = "('t build_state \<times> 'w) \<times> buffer"

definition on_world :: "('w \<Rightarrow> 'w) \<Rightarrow> ('a \<times> 'w) \<times> 'b \<Rightarrow> ('a \<times> 'w) \<times> 'b" where
  "on_world f = (\<lambda>((t, w), b). ((t, f w), b))"

definition lift_call :: "('r \<Rightarrow> 'q) \<Rightarrow> ('w \<Rightarrow> 'r \<times> 'w) \<Rightarrow> ('a \<times> 'w) \<times> 'b \<Rightarrow> 'q \<times> (('a \<times> 'w) \<times> 'b)" where
  "lift_call g f = (\<lambda>((t, w), b). case f w of (r, w) \<Rightarrow> (g r, ((t, w), b)))"

definition lift_stream :: "'w stream \<Rightarrow> (('a \<times> 'w) \<times> 'b) stream" where
  "lift_stream rc = \<lparr>Rd = Rd rc, Close = on_world (Close rc)\<rparr>"

definition lift_response :: "'w response \<Rightarrow> (('a \<times> 'w) \<times> 'b) response" where
  "lift_response r = \<lparr>StatusCode = StatusCode r, Status = Status r, Body = lift_stream (Body r)\<rparr>"

definition lift_platform :: "'w platform \<Rightarrow> (('a \<times> 'w) \<times> 'b) platform" where
  "lift_platform P = \<lparr>NewRequest = NewRequest P,
     Do = (\<lambda>url. lift_call (map_sum id lift_response) (Do P url)), Wait = (\<lambda>d. lift_call id (Wait P d)),
     Getenv = Getenv P, OsOpen = (\<lambda>p. lift_call (map_sum id lift_stream) (OsOpen P p)),
     OpenInRoot = (\<lambda>d p. lift_call (map_sum id lift_stream) (OpenInRoot P d p)),
     Sha256 = Sha256 P, Gunzip = Gunzip P\<rparr>"

section \<open>Flags\<close>

text \<open>The parsed flags, and which of the three source flags were given (\<open>fs.Visit\<close>).\<close>

record build_flags =
  fSource :: string
  fFixtures :: string
  fProviders :: string
  fOut :: string
  fCsv :: string
  fRecordSize :: int
  fMaxDrop :: float64
  fMaxSkip :: float64
  fReputation :: bool
  fWithReputation :: bool
  fRepSource :: string
  fAsn :: bool
  fWithASN :: bool
  fAsnSource :: string
  fKeepGoing :: bool
  fPins :: string
  fPrintDigests :: bool
  sourceSet :: bool
  repSourceSet :: bool
  asnSourceSet :: bool

definition default_flags :: build_flags where
  "default_flags = \<lparr>fSource = ''rezmoss'', fFixtures = [], fProviders = [], fOut = [], fCsv = [],
     fRecordSize = 28, fMaxDrop = 1 / 2, fMaxSkip = 1 / 4, fReputation = False, fWithReputation = False,
     fRepSource = ''direct'', fAsn = False, fWithASN = False, fAsnSource = ''direct'', fKeepGoing = True,
     fPins = [], fPrintDigests = False, sourceSet = False, repSourceSet = False, asnSourceSet = False\<rparr>"

definition flag_conflict :: "build_flags \<Rightarrow> error option" where
  "flag_conflict fl =
     (if fReputation fl \<and> fWithReputation fl then
        Some (Errorf ''--reputation and --with-reputation are mutually exclusive: --reputation builds a reputation-only database, --with-reputation adds the reputation feeds to a cloud build'' [])
      else if repSourceSet fl \<and> \<not> fWithReputation fl then
        Some (Errorf ''--reputation-source only applies with --with-reputation (for --reputation builds, use --source)'' [])
      else if fAsn fl \<and> (fReputation fl \<or> fWithReputation fl \<or> fWithASN fl) then
        Some (Errorf ''--asn builds a standalone IP->ASN database and cannot combine with --reputation/--with-reputation/--with-asn'' [])
      else if fAsn fl \<and> sourceSet fl then
        Some (Errorf ''--source does not apply to --asn builds (the table has no rezmoss mirror; use --asn-source or --fixtures)'' [])
      else if asnSourceSet fl \<and> \<not> fAsn fl \<and> \<not> fWithASN fl then
        Some (Errorf ''--asn-source only applies with --asn or --with-asn'' [])
      else None)"

definition output_path :: "build_flags \<Rightarrow> string" where
  "output_path fl =
     (if fOut fl = [] then
        (if fReputation fl then ''reputation.mmdb'' else if fAsn fl then ''asn.mmdb'' else ''cloud.mmdb'')
      else fOut fl)"

definition splitCSV :: "string \<Rightarrow> string list" where
  "splitCSV s =
     (if TrimSpace s = [] then []
      else inplace_loop (\<lambda>out p. let p = TrimSpace p in if p \<noteq> [] then out @ [p] else out)
        (split_char (CHR '','') s) 0 0)"

definition describeSource :: "string \<Rightarrow> string \<Rightarrow> string" where
  "describeSource source fixtures = (if fixtures \<noteq> [] then ''fixtures:'' @ fixtures else source)"

section \<open>Digests\<close>

definition os_ReadFile :: "'w platform \<Rightarrow> string \<Rightarrow> 'w \<Rightarrow> (error + string) \<times> 'w" where
  "os_ReadFile P path w = (case OsOpen P path w of
     (Inl err, w) \<Rightarrow> (Inl err, w)
   | (Inr f, w) \<Rightarrow> ((case fault (Rd f) of Some err \<Rightarrow> Inl err | None \<Rightarrow> Inr (content (Rd f))), Close f w))"

text \<open>
  A JSON object as a map of strings: a later member replaces an earlier one, \<open>null\<close> stands for
  the empty string, and a value of another kind is an error. The document \<open>null\<close> leaves the
  map nil.
\<close>

fun string_members :: "(string \<times> json) list \<Rightarrow> (string \<rightharpoonup> string) \<Rightarrow> error + (string \<rightharpoonup> string)" where
  "string_members [] m = Inr m"
| "string_members ((k, v) # kvs) m = (case v of
     JStr s \<Rightarrow> string_members kvs (m(k \<mapsto> s))
   | JNull \<Rightarrow> string_members kvs (m(k \<mapsto> []))
   | _ \<Rightarrow> Inl (TypeError ''string''))"

definition decode_string_map :: "json \<Rightarrow> error + (string \<rightharpoonup> string) option" where
  "decode_string_map v = (case v of
     JObj kvs \<Rightarrow> map_sum id Some (string_members kvs Map.empty)
   | JNull \<Rightarrow> Inr None
   | _ \<Rightarrow> Inl (TypeError ''map[string]string''))"

type_synonym 'w digest_opts = "(string \<rightharpoonup> string) option \<times> (string \<Rightarrow> string \<Rightarrow> 'w \<Rightarrow> 'w) option"

definition print_digest :: "string \<Rightarrow> string \<Rightarrow> 'x cli_scheme \<Rightarrow> 'x cli_scheme" where
  "print_digest ref sha = say (Message (Errorf ''digest %s  %s'' [S sha, S ref]))"

definition digestOptions :: "('x cli_scheme) platform \<Rightarrow> string \<Rightarrow> bool \<Rightarrow> 'x cli_scheme \<Rightarrow>
    (error + ('x cli_scheme) digest_opts) \<times> 'x cli_scheme" where
  "digestOptions P pinsPath printDigests w =
     (case (if pinsPath \<noteq> [] then
              (case os_ReadFile P pinsPath w of
                 (Inl err, w) \<Rightarrow> (Inl (Errorf ''read pins: %w'' [E err]), w)
               | (Inr b, w) \<Rightarrow> ((case json_Unmarshal b of
                     Inl err \<Rightarrow> Inl (Errorf ''parse pins %q: %w'' [S pinsPath, E err])
                   | Inr v \<Rightarrow> (case decode_string_map v of
                       Inl err \<Rightarrow> Inl (Errorf ''parse pins %q: %w'' [S pinsPath, E err])
                     | Inr m \<Rightarrow> Inr m)), w))
            else (Inr None, w)) of
        (Inl err, w) \<Rightarrow> (Inl err, w)
      | (Inr pinMap, w) \<Rightarrow> (Inr (pinMap, if printDigests then Some print_digest else None), w))"

text \<open>A nil map has no pins; the wrappers apply when pins or the printing were asked for.\<close>

definition pins_of :: "'w digest_opts \<Rightarrow> (string \<rightharpoonup> string)" where
  "pins_of d = (case fst d of Some m \<Rightarrow> m | None \<Rightarrow> Map.empty)"

definition digest_wanted :: "'w digest_opts \<Rightarrow> bool" where
  "digest_wanted d \<longleftrightarrow> fst d \<noteq> None \<or> snd d \<noteq> None"

definition lift_digest :: "'w digest_opts \<Rightarrow> (('a \<times> 'w) \<times> 'b) digest_opts" where
  "lift_digest d = (fst d, map_option (\<lambda>r ref sha. on_world (r ref sha)) (snd d))"

definition wrapResolve :: "'s platform \<Rightarrow> 's digest_opts \<Rightarrow> 's PluginSource \<Rightarrow> 's PluginSource" where
  "wrapResolve P d r = (if \<not> digest_wanted d then r else WithDigest P r (pins_of d) (snd d))"

definition wrapSource :: "'s platform \<Rightarrow> 's digest_opts \<Rightarrow> 's source \<Rightarrow> 's source" where
  "wrapSource P d s = (if \<not> digest_wanted d then s
     else digest_Open P \<lparr>Inner = s, Pins = pins_of d, DigestRecord = snd d\<rparr>)"

section \<open>Resolvers\<close>

definition feedResolver :: "'s platform \<Rightarrow> string \<Rightarrow> string \<Rightarrow> string \<Rightarrow> string \<Rightarrow> string \<Rightarrow>
    error + 's PluginSource \<times> string" where
  "feedResolver P kind source fixtures baseEnv base =
     (if fixtures \<noteq> [] then Inr (FixtureResolver P fixtures, ''fixtures:'' @ fixtures)
      else if source = ''direct'' then Inr (DirectResolver P, ''direct'')
      else if source = ''mirror'' then
        (if base = [] then
           Inl (Errorf ''%s source mirror requires %s to be set (the internal HTTP base to fetch %s feeds from)''
             [S kind, S baseEnv, S kind])
         else Inr (MirrorResolver P base, ''mirror:'' @ base))
      else if source = ''rezmoss'' \<or> source = ''rezmoss-all'' then
        Inl (Errorf ''source %s is cloud-only; %s feeds have no rezmoss mirror (use direct, mirror, or --fixtures)''
          [S source, S kind])
      else Inl (Errorf ''unknown %s source %q (want direct, mirror, or --fixtures)'' [S kind, S source]))"

definition reputationResolver :: "'s platform \<Rightarrow> string \<Rightarrow> string \<Rightarrow> error + 's PluginSource \<times> string" where
  "reputationResolver P source fixtures =
     feedResolver P ''reputation'' source fixtures ReputationBaseEnv (ReputationBase P)"

definition asnResolver :: "'s platform \<Rightarrow> string \<Rightarrow> string \<Rightarrow> error + 's PluginSource \<times> string" where
  "asnResolver P source fixtures = feedResolver P ''asn'' source fixtures ASNBaseEnv (ASNBase P)"

text \<open>Where the table for the enrichment comes from: the source, the ref and the label to print.\<close>

definition table_source :: "'s platform \<Rightarrow> string list \<Rightarrow> string \<Rightarrow> string \<Rightarrow> string \<Rightarrow> error + 's source \<times> string \<times> string" where
  "table_source P refs directURL source fixtures =
     (let relRef = hd refs in
      if fixtures \<noteq> [] then Inr (file_Open P \<lparr>Dir = fixtures\<rparr>, relRef, ''fixtures:'' @ fixtures)
      else if source = ''direct'' then Inr (http_Open P NewDirectSource, directURL, ''direct'')
      else if source = ''mirror'' then
        (let base = ASNBase P in
         if base = [] then
           Inl (Errorf ''asn source mirror requires %s to be set (the internal HTTP base to fetch the ASN table from)''
             [S ASNBaseEnv])
         else Inr (http_Open P \<lparr>BaseURL = base, Attempts = 0, Backoff = 0\<rparr>, relRef, ''mirror:'' @ base))
      else Inl (Errorf ''unknown asn source %q (want direct, mirror, or --fixtures)'' [S source]))"

definition DirectURL :: string where
  "DirectURL = ''https://iptoasn.com/data/ip2asn-combined.tsv.gz''"

definition loadASNTable :: "'s platform \<Rightarrow> netipx \<Rightarrow> row_sort \<Rightarrow> string \<Rightarrow> string \<Rightarrow> ('s source \<Rightarrow> 's source) \<Rightarrow> 's \<Rightarrow>
    (error + ASNTable \<times> string) \<times> 's" where
  "loadASNTable P X srt source fixtures wrap w =
     (case table_source P (Refs (iptoasn_plugin P X srt)) DirectURL source fixtures of
        Inl err \<Rightarrow> (Inl err, w)
      | Inr (src, ref, shown) \<Rightarrow>
          (case wrap src ref w of
             (Inl err, w) \<Rightarrow> (Inl (Errorf ''fetch ASN table %s: %w'' [S ref, E err]), w)
           | (Inr rc, w) \<Rightarrow>
               ((case ParseTable P (Rd rc) of
                   Inl err \<Rightarrow> Inl (Errorf ''parse ASN table %s: %w'' [S ref, E err])
                 | Inr rows \<Rightarrow>
                     (let table = NewASNTable srt rows in
                      if Len table = 0 then Inl (Errorf ''ASN table %s contains no routed ranges'' [S ref])
                      else Inr (table, shown))),
                Close rc w)))"

definition verifyCount :: "('h, 'w) maxminddb \<Rightarrow> string \<Rightarrow> 'w \<Rightarrow> (error + VerifyReport) \<times> 'w" where
  "verifyCount M path w = (case Open M path w of
     (Inl err, w) \<Rightarrow> (Inl err, w)
   | (Inr db, w) \<Rightarrow>
       ((case Verify M db of (rep, Some err) \<Rightarrow> Inl err | (rep, None) \<Rightarrow> Inr rep), snd (CloseDB M db w)))"

section \<open>The stream of entries\<close>

text \<open>The packages and the machine a command runs on.\<close>

record ('t, 'h, 'w) machine =
  mWriter :: "('t, string) mmdbwriter"
  mReader :: "('h, 'w) maxminddb"
  mPlatform :: "'w platform"
  mPick :: picker
  mNetipx :: netipx
  mSort :: row_sort
  mNow :: gotime

text \<open>A failing feed is noted and named on standard error.\<close>

definition FeedFailure_String :: "FeedFailure \<Rightarrow> error" where
  "FeedFailure_String f = Errorf ''%s (%s): %v'' [S (FailedProvider f), S (FailedRef f), E (Err f)]"

definition note_failure :: "FeedFailure \<Rightarrow> 'x cli_scheme \<Rightarrow> 'x cli_scheme" where
  "note_failure f w = say (Message (Errorf ''warning: skipping feed %s'' [E (FeedFailure_String f)]))
     (w\<lparr>failures := failures w @ [f]\<rparr>)"

definition collect :: "bool \<Rightarrow> (('a \<times> 'x cli_scheme) \<times> buffer) Plugin list \<Rightarrow>
    (('a \<times> 'x cli_scheme) \<times> buffer) PluginSource \<Rightarrow> (item, ('a \<times> 'x cli_scheme) \<times> buffer) seq" where
  "collect keepGoing plugins resolve =
     (if \<not> keepGoing then Collect plugins resolve
      else CollectResilient plugins resolve (Some (\<lambda>f. on_world (note_failure f))))"

type_synonym ('a, 'x) entries_result =
  "(error + (item, ('a \<times> 'x cli_scheme) \<times> buffer) seq) \<times> 'x cli_scheme"

text \<open>The line that announces a build: what is built, of what kind, from which plugins and where.\<close>

definition announce :: "string \<Rightarrow> string list \<Rightarrow> string list \<Rightarrow> string \<Rightarrow> out" where
  "announce fmt path names shownSrc = Message (Errorf fmt (map S (path @ [strings_Join names '','', shownSrc])))"

text \<open>A build from the plugins of one of the two registries that have no mirror.\<close>

definition registry_entries :: "(('a \<times> 'x cli_scheme) \<times> buffer) platform \<Rightarrow> (('a \<times> 'x cli_scheme) \<times> buffer) digest_opts \<Rightarrow>
    bool \<Rightarrow> string \<Rightarrow> error \<Rightarrow> string \<Rightarrow> (error + (('a \<times> 'x cli_scheme) \<times> buffer) Plugin list) \<Rightarrow>
    (error + (('a \<times> 'x cli_scheme) \<times> buffer) PluginSource \<times> string) \<Rightarrow> 'x cli_scheme \<Rightarrow> ('a, 'x) entries_result" where
  "registry_entries P d keepGoing path none fmt selected resolver w = (case selected of
     Inl err \<Rightarrow> (Inl err, w)
   | Inr plugins \<Rightarrow>
       if length plugins = 0 then (Inl none, w)
       else (case resolver of
           Inl err \<Rightarrow> (Inl err, w)
         | Inr (resolve, shownSrc) \<Rightarrow>
             (Inr (collect keepGoing plugins (wrapResolve P d resolve)),
              say (announce fmt [path] (map Name plugins) shownSrc) w)))"

definition asn_entries where
  "asn_entries P g d fl path w = registry_entries P d (fKeepGoing fl) path (Errorf ''no ASN plugins registered'' [])
     ''building %s (asn) from [%s] via %s'' (SelectASNPlugins g (splitCSV (fProviders fl)))
     (asnResolver P (fAsnSource fl) (fFixtures fl)) w"

definition reputation_entries where
  "reputation_entries P g d fl path w =
     (let repSource = (if sourceSet fl then fSource fl else ''direct'') in
      registry_entries P d (fKeepGoing fl) path (Errorf ''no reputation plugins registered'' [])
        ''building %s (reputation) from [%s] via %s'' (SelectReputationPlugins g (splitCSV (fProviders fl)))
        (reputationResolver P repSource (fFixtures fl)) w)"

definition rezmoss_all_entries where
  "rezmoss_all_entries P d fl path w =
     (let flt = splitCSV (fProviders fl);
          src = wrapSource P d (http_Open P (NewRezmossSource P));
          src = (if fFixtures fl \<noteq> [] then wrapSource P d (file_Open P \<lparr>Dir = fFixtures fl\<rparr>) else src);
          shown = (if length flt > 0 then flt else [''all''])
      in (Inr (CollectRezmossAll src flt),
          say (announce ''building %s from providers [%s] via %s'' [path] shown
            (describeSource (fSource fl) (fFixtures fl))) w))"

definition cloud_resolver :: "'s platform \<Rightarrow> build_flags \<Rightarrow> error + 's PluginSource" where
  "cloud_resolver P fl =
     (if fFixtures fl \<noteq> [] then Inr (FixtureResolver P (fFixtures fl))
      else if fSource fl = ''rezmoss'' then Inr (RezmossResolver P)
      else if fSource fl = ''direct'' then Inr (DirectResolver P)
      else Inl (Errorf ''unknown --source %q (want rezmoss, rezmoss-all, or direct)'' [S (fSource fl)]))"

definition cloud_entries where
  "cloud_entries P g d fl path w =
     registry_entries P d (fKeepGoing fl) path (Errorf ''no provider plugins registered'' [])
       ''building %s from providers [%s] via %s'' (SelectPlugins g (splitCSV (fProviders fl)))
       (map_sum id (\<lambda>r. (r, describeSource (fSource fl) (fFixtures fl))) (cloud_resolver P fl)) w"

definition main_entries where
  "main_entries P g d fl path w =
     (if fAsn fl then asn_entries P g d fl path w
      else if fReputation fl then reputation_entries P g d fl path w
      else if fSource fl = ''rezmoss-all'' then rezmoss_all_entries P d fl path w
      else cloud_entries P g d fl path w)"

text \<open>The reputation feeds come after the cloud ones.\<close>

definition add_reputation where
  "add_reputation P g d fl entries w =
     (if fWithReputation fl then
        (case SelectReputationPlugins g [] of
           Inl err \<Rightarrow> (Inl err, w)
         | Inr repPlugins \<Rightarrow>
             if length repPlugins = 0 then (Inl (Errorf ''no reputation plugins registered'' []), w)
             else (case reputationResolver P (fRepSource fl) (fFixtures fl) of
                 Inl err \<Rightarrow> (Inl err, w)
               | Inr (resolve, shownSrc) \<Rightarrow>
                   (Inr (ConcatEntries [entries, collect (fKeepGoing fl) repPlugins (wrapResolve P d resolve)]),
                    say (announce ''adding reputation feeds [%s] via %s'' [] (map Name repPlugins) shownSrc) w)))
      else (Inr entries, w))"

text \<open>The table is loaded before the build starts, outside the stream.\<close>

definition add_asn :: "('x cli_scheme) platform \<Rightarrow> netipx \<Rightarrow> row_sort \<Rightarrow> ('x cli_scheme) digest_opts \<Rightarrow> build_flags \<Rightarrow>
    (item, ('a \<times> 'x cli_scheme) \<times> buffer) seq \<Rightarrow> 'x cli_scheme \<Rightarrow> ('a, 'x) entries_result" where
  "add_asn P X srt d fl entries w =
     (if fWithASN fl then
        (case loadASNTable P X srt (fAsnSource fl) (fFixtures fl) (wrapSource P d) w of
           (Inl err, w) \<Rightarrow> (Inl err, w)
         | (Inr (table, shownSrc), w) \<Rightarrow>
             (Inr (EnrichASN X entries table),
              say (Message (Errorf ''enriching with origin ASNs (%d announcements) via %s''
                [I (int (Len table)), S shownSrc])) w))
      else (Inr entries, w))"

section \<open>The command\<close>

definition all_entries :: "('t, 'h, 'x cli_scheme) machine \<Rightarrow> ('t, 'x cli_scheme) build_env registries \<Rightarrow>
    ('x cli_scheme) digest_opts \<Rightarrow> build_flags \<Rightarrow> string \<Rightarrow> 'x cli_scheme \<Rightarrow> ('t build_state, 'x) entries_result" where
  "all_entries mc g d fl path w =
     (let P = lift_platform (mPlatform mc) in
      case main_entries P g (lift_digest d) fl path w of
        (Inl err, w) \<Rightarrow> (Inl err, w)
      | (Inr entries, w) \<Rightarrow>
          (case add_reputation P g (lift_digest d) fl entries w of
             (Inl err, w) \<Rightarrow> (Inl err, w)
           | (Inr entries, w) \<Rightarrow> add_asn (mPlatform mc) (mNetipx mc) (mSort mc) d fl entries w))"

text \<open>What is reported after a successful build; the feeds that were skipped are named once more.\<close>

definition report_build :: "SyncResult \<Rightarrow> 'x cli_scheme \<Rightarrow> 'x cli_scheme" where
  "report_build res w =
     (let w = say (Message (Errorf ''wrote %s: %d inserted, %d skipped, %d networks (%d v4 / %d v6)''
            [S (Path res), I (int (Count res)), I (int (SkippedCount res)), I (int (NetworkCount (Report res))),
             I (int (IPv4Count (Report res))), I (int (IPv6Count (Report res)))])) w;
          w = say (Counts (ByProvider (Report res))) w
      in if length (failures w) > 0 then
           fold (\<lambda>f. say (Message (Errorf ''  - %s'' [E (FeedFailure_String f)]))) (failures w)
             (say (Message (Errorf ''DEGRADED: %d feed(s) skipped:'' [I (int (length (failures w)))])) w)
         else w)"

text \<open>Everything after the flags were found not to conflict.\<close>

definition build_and_publish :: "('t, 'h, 'x cli_scheme) machine \<Rightarrow> (item, ('t, 'x cli_scheme) build_env) seq \<Rightarrow>
    build_flags \<Rightarrow> VerifyReport option \<Rightarrow> 'x cli_scheme \<Rightarrow> error option \<times> 'x cli_scheme" where
  "build_and_publish mc entries fl prev w =
     (let opts = \<lparr>RecordSize = fRecordSize fl, Description = None, BuildEpoch = time_Unix (mNow mc)\<rparr> in
      case BuildFile (mWriter mc) (mReader mc) (mPick mc) entries (output_path fl) opts prev (fMaxDrop fl) (fMaxSkip fl)
          (w, ([], None)) of
        (Inl err, w, _) \<Rightarrow> (Some err, w)
      | (Inr res, w, _) \<Rightarrow>
          (let w = report_build res w in
           if fCsv fl \<noteq> [] then
             (case exportCSVFile (mReader mc) (mPick mc) (output_path fl) (fCsv fl) w of
                (Some err, w) \<Rightarrow> (Some (Errorf ''csv export: %w'' [E err]), w)
              | (None, w) \<Rightarrow> (None, say (Message (Errorf ''wrote %s'' [S (fCsv fl)])) w))
           else (None, w)))"

definition runBuild :: "('t, 'h, 'x cli_scheme) machine \<Rightarrow> ('t, 'x cli_scheme) build_env registries \<Rightarrow> build_flags \<Rightarrow>
    'x cli_scheme \<Rightarrow> error option \<times> 'x cli_scheme" where
  "runBuild mc g fl w = (case flag_conflict fl of
     Some err \<Rightarrow> (Some err, w)
   | None \<Rightarrow>
       (case digestOptions (mPlatform mc) (fPins fl) (fPrintDigests fl) w of
          (Inl err, w) \<Rightarrow> (Some err, w)
        | (Inr d, w) \<Rightarrow>
            (case verifyCount (mReader mc) (output_path fl) w of
               (r, w) \<Rightarrow>
                 (let prev = (case r of Inl _ \<Rightarrow> None | Inr rep \<Rightarrow> Some rep);
                      w = w\<lparr>failures := []\<rparr> in
                  case all_entries mc g d fl (output_path fl) w of
                    (Inl err, w) \<Rightarrow> (Some err, w)
                  | (Inr entries, w) \<Rightarrow> build_and_publish mc entries fl prev w))))"

section \<open>The files during a build\<close>

text \<open>The platform of a build changes no file: it fetches feeds, waits, and opens files to read.\<close>

definition reads_only :: "('x cli_scheme) platform \<Rightarrow> bool" where
  "reads_only P \<longleftrightarrow> (\<forall>m. keeps_platform (\<lambda>w. files w = m) P)"

definition files_are :: "(string \<rightharpoonup> string) \<Rightarrow> 'a \<times> 'x os_scheme \<Rightarrow> bool" where
  "files_are m s \<longleftrightarrow> files (snd s) = m"

abbreviation build_files :: "(string \<rightharpoonup> string) \<Rightarrow> ('a \<times> 'x os_scheme) \<times> 'b \<Rightarrow> bool" where
  "build_files m \<equiv> on_fst (files_are m)"

lemma build_files_iff [simp]: "build_files m ((t, w), b) \<longleftrightarrow> files w = m"
  by (simp add: on_fst_def files_are_def)

lemma lift_stream_keeps:
  "keeps_stream (\<lambda>w. files w = m) rc \<Longrightarrow> keeps_stream (build_files m) (lift_stream rc)"
  by (auto simp: keeps_stream_def lift_stream_def on_world_def on_fst_def files_are_def split: prod.split)

lemma lift_open_keeps:
  assumes "\<And>w. files w = m \<Longrightarrow> keeps_open (\<lambda>w. files w = m) (f w)" "build_files m s"
  shows "keeps_open (build_files m) (lift_call (map_sum id lift_stream) f s)"
proof -
  obtain t w b where s: "s = ((t, w), b)" by (metis prod.exhaust)
  have "keeps_open (\<lambda>w. files w = m) (f w)" using assms s by simp
  then show ?thesis
    by (cases "f w") (auto simp: s lift_call_def keeps_open_def lift_stream_keeps split: sum.splits)
qed

lemma lift_platform_keeps:
  assumes "keeps_platform (\<lambda>w. files w = m) P"
  shows "keeps_platform (build_files m) (lift_platform P)"
proof -
  note keep = keeps_platformD [OF assms]
  have "build_files m (snd (Do (lift_platform P) url s)) \<and>
      (case fst (Do (lift_platform P) url s) of Inl _ \<Rightarrow> True | Inr resp \<Rightarrow> keeps_stream (build_files m) (Body resp))"
    if "build_files m s" for url s
  proof -
    obtain t w b where s: "s = ((t, w), b)" by (metis prod.exhaust)
    obtain r w' where d: "Do P url w = (r, w')" by fastforce
    then show ?thesis
      using that keep(1) [OF _ d] keep(2) [of w url]
      by (cases r) (auto simp: s lift_platform_def lift_call_def lift_response_def lift_stream_keeps)
  qed
  moreover have "build_files m (snd (Wait (lift_platform P) d s))" if "build_files m s" for d s
  proof -
    obtain t w b where s: "s = ((t, w), b)" by (metis prod.exhaust)
    obtain r w' where d: "Wait P d w = (r, w')" by fastforce
    then show ?thesis using that keep(3) [OF _ d] by (simp add: s lift_platform_def lift_call_def)
  qed
  moreover have "keeps_open (build_files m) (OsOpen (lift_platform P) path s)"
      "keeps_open (build_files m) (OpenInRoot (lift_platform P) dir path s)" if "build_files m s" for dir path s
    using that keep(4,5) by (auto simp: lift_platform_def intro!: lift_open_keeps)
  ultimately show ?thesis unfolding keeps_platform_def by blast
qed

lemma os_ReadFile_keeps: "keeps_platform J P \<Longrightarrow> J w \<Longrightarrow> os_ReadFile P path w = (r, w') \<Longrightarrow> J w'"
  using keeps_platformD(4) [of J P w path]
  by (auto simp: os_ReadFile_def keeps_open_def keeps_stream_def split: prod.splits sum.splits)

lemma digestOptions_keeps:
  assumes "keeps_platform (\<lambda>w. files w = m) P" "files w = m" "digestOptions P path printing w = (r, w')"
  shows "files w' = m \<and> (\<forall>d. r = Inr d \<longrightarrow> keeps_record (\<lambda>w. files w = m') (snd d) \<and>
    keeps_record (build_files m') (snd (lift_digest d)))"
proof -
  have "files w1 = m" if "os_ReadFile P path w = (q, w1)" for q w1
    by (rule os_ReadFile_keeps [OF assms(1,2) that])
  then show ?thesis
    using assms(2,3)
    by (auto simp: digestOptions_def keeps_record_def lift_digest_def print_digest_def say_def on_world_def
        split: prod.splits sum.splits if_splits)
qed

lemma wrapSource_keeps [keeping]:
  "keeps_source J s \<Longrightarrow> keeps_record J (snd d) \<Longrightarrow> keeps_source J (wrapSource P d s)"
  by (auto simp: wrapSource_def keeping)

lemma wrapResolve_keeps:
  "(\<And>f. f \<in> set (resolve p) \<Longrightarrow> keeps_feed J f) \<Longrightarrow> keeps_record J (snd d) \<Longrightarrow> f \<in> set (wrapResolve P d resolve p) \<Longrightarrow> keeps_feed J f"
  using WithDigest_keeps [of resolve p J "snd d" f] by (auto simp: wrapResolve_def split: if_splits)

lemma collect_keeps:
  assumes "\<And>p f. p \<in> set plugins \<Longrightarrow> f \<in> set (resolve p) \<Longrightarrow> keeps_feed (build_files m) f"
  shows "keeps (build_files m) (collect keepGoing plugins resolve)"
  unfolding collect_def
  by (auto intro!: keeping assms simp: on_world_def note_failure_def say_def split: prod.split)

text \<open>Every way the entries are put together gives a stream that leaves the files.\<close>

lemma registry_entries_keeps:
  assumes "registry_entries P d kg path none fmt selected resolver w = (r, w')" "keeps_record (build_files m) (snd d)"
    and "\<And>ps p. selected = Inr ps \<Longrightarrow> p \<in> set ps \<Longrightarrow> keeps_plugin (build_files m) p"
    and "\<And>resolve shown p f. resolver = Inr (resolve, shown) \<Longrightarrow> keeps_plugin (build_files m) p \<Longrightarrow>
      f \<in> set (resolve p) \<Longrightarrow> keeps_feed (build_files m) f"
  shows "files w' = files w \<and> (\<forall>entries. r = Inr entries \<longrightarrow> keeps (build_files m) entries)"
proof (cases "\<exists>ps resolve shown. selected = Inr ps \<and> ps \<noteq> [] \<and> resolver = Inr (resolve, shown)")
  case True
  then obtain ps resolve shown where s: "selected = Inr ps" "ps \<noteq> []" "resolver = Inr (resolve, shown)" by blast
  have feeds: "keeps_feed (build_files m) f" if "p \<in> set ps" "f \<in> set (wrapResolve P d resolve p)" for p f
    by (rule wrapResolve_keeps [OF assms(4) [OF s(3) assms(3) [OF s(1) that(1)]] assms(2) that(2)])
  have "keeps (build_files m) (collect kg ps (wrapResolve P d resolve))"
    by (rule collect_keeps) (rule feeds)
  then show ?thesis using assms(1) s by (auto simp: registry_entries_def say_def)
next
  case False
  then show ?thesis
    using assms(1) by (auto simp: registry_entries_def split: sum.splits if_splits)
qed

lemma feedResolver_keeps:
  "feedResolver P kind source fixtures baseEnv base = Inr (resolve, shown) \<Longrightarrow> keeps_platform J P \<Longrightarrow>
     keeps_plugin J p \<Longrightarrow> f \<in> set (resolve p) \<Longrightarrow> keeps_feed J f"
  using resolvers_keep [of J P p f] by (auto simp: feedResolver_def split: if_splits)

lemma cloud_resolver_keeps:
  "cloud_resolver P fl = Inr resolve \<Longrightarrow> keeps_platform J P \<Longrightarrow>
     keeps_plugin J p \<Longrightarrow> f \<in> set (resolve p) \<Longrightarrow> keeps_feed J f"
  using resolvers_keep [of J P p f] by (auto simp: cloud_resolver_def split: if_splits)

lemma rezmoss_all_keeps:
  assumes "rezmoss_all_entries P d fl path w = (r, w')" "keeps_platform (build_files m) P"
    "keeps_record (build_files m) (snd d)"
  shows "files w' = files w \<and> (\<forall>entries. r = Inr entries \<longrightarrow> keeps (build_files m) entries)"
proof -
  have "keeps (build_files m) (CollectRezmossAll src flt)" if "keeps_source (build_files m) src" for src flt
    using that unfolding CollectRezmossAll_def Let_def
    by (intro keeping) (simp add: keeps_feed_def keeping)
  moreover have "keeps_source (build_files m) (wrapSource P d (http_Open P h))"
      "keeps_source (build_files m) (wrapSource P d (file_Open P f))" for h f
    by (rule wrapSource_keeps [OF http_Open_keeps [OF assms(2)] assms(3)],
        rule wrapSource_keeps [OF file_Open_keeps [OF assms(2)] assms(3)])
  ultimately show ?thesis using assms(1) by (auto simp: rezmoss_all_entries_def Let_def say_def split: if_splits)
qed

lemma main_entries_keeps:
  assumes "main_entries P (registered P X srt) d fl path w = (r, w')" "keeps_platform (build_files m) P"
    "keeps_record (build_files m) (snd d)"
  shows "files w' = files w \<and> (\<forall>entries. r = Inr entries \<longrightarrow> keeps (build_files m) entries)"
proof -
  note sel = selected_keep [OF refl, where P = P and X = X and srt = srt and J = "build_files m"]
  consider (asn) "fAsn fl" | (rep) "\<not> fAsn fl" "fReputation fl"
    | (all) "\<not> fAsn fl" "\<not> fReputation fl" "fSource fl = ''rezmoss-all''"
    | (cloud) "\<not> fAsn fl" "\<not> fReputation fl" "fSource fl \<noteq> ''rezmoss-all''" by blast
  then show ?thesis
  proof cases
    case asn
    then have "asn_entries P (registered P X srt) d fl path w = (r, w')" using assms(1) by (simp add: main_entries_def)
    from registry_entries_keeps [OF this [unfolded asn_entries_def] assms(3)] show ?thesis
      using sel(3) feedResolver_keeps [OF _ assms(2)] by (auto simp: asnResolver_def)
  next
    case rep
    then have "reputation_entries P (registered P X srt) d fl path w = (r, w')" using assms(1) by (simp add: main_entries_def)
    from registry_entries_keeps [OF this [unfolded reputation_entries_def Let_def] assms(3)] show ?thesis
      using sel(2) feedResolver_keeps [OF _ assms(2)] by (auto simp: reputationResolver_def)
  next
    case all
    then show ?thesis using assms rezmoss_all_keeps by (simp add: main_entries_def)
  next
    case cloud
    then have "cloud_entries P (registered P X srt) d fl path w = (r, w')" using assms(1) by (simp add: main_entries_def)
    from registry_entries_keeps [OF this [unfolded cloud_entries_def] assms(3)] show ?thesis
      using sel(1) cloud_resolver_keeps [OF _ assms(2)]
      by (cases "cloud_resolver P fl") auto
  qed
qed

lemma add_reputation_keeps:
  assumes "add_reputation P (registered P X srt) d fl entries w = (r, w')" "keeps_platform (build_files m) P"
    "keeps_record (build_files m) (snd d)" "keeps (build_files m) entries"
  shows "files w' = files w \<and> (\<forall>entries. r = Inr entries \<longrightarrow> keeps (build_files m) entries)"
proof (cases "\<exists>ps resolve shown. fWithReputation fl \<and> SelectReputationPlugins (registered P X srt) [] = Inr ps \<and>
    ps \<noteq> [] \<and> reputationResolver P (fRepSource fl) (fFixtures fl) = Inr (resolve, shown)")
  case True
  then obtain ps resolve shown where s: "fWithReputation fl" "SelectReputationPlugins (registered P X srt) [] = Inr ps"
      "ps \<noteq> []" "reputationResolver P (fRepSource fl) (fFixtures fl) = Inr (resolve, shown)" by blast
  have feeds: "keeps_feed (build_files m) f" if "p \<in> set ps" "f \<in> set (wrapResolve P d resolve p)" for p f
  proof (rule wrapResolve_keeps [OF _ assms(3) that(2)])
    show "keeps_feed (build_files m) f" if "f \<in> set (resolve p)" for f
      by (rule feedResolver_keeps [OF s(4) [unfolded reputationResolver_def] assms(2) _ that])
        (rule selected_keep(2) [OF refl s(2) \<open>p \<in> set ps\<close>])
  qed
  have "keeps (build_files m) (ConcatEntries [entries, collect (fKeepGoing fl) ps (wrapResolve P d resolve)])"
    by (rule ConcatEntries_keeps) (use assms(4) feeds in \<open>auto intro: collect_keeps\<close>)
  then show ?thesis using assms(1) s by (auto simp: add_reputation_def say_def)
next
  case False
  then show ?thesis
    using assms(1,4) by (auto simp: add_reputation_def split: sum.splits if_splits)
qed

lemma loadASNTable_keeps:
  assumes "keeps_platform J P" "\<And>src. keeps_source J src \<Longrightarrow> keeps_source J (wrap src)" "J w"
    and "loadASNTable P X srt source fixtures wrap w = (r, w')"
  shows "J w'"
proof (cases "table_source P (Refs (iptoasn_plugin P X srt)) DirectURL source fixtures")
  case (Inl e)
  then show ?thesis using assms(3,4) by (simp add: loadASNTable_def)
next
  case (Inr t)
  obtain src ref shown where t: "t = (src, ref, shown)" by (metis prod_cases3)
  then have "keeps_source J src"
    using Inr assms(1) by (auto simp: table_source_def Let_def keeping split: if_splits)
  then have "keeps_open J (wrap src ref w)" using assms(2,3) by (simp add: keeps_source_def)
  then show ?thesis
    using assms(4) Inr t by (auto simp: loadASNTable_def keeps_open_def keeps_stream_def split: prod.splits sum.splits)
qed

lemma add_asn_keeps:
  assumes "add_asn P X srt d fl entries w = (r, w')" "\<And>m. keeps_platform (\<lambda>w. files w = m) P"
    "\<And>m. keeps_record (\<lambda>w. files w = m) (snd d)" "keeps (build_files m) entries"
  shows "files w' = files w \<and> (\<forall>entries. r = Inr entries \<longrightarrow> keeps (build_files m) entries)"
proof (cases "fWithASN fl")
  case True
  obtain q w1 where l: "loadASNTable P X srt (fAsnSource fl) (fFixtures fl) (wrapSource P d) w = (q, w1)" by fastforce
  have "files w1 = files w"
    by (rule loadASNTable_keeps [OF assms(2) wrapSource_keeps [OF _ assms(3)] refl l])
  then show ?thesis
    using assms(1,4) l True by (cases q) (auto simp: add_asn_def say_def keeping)
qed (use assms in \<open>auto simp: add_asn_def\<close>)

lemma all_entries_keeps:
  fixes mc :: "('t, 'h, 'x cli_scheme) machine"
  assumes "reads_only (mPlatform mc)" "\<And>m. keeps_record (\<lambda>w. files w = m) (snd d)"
    "\<And>m. keeps_record (build_files m) (snd (lift_digest d :: ('t, 'x cli_scheme) build_env digest_opts))"
    and "all_entries mc (registered (lift_platform (mPlatform mc)) X srt) d fl path w = (r, w')"
  shows "files w' = files w \<and> (\<forall>entries. r = Inr entries \<longrightarrow> keeps (build_files m) entries)"
proof -
  let ?P = "lift_platform (mPlatform mc) :: ('t, 'x cli_scheme) build_env platform"
    and ?d = "lift_digest d :: ('t, 'x cli_scheme) build_env digest_opts"
  have plain: "\<And>m. keeps_platform (\<lambda>w. files w = m) (mPlatform mc)" using assms(1) by (simp add: reads_only_def)
  then have lifted: "\<And>m. keeps_platform (build_files m) ?P" by (rule lift_platform_keeps)
  obtain r1 w1 where 1: "main_entries ?P (registered ?P X srt) ?d fl path w = (r1, w1)" by fastforce
  note k1 = main_entries_keeps [OF 1 lifted assms(3)]
  show ?thesis
  proof (cases r1)
    case (Inl e)
    then show ?thesis using assms(4) 1 k1 by (auto simp: all_entries_def Let_def)
  next
    case (Inr e1)
    obtain r2 w2 where 2: "add_reputation ?P (registered ?P X srt) ?d fl e1 w1 = (r2, w2)" by fastforce
    have "keeps (build_files m) e1" for m using k1 Inr by blast
    note k2 = add_reputation_keeps [OF 2 lifted assms(3) this]
    show ?thesis
    proof (cases r2)
      case (Inl e)
      then show ?thesis using assms(4) 1 2 k1 k2 \<open>r1 = Inr e1\<close> by (auto simp: all_entries_def Let_def)
    next
      case (Inr e2)
      have 3: "add_asn (mPlatform mc) (mNetipx mc) (mSort mc) d fl e2 w2 = (r, w')"
        using assms(4) 1 2 Inr \<open>r1 = Inr e1\<close> by (simp add: all_entries_def Let_def)
      have "keeps (build_files m) e2" using k2 Inr by blast
      from add_asn_keeps [OF 3 plain assms(2) this] show ?thesis using k1 k2 by metis
    qed
  qed
qed

lemma leaves_files_keeps:
  fixes entries :: "(item, ('t, 'x os_scheme) build_env) seq"
  assumes "\<And>m. keeps (build_files m) entries"
  shows "leaves_files W entries"
proof -
  have "files (fst (snd (build_loop W entries t (w, b)))) = files w" for t w b
  proof -
    let ?st = "\<lparr>tree = t, stats = \<lparr>Inserted = 0, Skipped = 0\<rparr>, failed = None\<rparr>"
    let ?y = "with_env (build_body W)"
    have "keeps_yield (build_files (files w)) (?y :: (item, ('t, 'x os_scheme) build_env) yield)"
      by (auto simp: keeps_yield_def with_env_def on_fst_def files_are_def split: prod.splits)
    then have "build_files (files w) (snd (entries ?y ((?st, w), b)))"
      using assms [of "files w"] build_files_iff [of "files w" ?st w b] unfolding keeps_def by blast
    then show ?thesis by (auto simp: build_loop_def on_fst_def files_are_def split: prod.split)
  qed
  then show ?thesis by (simp add: leaves_files_def)
qed

section \<open>A build as a whole\<close>

text \<open>The registries after the package initialisation, at the type of a build.\<close>

definition shipped :: "('t, 'h, 'x cli_scheme) machine \<Rightarrow> ('t, 'x cli_scheme) build_env registries" where
  "shipped mc = registered (lift_platform (mPlatform mc)) (mNetipx mc) (mSort mc)"

text \<open>The files but for one temporary file that could not be removed.\<close>

definition same_but_temp :: "(string \<rightharpoonup> string) \<Rightarrow> (string \<rightharpoonup> string) \<Rightarrow> bool" where
  "same_but_temp m m' \<longleftrightarrow> m' = m \<or> (\<exists>tmp. tmp \<notin> dom m \<and> m'(tmp := None) = m)"

text \<open>
  The bytes a build may publish: those \<open>BuildFile\<close> committed (built in full, reopened, walked and
  guarded) from the entries its flags select, against the count of the database found at the
  output path.
\<close>

definition publishable :: "('t, 'h, 'x cli_scheme) machine \<Rightarrow> build_flags \<Rightarrow> 'x cli_scheme \<Rightarrow> string \<Rightarrow> bool" where
  "publishable mc fl w bytes \<longleftrightarrow>
     (\<exists>d w1 prev w2 entries w3 tmp w4 res.
        digestOptions (mPlatform mc) (fPins fl) (fPrintDigests fl) w = (Inr d, w1) \<and>
        verifyCount (mReader mc) (output_path fl) w1 = (prev, w2) \<and>
        all_entries mc (shipped mc) d fl (output_path fl) (w2\<lparr>failures := []\<rparr>) = (Inr entries, w3) \<and>
        files w4 = (files w)(tmp \<mapsto> []) \<and>
        committed (mWriter mc) (mReader mc) entries tmp
          \<lparr>RecordSize = fRecordSize fl, Description = None, BuildEpoch = time_Unix (mNow mc)\<rparr>
          (case prev of Inl _ \<Rightarrow> None | Inr rep \<Rightarrow> Some rep) (fMaxDrop fl) (fMaxSkip fl) (w4, ([], None)) res bytes)"

text \<open>The three outcomes: nothing changed, published, published with a CSV file.\<close>

definition build_outcome :: "('t, 'h, 'x cli_scheme) machine \<Rightarrow> build_flags \<Rightarrow> 'x cli_scheme \<Rightarrow> error option \<Rightarrow> 'x cli_scheme \<Rightarrow> bool" where
  "build_outcome mc fl w err w' \<longleftrightarrow>
     err \<noteq> None \<and> same_but_temp (files w) (files w') \<or>
     (\<exists>bytes. publishable mc fl w bytes \<and> (let m = (files w)(output_path fl \<mapsto> bytes) in
        err = None \<and> fCsv fl \<in> {[], ''-''} \<and> files w' = m \<or>
        err = None \<and> fCsv fl \<notin> {[], ''-''} \<and> (\<exists>doc. files w' = m(fCsv fl \<mapsto> doc)) \<or>
        err \<noteq> None \<and> fCsv fl \<noteq> [] \<and> same_but_temp m (files w')))"

lemma say_files [simp]: "files (say l w) = files w"
  by (simp add: say_def)

lemma fold_say_files [simp]: "files (fold (\<lambda>f. say (g f)) fs w) = files w"
  by (induction fs arbitrary: w) simp_all

lemma report_build_files [simp]: "files (report_build res w) = files w"
  by (simp add: report_build_def Let_def)

lemma verifyCount_files: "reader_contract M \<Longrightarrow> verifyCount M path w = (r, w') \<Longrightarrow> files w' = files w"
  using reader_contract_files [of M] by (auto simp: verifyCount_def split: prod.splits sum.splits)

text \<open>
  \<open>os.CreateTemp\<close> picks paths that do not exist: beside the output, and, once that is published,
  beside the CSV file.
\<close>

definition fresh_temps :: "picker \<Rightarrow> build_flags \<Rightarrow> (string \<rightharpoonup> string) \<Rightarrow> bool" where
  "fresh_temps pick fl m \<longleftrightarrow> temp_fresh pick (output_path fl) m \<and>
     (\<forall>bytes. temp_fresh pick (fCsv fl) (m(output_path fl \<mapsto> bytes)))"

lemma build_and_publish_run:
  assumes "reader_contract (mReader mc)" "\<And>m. keeps (build_files m) entries" "fresh_temps (mPick mc) fl (files w)"
    and "build_and_publish mc entries fl prev w = (err, w')"
  defines "opts \<equiv> \<lparr>RecordSize = fRecordSize fl, Description = None, BuildEpoch = time_Unix (mNow mc)\<rparr>"
  shows "err \<noteq> None \<and> same_but_temp (files w) (files w') \<or>
    (\<exists>bytes tmp w0 res. files w0 = (files w)(tmp \<mapsto> []) \<and>
       committed (mWriter mc) (mReader mc) entries tmp opts prev (fMaxDrop fl) (fMaxSkip fl) (w0, ([], None)) res bytes \<and>
       (let m = (files w)(output_path fl \<mapsto> bytes) in
        err = None \<and> fCsv fl \<in> {[], ''-''} \<and> files w' = m \<or>
        err = None \<and> fCsv fl \<notin> {[], ''-''} \<and> (\<exists>doc. files w' = m(fCsv fl \<mapsto> doc)) \<or>
        err \<noteq> None \<and> fCsv fl \<noteq> [] \<and> same_but_temp m (files w')))"
proof -
  obtain r w1 b where B: "BuildFile (mWriter mc) (mReader mc) (mPick mc) entries (output_path fl) opts prev
      (fMaxDrop fl) (fMaxSkip fl) (w, ([], None)) = (r, w1, b)" by (metis prod_cases3)
  have fresh: "temp_fresh (mPick mc) (output_path fl) (files w)"
      "\<And>bytes. temp_fresh (mPick mc) (fCsv fl) ((files w)(output_path fl \<mapsto> bytes))"
    using assms(3) by (simp_all add: fresh_temps_def)
  obtain tmp w0 where t: "tmp \<notin> dom (files w)" "files w0 = (files w)(tmp \<mapsto> [])" "case r of
      Inl err \<Rightarrow> files w1 (output_path fl) = files w (output_path fl) \<and>
        (files w1 = files w \<or> (\<exists>e w2. os_Remove tmp w2 = (Some e, w1) \<and> (files w1)(tmp := None) = files w))
    | Inr res \<Rightarrow> Path res = output_path fl \<and> (\<exists>bytes. files w1 = (files w)(output_path fl \<mapsto> bytes) \<and>
        committed (mWriter mc) (mReader mc) entries tmp opts prev (fMaxDrop fl) (fMaxSkip fl) (w0, ([], None)) res bytes)"
    using BuildFile_run [OF assms(1) leaves_files_keeps [OF assms(2)] fresh(1) B] by blast
  show ?thesis
  proof (cases r)
    case (Inl e)
    then have "err = Some e" "w' = w1" using assms(4) B by (simp_all add: build_and_publish_def opts_def)
    then show ?thesis using t Inl by (auto simp: same_but_temp_def)
  next
    case (Inr res)
    then obtain bytes where bytes: "files w1 = (files w)(output_path fl \<mapsto> bytes)"
        "committed (mWriter mc) (mReader mc) entries tmp opts prev (fMaxDrop fl) (fMaxSkip fl) (w0, ([], None)) res bytes"
      using t(3) by auto
    have "err = None \<and> fCsv fl \<in> {[], ''-''} \<and> files w' = files w1 \<or>
        err = None \<and> fCsv fl \<notin> {[], ''-''} \<and> (\<exists>doc. files w' = (files w1)(fCsv fl \<mapsto> doc)) \<or>
        err \<noteq> None \<and> fCsv fl \<noteq> [] \<and> same_but_temp (files w1) (files w')"
    proof (cases "fCsv fl = []")
      case True
      then show ?thesis using assms(4) B Inr by (auto simp: build_and_publish_def opts_def Let_def)
    next
      case False
      obtain e w2 where x: "exportCSVFile (mReader mc) (mPick mc) (output_path fl) (fCsv fl) (report_build res w1) = (e, w2)"
        by fastforce
      have w': "err = map_option (\<lambda>e. Errorf ''csv export: %w'' [E e]) e" "files w' = files w2"
        using assms(4) B Inr False x by (auto simp: build_and_publish_def opts_def Let_def split: option.splits)
      show ?thesis
        using exportCSVFile_run [OF assms(1) _ x] fresh(2) bytes(1) w' False
        by (cases e) (auto simp: same_but_temp_def split: if_splits)
    qed
    then show ?thesis
      by (intro disjI2, rule_tac exI [of _ bytes], rule_tac exI [of _ tmp], rule_tac exI [of _ w0], rule_tac exI [of _ res])
        (use bytes t(2) in \<open>simp add: Let_def\<close>)
  qed
qed

lemma same_but_temp_refl [simp]: "same_but_temp m m"
  by (simp add: same_but_temp_def)

lemma runBuild_run:
  assumes "reads_only (mPlatform mc)" "reader_contract (mReader mc)" "fresh_temps (mPick mc) fl (files w)"
    and "runBuild mc (shipped mc) fl w = (err, w')"
  shows "build_outcome mc fl w err w'"
proof (cases "flag_conflict fl")
  case (Some e)
  then show ?thesis using assms(4) by (auto simp: runBuild_def build_outcome_def)
next
  case ok: None
  obtain rd w1 where 1: "digestOptions (mPlatform mc) (fPins fl) (fPrintDigests fl) w = (rd, w1)" by fastforce
  have plain: "keeps_platform (\<lambda>w. files w = m) (mPlatform mc)" for m using assms(1) by (simp add: reads_only_def)
  note k1 = digestOptions_keeps [OF plain refl 1]
  show ?thesis
  proof (cases rd)
    case (Inl e)
    then show ?thesis using assms(4) ok 1 k1 by (auto simp: runBuild_def build_outcome_def)
  next
    case (Inr d)
    obtain prev w2 where 2: "verifyCount (mReader mc) (output_path fl) w1 = (prev, w2)" by fastforce
    obtain re w3 where 3: "all_entries mc (shipped mc) d fl (output_path fl) (w2\<lparr>failures := []\<rparr>) = (re, w3)" by fastforce
    have rec: "keeps_record (\<lambda>w. files w = m) (snd d)" "keeps_record (build_files m) (snd (lift_digest d))" for m
      using k1 Inr by blast+
    note k3 = all_entries_keeps [OF assms(1) rec 3 [unfolded shipped_def]]
    have files: "files w2 = files w" "files w3 = files w"
      using conjunct1 [OF k1] verifyCount_files [OF assms(2) 2] conjunct1 [OF k3] by simp_all
    show ?thesis
    proof (cases re)
      case (Inl e)
      then show ?thesis using assms(4) ok 1 2 3 files \<open>rd = Inr d\<close> by (auto simp: runBuild_def build_outcome_def)
    next
      case (Inr entries)
      then have run: "build_and_publish mc entries fl (case prev of Inl _ \<Rightarrow> None | Inr rep \<Rightarrow> Some rep) w3 = (err, w')"
        using assms(4) ok 1 2 3 \<open>rd = Inr d\<close> by (simp add: runBuild_def)
      have "keeps (build_files m) entries" for m using k3 Inr by blast
      from build_and_publish_run [OF assms(2) this _ run] assms(3) show ?thesis
        using 1 2 3 files Inr \<open>rd = Inr d\<close> unfolding build_outcome_def publishable_def by metis
    qed
  qed
qed

text \<open>
  C2. Whatever fails in a build, be it the flags, the feeds, the disk, the verification or a guard,
  an error leaves every file as it was (but for a temporary file that could not be removed), the
  published database included; the only exception is the export of the CSV file after a
  successful publication. Without an error the output path, and with \<open>--csv\<close> that file, are
  what changed, and the database is one that was built in full from the selected entries,
  reopened, walked, and compared with the one it replaces.
\<close>

theorem runBuild_atomic:
  assumes "reads_only (mPlatform mc)" and "reader_contract (mReader mc)" and "fresh_temps (mPick mc) fl (files w)"
    and "runBuild mc (shipped mc) fl w = (err, w')"
  shows "build_outcome mc fl w err w'"
  by (rule runBuild_run [OF assms])

section \<open>Cloud first\<close>

lemma ConcatEntries_lists: "ConcatEntries [seq_of xs, seq_of ys] = seq_of (xs @ ys)"
proof -
  have y: "seq_yield = (\<lambda>x. seq_of [x])" by (rule ext) (rule seq_yield_eq)
  have "seq_range (seq_of zs) (\<lambda>x. seq_of [x]) = seq_of zs" for zs :: "'a list"
    using seq_range_eq [of zs "\<lambda>x. [x]"] by (simp del: seq_of.simps)
  then show ?thesis by (simp add: ConcatEntries_def y iter del: seq_of.simps)
qed

lemma slot_of_entries:
  "\<exists>v. slot_merge (map entry_map (e0 # es)) = Some v \<and>
     stored_ident v = (Provider (Rec e0), Region (Rec e0), isV6Network (normalized e0), Source (Rec e0)) \<and>
     stored_categories v = (\<Union>e \<in> set (e0 # es). set (Categories (Rec e))) \<and>
     stored_services v = (\<Union>e \<in> set (e0 # es).
       if Provider (Rec e) = Provider (Rec e0) then set (Services (Rec e)) else {})"
proof -
  let ?f = "\<lambda>e. (Rec e, isV6Network (normalized e))"
  have m: "map (\<lambda>(r, b). toMMDB r b) ((Rec e0, isV6Network (normalized e0)) # map ?f es) = map entry_map (e0 # es)"
    by (simp add: entry_map_def comp_def)
  obtain v where v: "slot_merge (map entry_map (e0 # es)) = Some v"
      "stored_ident v = (Provider (Rec e0), Region (Rec e0), isV6Network (normalized e0), Source (Rec e0))"
      "stored_categories v = (\<Union>(r, b) \<in> set (?f e0 # map ?f es). set (Categories r))"
      "stored_services v = set (Services (Rec e0)) \<union>
         (\<Union>(r, b) \<in> set (filter (\<lambda>(r, b). Provider r = Provider (Rec e0)) (map ?f es)). set (Services r))"
    using slot_merge_run [of "Rec e0" "isV6Network (normalized e0)" "map ?f es"] unfolding m Let_def by blast
  have "stored_categories v = (\<Union>e \<in> set (e0 # es). set (Categories (Rec e)))"
    unfolding v(3) by auto
  moreover have "stored_services v = (\<Union>e \<in> set (e0 # es).
       if Provider (Rec e) = Provider (Rec e0) then set (Services (Rec e)) else {})"
    unfolding v(4) by (auto split: if_splits)
  ultimately show ?thesis using v(1,2) by blast
qed

text \<open>
  The slots of a tree when first the entries \<open>acc1\<close> and then \<open>acc2\<close> were inserted: the record of
  a slot that some entry of \<open>acc1\<close> covers.
\<close>

definition cloud_first :: "(IPNet \<Rightarrow> 'p \<Rightarrow> bool) \<Rightarrow> Entry list \<Rightarrow> Entry list \<Rightarrow> ('p \<Rightarrow> mmdb option) \<Rightarrow> bool" where
  "cloud_first covers acc1 acc2 slot \<longleftrightarrow>
    (\<forall>p e0 es. filter (entry_covers covers p) acc1 = e0 # es \<longrightarrow>
       (let all = e0 # es @ filter (entry_covers covers p) acc2 in
        \<exists>v. slot p = Some v \<and>
          stored_ident v = (Provider (Rec e0), Region (Rec e0), isV6Network (normalized e0), Source (Rec e0)) \<and>
          stored_categories v = (\<Union>e \<in> set all. set (Categories (Rec e))) \<and>
          stored_services v = (\<Union>e \<in> set all.
            if Provider (Rec e) = Provider (Rec e0) then set (Services (Rec e)) else {})))"


section \<open>A concrete build\<close>

text \<open>The Tor list from a fixture directory, published beside an old cloud database.\<close>

definition fixture_platform :: "cli platform" where
  "fixture_platform = no_platform\<lparr>OpenInRoot := \<lambda>dir path w.
     (if path = ''tor/exit-list.txt'' then Inr \<lparr>Rd = Reader ''198.51.100.7'' None, Close = id\<rparr>
      else Inl (LibErr ''no such file'' []), w)\<rparr>"

definition sample_machine :: "(addr \<Rightarrow> mmdb option, table, cli) machine" where
  "sample_machine = \<lparr>mWriter = word_writer, mReader = word_reader, mPlatform = fixture_platform, mPick = next_to,
     mNetipx = host_netipx, mSort = stable_sort, mNow = zeroTime\<rparr>"

definition sample_flags :: build_flags where
  "sample_flags = default_flags\<lparr>fReputation := True, fProviders := '' tor '', fFixtures := ''fx''\<rparr>"

definition old_disk :: cli where
  "old_disk = \<lparr>files = [''cloud.mmdb'' \<mapsto> ''old''], faults = [], stdin = Reader [] None, stdout = [], stderr = [], failures = []\<rparr>"

lemma fixture_reads_only: "reads_only fixture_platform"
  by (auto simp: reads_only_def keeps_platform_def keeps_open_def keeps_stream_def fixture_platform_def no_platform_def)

lemma word_reader_contract: "reader_contract word_reader"
  by (auto simp: reader_contract_def word_reader_def split: option.split)

theorem runBuild_atomic_witness:
  "case runBuild sample_machine (shipped sample_machine) sample_flags old_disk of (err, w') \<Rightarrow>
    err = None \<and> (\<exists>bytes. publishable sample_machine sample_flags old_disk bytes \<and>
      files w' = [''cloud.mmdb'' \<mapsto> ''old'', ''reputation.mmdb'' \<mapsto> bytes])"
proof -
  obtain err w' where run: "runBuild sample_machine (shipped sample_machine) sample_flags old_disk = (err, w')" by fastforce
  have "fst (runBuild sample_machine (shipped sample_machine) sample_flags old_disk) = None"
    by code_simp
  then have ok: "err = None" using run by simp
  have out: "output_path sample_flags = ''reputation.mmdb''" "fCsv sample_flags = []"
    by (simp_all add: output_path_def sample_flags_def default_flags_def)
  have picks: "next_to (filepath_Dir ''reputation.mmdb'') (filepath_Base ''reputation.mmdb'' @ ''.tmp-*'') m = ''./reputation.mmdb.tmp-1''"
      "next_to (filepath_Dir []) (filepath_Base [] @ ''.tmp-*'') m = ''./..tmp-1''" for m
    by code_simp+
  have fresh: "fresh_temps (mPick sample_machine) sample_flags (files old_disk)"
    by (simp add: fresh_temps_def temp_fresh_def picks out old_disk_def sample_machine_def)
  have M: "reads_only (mPlatform sample_machine)" "reader_contract (mReader sample_machine)"
    using fixture_reads_only word_reader_contract by (simp_all add: sample_machine_def)
  from runBuild_atomic [OF M fresh run] show ?thesis
    using ok run out by (auto simp: build_outcome_def Let_def old_disk_def)
qed


end
