(* ===== verification/Serve.thy ===== *)
theory Serve
  imports Service
begin

text \<open>
  \<open>cmd/cloudattr/serve.go\<close>: the command \<open>serve\<close> as a state machine. Its goroutines (the main one,
  the two servers' \<open>Serve\<close>, the handlers they run, and the one that reloads on SIGHUP) interleave
  with the signals, the timers and the clock, over the service and its handles of \<open>Service.thy\<close>.
\<close>

section \<open>The process\<close>

record serveConfig =
  httpAddr :: string
  grpcAddr :: string

datatype listener = NoListener | Listening | ListenerClosed

text \<open>
  A goroutine that runs \<open>Serve\<close>: not started, started but not yet accepting (the listener is not
  registered with the server), accepting, or returned.
\<close>

datatype serve_goroutine = NotStarted | Spawned | Accepting | Returned

record server_side =
  listener :: listener
  goroutine :: serve_goroutine
  stopping :: bool
  running :: nat
  busy :: nat

text \<open>
  \<open>running\<close> are the handlers of a server, counted from the accepted connection on (a connection that
  has not sent its request yet holds up \<open>Shutdown\<close>, too), \<open>busy\<close> those inside a lookup; \<open>stopping\<close> is set when
  \<open>Shutdown\<close> or \<open>GracefulStop\<close> was called. The main goroutine, with the value \<open>serve\<close> returns:
\<close>

datatype main_pc = ListenHTTP | ListenGRPC | Spawn | Select
  | StopHTTP "error option" | WaitHTTP "error option" | StopGRPC "error option" | WaitGRPC "error option"
  | ServeReturned "error option" | Join "error option" | CloseService "error option" | Exited "error option"

text \<open>The goroutine of SIGHUP: waiting, with a database loaded, or returned.\<close>

datatype reload_pc = Waiting | Loaded | Gone

record server =
  sys :: system
  pc :: main_pc
  http :: server_side
  grpc :: server_side
  errc :: "error list"
  cancelled :: bool
  reloader :: reload_pc
  abandoned :: bool

definition idle_side :: server_side where
  "idle_side = \<lparr>listener = NoListener, goroutine = NotStarted, stopping = False, running = 0, busy = 0\<rparr>"

text \<open>After \<open>NewServiceIndexed\<close> succeeded: nothing listens, and the reloading goroutine waits.\<close>

definition boot :: "system \<Rightarrow> server" where
  "boot s = \<lparr>sys = s, pc = ListenHTTP, http = idle_side, grpc = idle_side, errc = [], cancelled = False,
     reloader = Waiting, abandoned = False\<rparr>"

section \<open>Steps of one server\<close>

text \<open>
  A server's \<open>Serve\<close> starts accepting, or, when it was stopped before, closes its listener and
  returns; an accept error makes it close the listener, return, and report the error. A
  handler starts only on a server that accepts and is not stopping, and returns when it is
  not inside a lookup.
\<close>

inductive side_step :: "server_side \<Rightarrow> error list \<Rightarrow> server_side \<Rightarrow> bool" where
  Accept: "goroutine x = Spawned \<Longrightarrow> \<not> stopping x \<Longrightarrow> side_step x [] (x\<lparr>goroutine := Accepting\<rparr>)"
| Late: "goroutine x = Spawned \<Longrightarrow> stopping x \<Longrightarrow> es = [] \<or> (\<exists>err. es = [err]) \<Longrightarrow>
    side_step x es (x\<lparr>goroutine := Returned, listener := ListenerClosed\<rparr>)"
| AcceptFails: "goroutine x = Accepting \<Longrightarrow> \<not> stopping x \<Longrightarrow>
    side_step x [err] (x\<lparr>goroutine := Returned, listener := ListenerClosed\<rparr>)"
| ServeReturns: "goroutine x = Accepting \<Longrightarrow> stopping x \<Longrightarrow> side_step x [] (x\<lparr>goroutine := Returned\<rparr>)"
| HandlerStarts: "goroutine x = Accepting \<Longrightarrow> \<not> stopping x \<Longrightarrow> side_step x [] (x\<lparr>running := running x + 1\<rparr>)"
| HandlerReturns: "busy x < running x \<Longrightarrow> side_step x [] (x\<lparr>running := running x - 1\<rparr>)"

text \<open>
  \<open>Shutdown\<close> and \<open>GracefulStop\<close> close the listeners registered with the server; one that \<open>Serve\<close> has
  not registered yet is left to it.
\<close>

definition stop_side :: "server_side \<Rightarrow> server_side" where
  "stop_side x = x\<lparr>stopping := True, listener := (if goroutine x = Accepting then ListenerClosed else listener x)\<rparr>"

section \<open>Steps of the process\<close>

inductive serve_step :: "(nat, handles) maxminddb \<Rightarrow> int \<Rightarrow> serveConfig \<Rightarrow> server \<Rightarrow> server \<Rightarrow> bool"
  for M longest cfg where
  \<comment> \<open>the main goroutine: both listeners are acquired before any \<open>Serve\<close> is started\<close>
  NoHTTP: "pc s = ListenHTTP \<Longrightarrow> httpAddr cfg = [] \<Longrightarrow> serve_step M longest cfg s (s\<lparr>pc := ListenGRPC\<rparr>)"
| HTTPListens: "pc s = ListenHTTP \<Longrightarrow> httpAddr cfg \<noteq> [] \<Longrightarrow>
    serve_step M longest cfg s (s\<lparr>http := (http s)\<lparr>listener := Listening\<rparr>, pc := ListenGRPC\<rparr>)"
| HTTPListenFails: "pc s = ListenHTTP \<Longrightarrow> httpAddr cfg \<noteq> [] \<Longrightarrow>
    serve_step M longest cfg s (s\<lparr>pc := ServeReturned (Some (Errorf ''http listen: %w'' [E err]))\<rparr>)"
| NoGRPC: "pc s = ListenGRPC \<Longrightarrow> grpcAddr cfg = [] \<Longrightarrow> serve_step M longest cfg s (s\<lparr>pc := Spawn\<rparr>)"
| GRPCListens: "pc s = ListenGRPC \<Longrightarrow> grpcAddr cfg \<noteq> [] \<Longrightarrow>
    serve_step M longest cfg s (s\<lparr>grpc := (grpc s)\<lparr>listener := Listening\<rparr>, pc := Spawn\<rparr>)"
| GRPCListenFails: "pc s = ListenGRPC \<Longrightarrow> grpcAddr cfg \<noteq> [] \<Longrightarrow>
    serve_step M longest cfg s
      (s\<lparr>http := (if listener (http s) = Listening then (http s)\<lparr>listener := ListenerClosed\<rparr> else http s),
         pc := ServeReturned (Some (Errorf ''grpc listen: %w'' [E err]))\<rparr>)"
| Spawns: "pc s = Spawn \<Longrightarrow> serve_step M longest cfg s
    (s\<lparr>http := (if listener (http s) = Listening then (http s)\<lparr>goroutine := Spawned\<rparr> else http s),
       grpc := (if listener (grpc s) = Listening then (grpc s)\<lparr>goroutine := Spawned\<rparr> else grpc s), pc := Select\<rparr>)"
| SelectCancelled: "pc s = Select \<Longrightarrow> cancelled s \<Longrightarrow> serve_step M longest cfg s (s\<lparr>pc := StopHTTP None\<rparr>)"
| SelectError: "pc s = Select \<Longrightarrow> errc s = err # es \<Longrightarrow>
    serve_step M longest cfg s (s\<lparr>errc := es, pc := StopHTTP (Some err)\<rparr>)"
  \<comment> \<open>\<open>shutdown\<close>: HTTP for at most five seconds, then gRPC for as long as its calls take\<close>
| StopsHTTP: "pc s = StopHTTP r \<Longrightarrow> goroutine (http s) \<noteq> NotStarted \<Longrightarrow>
    serve_step M longest cfg s (s\<lparr>http := stop_side (http s), pc := WaitHTTP r\<rparr>)"
| NoHTTPServer: "pc s = StopHTTP r \<Longrightarrow> goroutine (http s) = NotStarted \<Longrightarrow>
    serve_step M longest cfg s (s\<lparr>pc := StopGRPC r\<rparr>)"
| HTTPDrained: "pc s = WaitHTTP r \<Longrightarrow> running (http s) = 0 \<Longrightarrow> serve_step M longest cfg s (s\<lparr>pc := StopGRPC r\<rparr>)"
| HTTPTimeout: "pc s = WaitHTTP r \<Longrightarrow> 0 < running (http s) \<Longrightarrow>
    serve_step M longest cfg s (s\<lparr>abandoned := True, pc := StopGRPC r\<rparr>)"
| StopsGRPC: "pc s = StopGRPC r \<Longrightarrow> goroutine (grpc s) \<noteq> NotStarted \<Longrightarrow>
    serve_step M longest cfg s (s\<lparr>grpc := stop_side (grpc s), pc := WaitGRPC r\<rparr>)"
| NoGRPCServer: "pc s = StopGRPC r \<Longrightarrow> goroutine (grpc s) = NotStarted \<Longrightarrow>
    serve_step M longest cfg s (s\<lparr>pc := ServeReturned r\<rparr>)"
| GRPCDrained: "pc s = WaitGRPC r \<Longrightarrow> running (grpc s) = 0 \<Longrightarrow> serve_step M longest cfg s (s\<lparr>pc := ServeReturned r\<rparr>)"
  \<comment> \<open>\<open>runServe\<close>: cancel, join the reloading goroutine, then the deferred \<open>svc.Close\<close>\<close>
| Cancels: "pc s = ServeReturned r \<Longrightarrow> serve_step M longest cfg s (s\<lparr>cancelled := True, pc := Join r\<rparr>)"
| Joins: "pc s = Join r \<Longrightarrow> reloader s = Gone \<Longrightarrow> serve_step M longest cfg s (s\<lparr>pc := CloseService r\<rparr>)"
| Closes: "pc s = CloseService r \<Longrightarrow> svc_Close M (svc (sys s)) (world (sys s)) = (err, sv, w) \<Longrightarrow>
    serve_step M longest cfg s (s\<lparr>sys := (sys s)\<lparr>svc := sv, world := w\<rparr>, pc := Exited r\<rparr>)"
  \<comment> \<open>the servers and their handlers\<close>
| HTTPStep: "side_step (http s) es x \<Longrightarrow> serve_step M longest cfg s (s\<lparr>http := x, errc := errc s @ es\<rparr>)"
| GRPCStep: "side_step (grpc s) es x \<Longrightarrow> serve_step M longest cfg s (s\<lparr>grpc := x, errc := errc s @ es\<rparr>)"
| HTTPLookup: "busy (http s) < running (http s) \<Longrightarrow> svcDB (svc (sys s)) = Some db \<Longrightarrow> serve_step M longest cfg s
    (s\<lparr>sys := (sys s)\<lparr>inflight := (db, clock (world (sys s))) # inflight (sys s)\<rparr>,
       http := (http s)\<lparr>busy := busy (http s) + 1\<rparr>\<rparr>)"
| GRPCLookup: "busy (grpc s) < running (grpc s) \<Longrightarrow> svcDB (svc (sys s)) = Some db \<Longrightarrow> serve_step M longest cfg s
    (s\<lparr>sys := (sys s)\<lparr>inflight := (db, clock (world (sys s))) # inflight (sys s)\<rparr>,
       grpc := (grpc s)\<lparr>busy := busy (grpc s) + 1\<rparr>\<rparr>)"
| HTTPLookupDone: "0 < busy (http s) \<Longrightarrow> inflight (sys s) = fs1 @ f # fs2 \<Longrightarrow> serve_step M longest cfg s
    (s\<lparr>sys := (sys s)\<lparr>inflight := fs1 @ fs2\<rparr>, http := (http s)\<lparr>busy := busy (http s) - 1\<rparr>\<rparr>)"
| GRPCLookupDone: "0 < busy (grpc s) \<Longrightarrow> inflight (sys s) = fs1 @ f # fs2 \<Longrightarrow> serve_step M longest cfg s
    (s\<lparr>sys := (sys s)\<lparr>inflight := fs1 @ fs2\<rparr>, grpc := (grpc s)\<lparr>busy := busy (grpc s) - 1\<rparr>\<rparr>)"
  \<comment> \<open>the reloading goroutine\<close>
| HupLoads: "reloader s = Waiting \<Longrightarrow> svc_load M (svc (sys s)) (world (sys s)) = (Inr db, w) \<Longrightarrow>
    serve_step M longest cfg s
      (s\<lparr>sys := (sys s)\<lparr>world := w, loading := db # loading (sys s)\<rparr>, reloader := Loaded\<rparr>)"
| HupFails: "reloader s = Waiting \<Longrightarrow> svc_load M (svc (sys s)) (world (sys s)) = (Inl err, w) \<Longrightarrow>
    serve_step M longest cfg s (s\<lparr>sys := (sys s)\<lparr>world := w\<rparr>\<rparr>)"
| HupInstalls: "reloader s = Loaded \<Longrightarrow> loading (sys s) = db # dbs \<Longrightarrow>
    svc_install M close_after db (svc (sys s)) (world (sys s)) = (sv, w) \<Longrightarrow>
    serve_step M longest cfg s (s\<lparr>sys := (sys s)\<lparr>svc := sv, world := w, loading := dbs\<rparr>, reloader := Waiting\<rparr>)"
| ReloaderEnds: "reloader s = Waiting \<Longrightarrow> cancelled s \<Longrightarrow> serve_step M longest cfg s (s\<lparr>reloader := Gone\<rparr>)"
  \<comment> \<open>signals, timers and time\<close>
| Interrupt: "serve_step M longest cfg s (s\<lparr>cancelled := True\<rparr>)"
| TimerFires: "timers (world (sys s)) = ts1 @ (old, due) # ts2 \<Longrightarrow> due \<le> clock (world (sys s)) \<Longrightarrow>
    serve_step M longest cfg s
      (s\<lparr>sys := (sys s)\<lparr>world := snd (CloseDB M old ((world (sys s))\<lparr>timers := ts1 @ ts2\<rparr>))\<rparr>\<rparr>)"
| TimePasses: "0 \<le> d \<Longrightarrow> list_all (\<lambda>(db, start). clock (world (sys s)) + d \<le> start + longest) (inflight (sys s)) \<Longrightarrow>
    serve_step M longest cfg s
      (s\<lparr>sys := (sys s)\<lparr>world := (world (sys s))\<lparr>clock := clock (world (sys s)) + d\<rparr>\<rparr>\<rparr>)"

abbreviation serves_to :: "(nat, handles) maxminddb \<Rightarrow> int \<Rightarrow> serveConfig \<Rightarrow> server \<Rightarrow> server \<Rightarrow> bool" where
  "serves_to M longest cfg \<equiv> runs (serve_step M longest cfg)"

lemmas serves_to_step = runs_step [where st = "serve_step M longest cfg" for M longest cfg]
lemmas serves_to_more = runs.more [where st = "serve_step M longest cfg" for M longest cfg]
lemmas serves_to_trans = runs_trans [where st = "serve_step M longest cfg" for M longest cfg]

section \<open>The process refines the service\<close>

text \<open>Every step of the process is a step of the service or does not concern it.\<close>

lemma serve_step_refines: "serve_step M longest cfg s s' \<Longrightarrow> sys s' = sys s \<or> step M longest (sys s) (sys s')"
proof (induction rule: serve_step.induct)
  case (Closes s r err sv w)
  then show ?case using step.Shutdown by simp
next
  case (HTTPLookup s db)
  then show ?case using step.Begin by simp
next
  case (GRPCLookup s db)
  then show ?case using step.Begin by simp
next
  case (HTTPLookupDone s fs1 f fs2)
  then show ?case using step.Done by simp
next
  case (GRPCLookupDone s fs1 f fs2)
  then show ?case using step.Done by simp
next
  case (HupLoads s db w)
  then show ?case using step.Load by simp
next
  case (HupFails s err w)
  then show ?case using step.LoadFails by simp
next
  case (HupInstalls s db dbs sv w)
  then show ?case using step.Install [of "sys s" "[]" db dbs M sv w] by simp
next
  case (TimerFires s ts1 old due ts2)
  then show ?case using step.Fire by simp
next
  case (TimePasses d s)
  then show ?case using step.Tick by simp
qed simp_all

interpretation serve_sim: simulation "serve_step M longest cfg" "step M longest" sys for M longest cfg
  by unfold_locales (rule serve_step_refines)

section \<open>The invariant of the process\<close>

fun listening_phase :: "main_pc \<Rightarrow> bool" where
  "listening_phase ListenHTTP = True" | "listening_phase ListenGRPC = True" | "listening_phase Spawn = True"
| "listening_phase _ = False"

text \<open>The HTTP server was told to stop and given its time; the gRPC server was stopped, too.\<close>

fun http_stopped :: "main_pc \<Rightarrow> bool" where
  "http_stopped (StopGRPC _) = True" | "http_stopped (WaitGRPC _) = True" | "http_stopped (ServeReturned _) = True"
| "http_stopped (Join _) = True" | "http_stopped (CloseService _) = True" | "http_stopped (Exited _) = True"
| "http_stopped _ = False"

fun serve_returned :: "main_pc \<Rightarrow> bool" where
  "serve_returned (ServeReturned _) = True" | "serve_returned (Join _) = True"
| "serve_returned (CloseService _) = True" | "serve_returned (Exited _) = True" | "serve_returned _ = False"

fun joined :: "main_pc \<Rightarrow> bool" where
  "joined (CloseService _) = True" | "joined (Exited _) = True" | "joined _ = False"

fun exited :: "main_pc \<Rightarrow> bool" where
  "exited (Exited _) = True" | "exited _ = False"

fun waits_http :: "main_pc \<Rightarrow> bool" where
  "waits_http (WaitHTTP _) = True" | "waits_http _ = False"

fun waits_grpc :: "main_pc \<Rightarrow> bool" where
  "waits_grpc (WaitGRPC _) = True" | "waits_grpc _ = False"

definition side_ok :: "server_side \<Rightarrow> bool" where
  "side_ok x \<longleftrightarrow> busy x \<le> running x \<and> (goroutine x = NotStarted \<longrightarrow> running x = 0) \<and>
     (goroutine x = Returned \<or> goroutine x = Accepting \<and> stopping x \<longrightarrow> listener x = ListenerClosed)"

definition stopped :: "server_side \<Rightarrow> bool" where
  "stopped x \<longleftrightarrow> goroutine x = NotStarted \<or> stopping x"

definition serve_inv :: "server \<Rightarrow> bool" where
  "serve_inv s \<longleftrightarrow> side_ok (http s) \<and> side_ok (grpc s) \<and>
     length (inflight (sys s)) = busy (http s) + busy (grpc s) \<and>
     length (loading (sys s)) = (if reloader s = Loaded then 1 else 0) \<and>
     (listening_phase (pc s) \<longrightarrow> goroutine (http s) = NotStarted \<and> goroutine (grpc s) = NotStarted) \<and>
     (pc s = ListenHTTP \<longrightarrow> listener (http s) = NoListener) \<and>
     (pc s = ListenHTTP \<or> pc s = ListenGRPC \<longrightarrow> listener (grpc s) = NoListener) \<and>
     (\<not> listening_phase (pc s) \<longrightarrow> (goroutine (http s) = NotStarted \<longrightarrow> listener (http s) \<noteq> Listening) \<and>
       (goroutine (grpc s) = NotStarted \<longrightarrow> listener (grpc s) \<noteq> Listening)) \<and>
     (waits_http (pc s) \<longrightarrow> stopping (http s)) \<and> (waits_grpc (pc s) \<longrightarrow> stopping (grpc s)) \<and>
     (http_stopped (pc s) \<longrightarrow> stopped (http s) \<and> (running (http s) = 0 \<or> abandoned s)) \<and>
     (serve_returned (pc s) \<longrightarrow> stopped (grpc s) \<and> running (grpc s) = 0) \<and>
     length (errc s) \<le> (if goroutine (http s) = Returned then 1 else 0) + (if goroutine (grpc s) = Returned then 1 else 0) \<and>
     (joined (pc s) \<longrightarrow> reloader s = Gone) \<and> (svcClosed (svc (sys s)) \<longleftrightarrow> exited (pc s))"

lemma side_step_ok:
  "side_step x es y \<Longrightarrow> side_ok x \<Longrightarrow> side_ok y \<and> busy y = busy x \<and> stopping y = stopping x \<and>
     goroutine y \<noteq> NotStarted \<and> goroutine x \<noteq> NotStarted \<and>
     (stopping x \<longrightarrow> running y \<le> running x) \<and>
     length es + (if goroutine x = Returned then 1 else 0) \<le> (if goroutine y = Returned then 1 else (0::nat))"
  by (induction rule: side_step.induct) (auto simp: side_ok_def)

lemma stop_side_ok: "side_ok x \<Longrightarrow> goroutine x \<noteq> NotStarted \<Longrightarrow> side_ok (stop_side x)"
  by (auto simp: side_ok_def stop_side_def)

lemma side_ok_busy:
  "side_ok x \<Longrightarrow> busy x < running x \<Longrightarrow> side_ok (x\<lparr>busy := Suc (busy x)\<rparr>)"
  "side_ok x \<Longrightarrow> side_ok (x\<lparr>busy := busy x - 1\<rparr>)"
  by (auto simp: side_ok_def)

lemma side_ok_unstarted:
  "side_ok x \<Longrightarrow> goroutine x = NotStarted \<Longrightarrow> running x = 0 \<and> side_ok (x\<lparr>listener := l\<rparr>) \<and> side_ok (x\<lparr>goroutine := Spawned\<rparr>)"
  by (auto simp: side_ok_def)

lemma less_diff: "Suc n = b + c \<Longrightarrow> 0 < b \<Longrightarrow> n = b - Suc 0 + c" "Suc n = b + c \<Longrightarrow> 0 < b \<Longrightarrow> n = b + c - Suc 0"
  "Suc n = b + c \<Longrightarrow> 0 < c \<Longrightarrow> n = b + c - Suc 0"
  by simp_all

lemma svc_parts_closed:
  "svc_install M c db sv w = (sv', w') \<Longrightarrow> svcClosed sv' = svcClosed sv"
  "svc_Close M sv w = (err, sv', w') \<Longrightarrow> svcClosed sv'"
  by (auto simp: svc_install_def svc_Close_def Let_def split: if_splits option.splits prod.splits)

lemma serve_inv_step: "serve_step M longest cfg s s' \<Longrightarrow> serve_inv s \<Longrightarrow> serve_inv s'"
proof (induction rule: serve_step.induct)
  case (HTTPStep s es x)
  then show ?case
    using side_step_ok [OF HTTPStep.hyps] unfolding serve_inv_def stopped_def by (cases "pc s") auto
next
  case (GRPCStep s es x)
  then show ?case
    using side_step_ok [OF GRPCStep.hyps] unfolding serve_inv_def stopped_def by (cases "pc s") auto
next
  case (StopsHTTP s r)
  then show ?case using stop_side_ok [of "http s"] by (auto simp: serve_inv_def stop_side_def)
next
  case (StopsGRPC s r)
  then show ?case using stop_side_ok [of "grpc s"] by (auto simp: serve_inv_def stop_side_def)
next
  case (HupInstalls s db dbs sv w)
  then show ?case using svc_parts_closed(1) [OF HupInstalls.hyps(3)] by (auto simp: serve_inv_def)
next
  case (Closes s r err sv w)
  then show ?case using svc_parts_closed(2) [OF Closes.hyps(2)] unfolding serve_inv_def by simp
next
  case (HTTPLookup s db)
  then show ?case using side_ok_busy(1) [of "http s"] unfolding serve_inv_def stopped_def by simp
next
  case (GRPCLookup s db)
  then show ?case using side_ok_busy(1) [of "grpc s"] unfolding serve_inv_def stopped_def by simp
next
  case (HTTPLookupDone s fs1 f fs2)
  then show ?case using side_ok_busy(2) [of "http s"] unfolding serve_inv_def stopped_def by (simp add: less_diff)
next
  case (GRPCLookupDone s fs1 f fs2)
  then show ?case using side_ok_busy(2) [of "grpc s"] unfolding serve_inv_def stopped_def by (simp add: less_diff)
next
  case (HTTPListenFails s err)
  then show ?case using side_ok_unstarted [of "http s"] side_ok_unstarted [of "grpc s"]
    unfolding serve_inv_def stopped_def by (simp, simp)
next
  case (HTTPListens s)
  then show ?case using side_ok_unstarted [of "http s"] side_ok_unstarted [of "grpc s"]
    unfolding serve_inv_def stopped_def by (simp, simp)
next
  case (GRPCListens s)
  then show ?case using side_ok_unstarted [of "http s"] side_ok_unstarted [of "grpc s"]
    unfolding serve_inv_def stopped_def by (simp, simp)
next
  case (GRPCListenFails s err)
  then show ?case using side_ok_unstarted [of "http s"] side_ok_unstarted [of "grpc s"]
    unfolding serve_inv_def stopped_def by (simp, simp)
next
  case (Spawns s)
  then show ?case using side_ok_unstarted [of "http s"] side_ok_unstarted [of "grpc s"]
    unfolding serve_inv_def stopped_def by (simp, simp)
next
  case (NoHTTP s)
  then show ?case unfolding serve_inv_def stopped_def by (simp, simp)
next
  case (NoGRPC s)
  then show ?case unfolding serve_inv_def stopped_def by (simp, simp)
next
  case (NoHTTPServer s r)
  then show ?case using side_ok_unstarted [of "http s"] unfolding serve_inv_def stopped_def by simp
next
  case (NoGRPCServer s r)
  then show ?case using side_ok_unstarted [of "grpc s"] unfolding serve_inv_def stopped_def by simp
qed (simp_all add: serve_inv_def stopped_def)


section \<open>What every run keeps\<close>

lemma NewServiceIndexed_open: "NewServiceIndexed M path index w = (Inr sv, w') \<Longrightarrow> \<not> svcClosed sv"
  by (auto simp: NewServiceIndexed_def Let_def split: prod.splits sum.splits)

lemma started_open: "started M s \<Longrightarrow> loading s = [] \<and> inflight s = [] \<and> \<not> svcClosed (svc s)"
  by (auto simp: started_def dest: NewServiceIndexed_open)

lemma serve_inv_boot: "started M s \<Longrightarrow> serve_inv (boot s)"
  by (auto dest!: started_open simp: serve_inv_def boot_def idle_side_def side_ok_def stopped_def)

interpretation serve_run: invariant "serve_step M longest cfg" serve_inv for M longest cfg
  by unfold_locales (rule serve_inv_step)

lemma boot_parts: "sys (boot s) = s"
  by (simp add: boot_def)

lemma boot_reachable: "serves_to M longest cfg (boot s) s' \<Longrightarrow> reachable M longest s (sys s')"
  using serve_sim.runs_view [of M longest cfg "boot s" s'] by (simp add: boot_parts)

lemma serve_invD:
  assumes "serve_inv s"
  shows "side_ok (http s)" "side_ok (grpc s)" "length (inflight (sys s)) = busy (http s) + busy (grpc s)"
    "length (loading (sys s)) = (if reloader s = Loaded then 1 else 0)"
    "serve_returned (pc s) \<Longrightarrow> stopped (http s) \<and> (running (http s) = 0 \<or> abandoned s)"
    "serve_returned (pc s) \<Longrightarrow> stopped (grpc s) \<and> running (grpc s) = 0"
    "serve_returned (pc s) \<Longrightarrow> (goroutine (http s) = NotStarted \<longrightarrow> listener (http s) \<noteq> Listening) \<and>
       (goroutine (grpc s) = NotStarted \<longrightarrow> listener (grpc s) \<noteq> Listening)"
    "svcClosed (svc (sys s)) \<longleftrightarrow> exited (pc s)" "exited (pc s) \<Longrightarrow> reloader s = Gone"
    "length (errc s) \<le> (if goroutine (http s) = Returned then 1 else 0) + (if goroutine (grpc s) = Returned then 1 else 0)"
  using assms by (simp add: serve_inv_def; cases "pc s"; simp add: serve_inv_def)+


text \<open>
  C9. A clean shutdown: as long as the HTTP server finished its handlers within the time it was
  given, no lookup ever reads an unmapped database, also while and after the service is closed.
\<close>

theorem clean_shutdown:
  assumes "handle_contract M" and "0 \<le> longest" and "longest < closeGrace" and "started M s"
    and "serves_to M longest cfg (boot s) s'" and "\<not> abandoned s'" and "(db, start) \<in> set (inflight (sys s'))"
  shows "rdr db \<in> mapped (world (sys s'))"
proof -
  have inv: "system_inv longest (sys s')"
    by (rule inv_reachable [OF assms(1-3) boot_reachable [OF assms(5)] assms(4)])
  have si: "serve_inv s'" by (rule serve_run.runs_inv [OF assms(5) serve_inv_boot [OF assms(4)]])
  have "\<not> exited (pc s')"
  proof
    assume "exited (pc s')"
    then have r: "serve_returned (pc s')" by (cases "pc s'") simp_all
    have "running (http s') = 0" "running (grpc s') = 0"
      using serve_invD(5,6) [OF si r] assms(6) by simp_all
    then have "length (inflight (sys s')) = 0"
      using serve_invD(1-3) [OF si] by (simp add: side_ok_def)
    then show False using assms(7) by simp
  qed
  then have "\<not> svcClosed (svc (sys s'))" by (simp add: serve_invD(8) [OF si])
  moreover have "protected (sys s') (db, start)" using inv assms(7) by (auto simp: system_inv_def)
  moreover have "mapped (world (sys s')) = set (owned (sys s'))" using inv by (simp add: system_inv_def)
  ultimately show ?thesis by (force simp: protected_def owned_def current_def)
qed

text \<open>
  C22. What \<open>serve\<close> leaves behind when it returns, for whatever reason: each server it started was
  told to stop and the gRPC server has no handler left; a listener is open only if its \<open>Serve\<close>
  has yet to find out that the server was stopped; the error channel never held more errors than
  its capacity, so no goroutine is stuck in sending; and the service is closed only after
  the goroutine of the reloads ended, with no reload left half done.
\<close>

theorem serve_cleanup:
  assumes "started M s" and "serves_to M longest cfg (boot s) s'" and "serve_returned (pc s')"
  shows "stopped (http s') \<and> stopped (grpc s') \<and> running (grpc s') = 0 \<and>
    (listener (http s') = Listening \<longrightarrow> goroutine (http s') = Spawned) \<and>
    (listener (grpc s') = Listening \<longrightarrow> goroutine (grpc s') = Spawned) \<and> length (errc s') \<le> 2 \<and>
    (svcClosed (svc (sys s')) \<longrightarrow> reloader s' = Gone \<and> loading (sys s') = [])"
proof -
  have si: "serve_inv s'" by (rule serve_run.runs_inv [OF assms(2) serve_inv_boot [OF assms(1)]])
  have ln: "listener x = Listening \<longrightarrow> goroutine x = Spawned"
    if "side_ok x" "stopped x" "goroutine x = NotStarted \<longrightarrow> listener x \<noteq> Listening" for x
    using that by (cases "goroutine x") (auto simp: side_ok_def stopped_def)
  have "length (errc s') \<le> 2" using serve_invD(10) [OF si] by (simp split: if_splits)
  moreover have "svcClosed (svc (sys s')) \<longrightarrow> reloader s' = Gone \<and> loading (sys s') = []"
    using serve_invD(4,8,9) [OF si] by auto
  ultimately show ?thesis
    using serve_invD(5-7) [OF si assms(3)] ln [of "http s'"] ln [of "grpc s'"] serve_invD(1,2) [OF si] by simp
qed


section \<open>The command can always exit\<close>

text \<open>The handlers of the gRPC server can finish; this leaves the main goroutine where it is.\<close>

definition elsewhere :: "server \<Rightarrow> server \<Rightarrow> bool" where
  "elsewhere s s' \<longleftrightarrow> pc s' = pc s \<and> http s' = http s \<and> goroutine (grpc s') = goroutine (grpc s) \<and>
     cancelled s' = cancelled s \<and> reloader s' = reloader s"

lemma grpc_finishes:
  "serve_inv s \<Longrightarrow> \<exists>s'. serves_to M longest cfg s s' \<and> elsewhere s s' \<and> running (grpc s') = 0"
proof (induction "running (grpc s) + busy (grpc s)" arbitrary: s rule: less_induct)
  case less
  have rest: ?case if st: "serve_step M longest cfg s s1" and e: "elsewhere s s1"
    and l: "running (grpc s1) + busy (grpc s1) < running (grpc s) + busy (grpc s)" for s1
  proof -
    obtain s2 where s2: "serves_to M longest cfg s1 s2" "elsewhere s1 s2" "running (grpc s2) = 0"
      using less.hyps [OF l serve_inv_step [OF st less.prems]] by auto
    have "serves_to M longest cfg s s2" by (rule serves_to_trans [OF s2(1) serves_to_step [OF st]])
    then show ?thesis using s2 e unfolding elsewhere_def by (intro exI [of _ s2]) simp
  qed
  consider "0 < busy (grpc s)" | "busy (grpc s) = 0" "0 < running (grpc s)" | "running (grpc s) = 0" by linarith
  then show ?case
  proof cases
    case 1
    then obtain f fs where fs: "inflight (sys s) = [] @ f # fs"
      using serve_invD(3) [OF less.prems] by (cases "inflight (sys s)") auto
    show ?thesis
      by (rule rest [OF serve_step.GRPCLookupDone [OF 1 fs]]) (use 1 in \<open>simp_all add: elsewhere_def\<close>)
  next
    case 2
    show ?thesis
      by (rule rest [OF serve_step.GRPCStep [OF side_step.HandlerReturns]]) (use 2 in \<open>simp_all add: elsewhere_def\<close>)
  next
    case 3
    then show ?thesis using runs.start [of "serve_step M longest cfg" s] unfolding elsewhere_def by blast
  qed
qed

text \<open>The goroutine of the reloads ends once the context is cancelled.\<close>

lemma reloader_ends:
  assumes "serve_inv s" "cancelled s"
  shows "\<exists>s'. serves_to M longest cfg s s' \<and> pc s' = pc s \<and> cancelled s' \<and> reloader s' = Gone"
proof -
  have waiting: "\<exists>s'. serves_to M longest cfg s1 s' \<and> pc s' = pc s1 \<and> cancelled s' \<and> reloader s' = Gone"
    if "reloader s1 = Waiting" "cancelled s1" for s1
    using serves_to_step [OF serve_step.ReloaderEnds [OF that]] that by fastforce
  show ?thesis
  proof (cases "reloader s")
    case Waiting
    then show ?thesis using waiting assms by blast
  next
    case Loaded
    then obtain db dbs where dbs: "loading (sys s) = db # dbs"
      using serve_invD(4) [OF assms(1)] by (cases "loading (sys s)") auto
    obtain sv w where inst: "svc_install M close_after db (svc (sys s)) (world (sys s)) = (sv, w)" by fastforce
    note st = serve_step.HupInstalls [OF Loaded dbs inst, of longest cfg]
    let ?s = "s\<lparr>sys := (sys s)\<lparr>svc := sv, world := w, loading := dbs\<rparr>, reloader := Waiting\<rparr>"
    obtain s' where "serves_to M longest cfg ?s s'" "pc s' = pc ?s" "cancelled s'" "reloader s' = Gone"
      using waiting [of ?s] assms(2) by auto
    then show ?thesis using serves_to_trans [OF _ serves_to_step [OF st]] by auto
  next
    case Gone
    then show ?thesis using assms(2) runs.start [of "serve_step M longest cfg" s] by blast
  qed
qed

text \<open>With the context cancelled, the reloads over and no gRPC handler left, the main goroutine is not stuck.\<close>

fun distance :: "main_pc \<Rightarrow> nat" where
  "distance ListenHTTP = 11" | "distance ListenGRPC = 10" | "distance Spawn = 9" | "distance Select = 8"
| "distance (StopHTTP _) = 7" | "distance (WaitHTTP _) = 6" | "distance (StopGRPC _) = 5"
| "distance (WaitGRPC _) = 4" | "distance (ServeReturned _) = 3" | "distance (Join _) = 2"
| "distance (CloseService _) = 1" | "distance (Exited _) = 0"

definition unblocked :: "server \<Rightarrow> bool" where
  "unblocked s \<longleftrightarrow> cancelled s \<and> reloader s = Gone \<and> running (grpc s) = 0"


lemma main_advances:
  assumes "unblocked s" "\<not> exited (pc s)"
  shows "\<exists>s1. serve_step M longest cfg s s1 \<and> unblocked s1 \<and> distance (pc s1) < distance (pc s)"
proof -
  have adv: ?thesis if "serve_step M longest cfg s s1" "unblocked s1" "distance (pc s1) < distance (pc s)" for s1
    using that by blast
  show ?thesis
  proof (cases "pc s")
    case ListenHTTP
    then show ?thesis using assms(1)
      by (cases "httpAddr cfg = []")
         (rule adv [OF serve_step.NoHTTP] adv [OF serve_step.HTTPListens]; simp add: unblocked_def)+
  next
    case ListenGRPC
    then show ?thesis using assms(1)
      by (cases "grpcAddr cfg = []")
         (rule adv [OF serve_step.NoGRPC] adv [OF serve_step.GRPCListens]; simp add: unblocked_def)+
  next
    case Spawn
    then show ?thesis using assms(1) by (intro adv [OF serve_step.Spawns]) (simp_all add: unblocked_def)
  next
    case Select
    then show ?thesis using assms(1) by (intro adv [OF serve_step.SelectCancelled]) (simp_all add: unblocked_def)
  next
    case (StopHTTP r)
    show ?thesis
    proof (cases "goroutine (http s) = NotStarted")
      case True
      then show ?thesis using StopHTTP assms(1)
        by (intro adv [OF serve_step.NoHTTPServer]) (simp_all add: unblocked_def)
    next
      case False
      then show ?thesis using StopHTTP assms(1)
        by (intro adv [OF serve_step.StopsHTTP]) (simp_all add: unblocked_def)
    qed
  next
    case (WaitHTTP r)
    show ?thesis
    proof (cases "running (http s) = 0")
      case True
      then show ?thesis using WaitHTTP assms(1)
        by (intro adv [OF serve_step.HTTPDrained]) (simp_all add: unblocked_def)
    next
      case False
      then show ?thesis using WaitHTTP assms(1)
        by (intro adv [OF serve_step.HTTPTimeout]) (simp_all add: unblocked_def)
    qed
  next
    case (StopGRPC r)
    show ?thesis
    proof (cases "goroutine (grpc s) = NotStarted")
      case True
      then show ?thesis using StopGRPC assms(1)
        by (intro adv [OF serve_step.NoGRPCServer]) (simp_all add: unblocked_def)
    next
      case False
      then show ?thesis using StopGRPC assms(1)
        by (intro adv [OF serve_step.StopsGRPC]) (simp_all add: unblocked_def stop_side_def)
    qed
  next
    case (WaitGRPC r)
    then show ?thesis using assms(1) by (intro adv [OF serve_step.GRPCDrained]) (simp_all add: unblocked_def)
  next
    case (ServeReturned r)
    then show ?thesis using assms(1) by (intro adv [OF serve_step.Cancels]) (simp_all add: unblocked_def)
  next
    case (Join r)
    then show ?thesis using assms(1) by (intro adv [OF serve_step.Joins]) (simp_all add: unblocked_def)
  next
    case (CloseService r)
    obtain err sv w where "svc_Close M (svc (sys s)) (world (sys s)) = (err, sv, w)" by (metis prod_cases3)
    then show ?thesis using CloseService assms(1) by (intro adv [OF serve_step.Closes]) (simp_all add: unblocked_def)
  next
    case (Exited r)
    then show ?thesis using assms(2) by simp
  qed
qed

lemma main_exits: "unblocked s \<Longrightarrow> \<exists>s'. serves_to M longest cfg s s' \<and> exited (pc s')"
proof (induction "distance (pc s)" arbitrary: s rule: less_induct)
  case less
  show ?case
  proof (cases "exited (pc s)")
    case True
    then show ?thesis using runs.start [of "serve_step M longest cfg" s] by blast
  next
    case False
    then obtain s1 where s1: "serve_step M longest cfg s s1" "unblocked s1" "distance (pc s1) < distance (pc s)"
      using main_advances [OF less.prems] by blast
    then obtain s2 where "serves_to M longest cfg s1 s2" "exited (pc s2)" using less.hyps by blast
    then show ?thesis using serves_to_trans [OF _ serves_to_step [OF s1(1)]] by blast
  qed
qed



section \<open>A run\<close>

text \<open>A server of HTTP only, interrupted while a handler is inside a lookup; and one whose gRPC port is taken.\<close>

definition sample_config :: serveConfig where
  "sample_config = \<lparr>httpAddr = '':8080'', grpcAddr = []\<rparr>"

definition http_server :: "main_pc \<Rightarrow> server_side \<Rightarrow> bool \<Rightarrow> server" where
  "http_server p x c = (boot (fresh_system\<lparr>inflight := replicate (busy x) (handle 0, 0)\<rparr>))\<lparr>pc := p, http := x, cancelled := c\<rparr>"

definition serving_http :: "serve_goroutine \<Rightarrow> nat \<Rightarrow> nat \<Rightarrow> server_side" where
  "serving_http g n b = \<lparr>listener = Listening, goroutine = g, stopping = False, running = n, busy = b\<rparr>"

definition interrupted_server :: server where
  "interrupted_server = http_server (WaitHTTP None) (stop_side (serving_http Accepting 1 1)) True"

lemma interrupted_run: "serves_to always_open 1000 sample_config (boot fresh_system) interrupted_server"
proof -
  note defs = http_server_def serving_http_def boot_def idle_side_def sample_config_def fresh_system_def serving_def
  let ?st = "serve_step always_open 1000 sample_config"
  have b: "boot fresh_system = http_server ListenHTTP idle_side False" by (simp add: defs)
  have 1: "?st (http_server ListenHTTP idle_side False) (http_server ListenGRPC (serving_http NotStarted 0 0) False)"
    using serve_step.HTTPListens [of "http_server ListenHTTP idle_side False" sample_config] by (simp add: defs)
  have 2: "?st (http_server ListenGRPC (serving_http NotStarted 0 0) False) (http_server Spawn (serving_http NotStarted 0 0) False)"
    using serve_step.NoGRPC [of "http_server ListenGRPC (serving_http NotStarted 0 0) False" sample_config] by (simp add: defs)
  have 3: "?st (http_server Spawn (serving_http NotStarted 0 0) False) (http_server Select (serving_http Spawned 0 0) False)"
    using serve_step.Spawns [of "http_server Spawn (serving_http NotStarted 0 0) False"] by (simp add: defs)
  have 4: "?st (http_server Select (serving_http Spawned 0 0) False) (http_server Select (serving_http Accepting 0 0) False)"
    using serve_step.HTTPStep [OF side_step.Accept, of "http_server Select (serving_http Spawned 0 0) False"]
    by (simp add: defs)
  have 5: "?st (http_server Select (serving_http Accepting 0 0) False) (http_server Select (serving_http Accepting 1 0) False)"
    using serve_step.HTTPStep [OF side_step.HandlerStarts, of "http_server Select (serving_http Accepting 0 0) False"]
    by (simp add: defs)
  have 6: "?st (http_server Select (serving_http Accepting 1 0) False) (http_server Select (serving_http Accepting 1 1) False)"
    using serve_step.HTTPLookup [of "http_server Select (serving_http Accepting 1 0) False" "handle 0"] by (simp add: defs)
  have 7: "?st (http_server Select (serving_http Accepting 1 1) False) (http_server Select (serving_http Accepting 1 1) True)"
    using serve_step.Interrupt [of always_open 1000 sample_config "http_server Select (serving_http Accepting 1 1) False"]
    by (simp add: defs)
  have 8: "?st (http_server Select (serving_http Accepting 1 1) True) (http_server (StopHTTP None) (serving_http Accepting 1 1) True)"
    using serve_step.SelectCancelled [of "http_server Select (serving_http Accepting 1 1) True"] by (simp add: defs)
  have 9: "?st (http_server (StopHTTP None) (serving_http Accepting 1 1) True) interrupted_server"
    using serve_step.StopsHTTP [of "http_server (StopHTTP None) (serving_http Accepting 1 1) True" None]
    by (simp add: defs stop_side_def interrupted_server_def)
  have "serves_to always_open 1000 sample_config (http_server ListenHTTP idle_side False) interrupted_server"
    by (rule serves_to_step [OF 1, THEN serves_to_more, OF 2, THEN serves_to_more, OF 3,
        THEN serves_to_more, OF 4, THEN serves_to_more, OF 5, THEN serves_to_more, OF 6,
        THEN serves_to_more, OF 7, THEN serves_to_more, OF 8, THEN serves_to_more, OF 9])
  then show ?thesis by (simp only: b)
qed

definition port_taken :: server where
  "port_taken = (boot fresh_system)\<lparr>http := idle_side\<lparr>listener := ListenerClosed\<rparr>,
     pc := ServeReturned (Some (Errorf ''grpc listen: %w'' [E (LibErr ''address already in use'' [])]))\<rparr>"

lemma port_taken_run:
  "serves_to always_open 1000 \<lparr>httpAddr = '':8080'', grpcAddr = '':9090''\<rparr> (boot fresh_system) port_taken"
proof -
  let ?cfg = "\<lparr>httpAddr = '':8080'', grpcAddr = '':9090''\<rparr>"
  let ?st = "serve_step always_open 1000 ?cfg"
  let ?s = "http_server ListenGRPC (serving_http NotStarted 0 0) False"
  note defs = http_server_def serving_http_def boot_def idle_side_def fresh_system_def port_taken_def
  have 1: "?st (boot fresh_system) ?s"
    using serve_step.HTTPListens [of "boot fresh_system" ?cfg] by (simp add: defs)
  have 2: "?st ?s port_taken"
    using serve_step.GRPCListenFails [of ?s ?cfg] by (simp add: defs)
  show ?thesis by (rule serves_to_more [OF serves_to_step [OF 1] 2])
qed


theorem clean_shutdown_witness:
  "serves_to always_open 1000 sample_config (boot fresh_system) interrupted_server \<and>
   stopping (http interrupted_server) \<and> rdr (handle 0) \<in> mapped (world (sys interrupted_server))"
proof -
  have a: "\<not> abandoned interrupted_server" "(handle 0, 0) \<in> set (inflight (sys interrupted_server))"
    "stopping (http interrupted_server)"
    by (simp_all add: interrupted_server_def http_server_def boot_def stop_side_def serving_http_def)
  have "(1000 :: int) < closeGrace" by (simp add: closeGrace_def)
  from clean_shutdown [OF always_open_contract _ this fresh_started interrupted_run a(1,2)] a(3)
  show ?thesis using interrupted_run by simp
qed

theorem serve_cleanup_witness:
  "serve_returned (pc port_taken) \<and> listener (http port_taken) = ListenerClosed \<and> stopped (http port_taken)"
proof -
  have r: "serve_returned (pc port_taken)" "listener (http port_taken) = ListenerClosed"
    by (simp_all add: port_taken_def)
  from serve_cleanup [OF fresh_started port_taken_run r(1)] r show ?thesis by blast
qed



text \<open>
  What \<open>clean_shutdown\<close> excludes does happen: the HTTP server is given five seconds, a handler that takes
  longer is abandoned in the middle of a lookup, and the service is closed under it.
\<close>

lemma abandoned_lookup_unmapped:
  "\<exists>s. serves_to always_open 1000 sample_config (boot fresh_system) s \<and> abandoned s \<and>
     (handle 0, 0) \<in> set (inflight (sys s)) \<and> mapped (world (sys s)) = {}"
proof -
  let ?st = "serve_step always_open 1000 sample_config"
  let ?s0 = interrupted_server
  let ?s1 = "?s0\<lparr>abandoned := True, pc := StopGRPC None\<rparr>"
  let ?s2 = "?s1\<lparr>pc := ServeReturned None\<rparr>"
  let ?s3 = "?s2\<lparr>cancelled := True, pc := Join None\<rparr>"
  let ?s4 = "?s3\<lparr>reloader := Gone\<rparr>"
  let ?s5 = "?s4\<lparr>pc := CloseService None\<rparr>"
  let ?sv = "(serving 0)\<lparr>svcClosed := True\<rparr>" and ?w = "(world fresh_system)\<lparr>mapped := {}\<rparr>"
  let ?s6 = "?s5\<lparr>sys := (sys ?s5)\<lparr>svc := ?sv, world := ?w\<rparr>, pc := Exited None\<rparr>"
  note defs = interrupted_server_def http_server_def serving_http_def stop_side_def boot_def idle_side_def fresh_system_def
  have 1: "?st ?s0 ?s1" by (rule serve_step.HTTPTimeout) (simp_all add: defs)
  have 2: "?st ?s1 ?s2" by (rule serve_step.NoGRPCServer) (simp_all add: defs)
  have 3: "?st ?s2 ?s3" by (rule serve_step.Cancels) simp
  have 4: "?st ?s3 ?s4" by (rule serve_step.ReloaderEnds) (simp_all add: defs)
  have 5: "?st ?s4 ?s5" by (rule serve_step.Joins) simp_all
  have 6: "?st ?s5 ?s6"
    by (rule serve_step.Closes [where err = None])
       (simp_all add: defs svc_Close_def CloseDB_def always_open_def serving_def handle_def)
  have "serves_to always_open 1000 sample_config (boot fresh_system) ?s6"
    by (rule interrupted_run [THEN serves_to_more, OF 1, THEN serves_to_more, OF 2, THEN serves_to_more, OF 3,
        THEN serves_to_more, OF 4, THEN serves_to_more, OF 5, THEN serves_to_more, OF 6])
  then show ?thesis by (rule exI [of _ ?s6, OF conjI]) (simp add: defs)
qed

end
