(* ===== verification/Flags.thy ===== *)
theory Flags
  imports Text Netip_Text Float64
begin

text \<open>
  The package \<open>flag\<close> of the Go standard library, as the commands use it: flags of four kinds, the
  parser of \<open>FlagSet\<close> under \<open>ContinueOnError\<close>, and the functions of \<open>strconv\<close> behind its values.
\<close>

section \<open>Numbers\<close>

text \<open>\<open>strconv.ParseBool\<close>.\<close>

definition ParseBool :: "string \<Rightarrow> bool option" where
  "ParseBool s =
     (if s \<in> {''1'', ''t'', ''T'', ''TRUE'', ''true'', ''True''} then Some True
      else if s \<in> {''0'', ''f'', ''F'', ''FALSE'', ''false'', ''False''} then Some False else None)"

datatype num_error = ErrSyntax | ErrRange

text \<open>\<open>strconv.ParseInt(s, 0, 64)\<close>: a sign, a prefix for the base, and digits with underscores.\<close>

definition alnum_val :: "char \<Rightarrow> int option" where
  "alnum_val c = (let l = lower_char c in
     if is_digit c then Some (digit_val c)
     else if char_in (CHR ''a'') l (CHR ''z'') then Some (byte l - 97 + 10) else None)"

fun digits_loop :: "int \<Rightarrow> string \<Rightarrow> int \<Rightarrow> num_error + int" where
  "digits_loop base [] n = Inr n"
| "digits_loop base (c # cs) n =
     (if c = CHR ''_'' then digits_loop base cs n
      else (case alnum_val c of
         None \<Rightarrow> Inl ErrSyntax
       | Some d \<Rightarrow> if d \<ge> base then Inl ErrSyntax
           else if n * base + d \<ge> 2 ^ 64 then Inl ErrRange else digits_loop base cs (n * base + d)))"

definition base_prefix :: "string \<Rightarrow> int option" where
  "base_prefix s = (case s of
     c # b # _ \<Rightarrow> if c = CHR ''0'' then
         (let l = lower_char b in
          if l = CHR ''b'' then Some 2 else if l = CHR ''o'' then Some 8 else if l = CHR ''x'' then Some 16 else None)
       else None
   | _ \<Rightarrow> None)"

text \<open>An underscore stands between digits, or between the prefix and a digit. \<open>prev\<close> is the kind of
  the last character: a digit, an underscore, or another.\<close>

fun underscore_loop :: "bool \<Rightarrow> char \<Rightarrow> string \<Rightarrow> bool" where
  "underscore_loop hex prev [] \<longleftrightarrow> prev \<noteq> CHR ''_''"
| "underscore_loop hex prev (c # cs) \<longleftrightarrow>
     (if is_digit c \<or> hex \<and> char_in (CHR ''a'') (lower_char c) (CHR ''f'') then underscore_loop hex (CHR ''0'') cs
      else if c = CHR ''_'' then prev = CHR ''0'' \<and> underscore_loop hex (CHR ''_'') cs
      else prev \<noteq> CHR ''_'' \<and> underscore_loop hex (CHR ''!'') cs)"

definition underscoreOK :: "string \<Rightarrow> bool" where
  "underscoreOK s = (case base_prefix s of
     Some b \<Rightarrow> underscore_loop (b = 16) (CHR ''0'') (drop 2 s)
   | None \<Rightarrow> underscore_loop False (CHR ''^'') s)"

text \<open>The number without its sign.\<close>

definition ParseUint0 :: "string \<Rightarrow> num_error + int" where
  "ParseUint0 s =
     (if s = [] then Inl ErrSyntax
      else (let r = (case base_prefix s of
               Some b \<Rightarrow> if length s \<ge> 3 then digits_loop b (drop 2 s) 0 else digits_loop 8 (tl s) 0
             | None \<Rightarrow> if hd s = CHR ''0'' then digits_loop 8 (tl s) 0 else digits_loop 10 s 0)
         in if isl r then r else if CHR ''_'' \<in> set s \<and> \<not> underscoreOK s then Inl ErrSyntax else r))"

definition split_sign :: "string \<Rightarrow> bool \<times> string" where
  "split_sign s = (case s of
     c # cs \<Rightarrow> if c = CHR ''-'' then (True, cs) else if c = CHR ''+'' then (False, cs) else (False, s)
   | [] \<Rightarrow> (False, []))"

definition ParseInt0 :: "string \<Rightarrow> num_error + int" where
  "ParseInt0 s = (case split_sign s of (neg, s) \<Rightarrow>
     (case ParseUint0 s of
        Inl err \<Rightarrow> Inl err
      | Inr un \<Rightarrow>
          if \<not> neg \<and> un \<ge> 2 ^ 63 then Inl ErrRange else if neg \<and> un > 2 ^ 63 then Inl ErrRange
          else Inr (if neg then - un else un)))"

text \<open>
  \<open>strconv.ParseFloat(s, 64)\<close> on decimal notation whose value is zero or a normal number: the
  exact value, rounded. The other texts (hexadecimal, infinities, NaN, values beyond either end
  of the range, and those it rejects) are left to \<open>other\<close>.
\<close>

definition decimal_exp :: "string \<Rightarrow> int option" where
  "decimal_exp s = (case s of
     [] \<Rightarrow> Some 0
   | c # cs \<Rightarrow> if lower_char c = CHR ''e'' then
         (case split_sign cs of (neg, ds) \<Rightarrow>
            if ds \<noteq> [] \<and> list_all is_digit ds then Some (if neg then - decimal_acc 0 ds else decimal_acc 0 ds) else None)
       else None)"

definition decimal_value :: "string \<Rightarrow> rat option" where
  "decimal_value s = (case split_sign s of (neg, s) \<Rightarrow>
     (let whole = takeWhile is_digit s; s = dropWhile is_digit s;
          point = (s \<noteq> [] \<and> hd s = CHR ''.'');
          frac = (if point then takeWhile is_digit (tl s) else []);
          s = (if point then dropWhile is_digit (tl s) else s)
      in if whole = [] \<and> frac = [] then None
         else (case decimal_exp s of
             None \<Rightarrow> None
           | Some e \<Rightarrow>
               (let m = decimal_acc 0 (whole @ frac); e = e - int (length frac)
                in if m = 0 then Some 0
                   else if \<bar>e + int (length (whole @ frac))\<bar> > 400 then None
                   else Some ((if neg then -1 else 1) * of_int m * 10 powi e)))))"

definition normal_range :: "rat \<Rightarrow> bool" where
  "normal_range q \<longleftrightarrow> q = 0 \<or> 1 / 2 ^ 1022 \<le> \<bar>q\<bar> \<and> \<bar>q\<bar> < 2 ^ 1024 - 2 ^ 970"

type_synonym float_texts = "string \<Rightarrow> num_error + float64"

definition ParseFloat :: "float_texts \<Rightarrow> string \<Rightarrow> num_error + float64" where
  "ParseFloat other s = (case decimal_value s of
     Some q \<Rightarrow> if normal_range q then Inr (rnd q) else other s
   | None \<Rightarrow> other s)"

section \<open>Flag sets\<close>

datatype flag_value = BoolV bool | IntV int | FloatV float64 | StringV string

text \<open>The defined flags with their values, which of them were given, and the arguments left.\<close>

record flag_set =
  fsName :: string
  formal :: "string \<rightharpoonup> flag_value"
  actual :: "string list"
  fsArgs :: "string list"

definition flag_ErrHelp :: error where
  "flag_ErrHelp = LibErr ''flag: help requested'' []"

definition num_message :: "num_error \<Rightarrow> error" where
  "num_message e = (case e of
     ErrSyntax \<Rightarrow> LibErr ''parse error'' [] | ErrRange \<Rightarrow> LibErr ''value out of range'' [])"

text \<open>\<open>Value.Set\<close>: the value keeps its kind.\<close>

definition flag_Set :: "float_texts \<Rightarrow> string \<Rightarrow> flag_value \<Rightarrow> error + flag_value" where
  "flag_Set F s v = (case v of
     BoolV _ \<Rightarrow> (case ParseBool s of None \<Rightarrow> Inl (num_message ErrSyntax) | Some b \<Rightarrow> Inr (BoolV b))
   | IntV _ \<Rightarrow> (case ParseInt0 s of Inl e \<Rightarrow> Inl (num_message e) | Inr n \<Rightarrow> Inr (IntV n))
   | FloatV _ \<Rightarrow> (case ParseFloat F s of Inl e \<Rightarrow> Inl (num_message e) | Inr x \<Rightarrow> Inr (FloatV x))
   | StringV _ \<Rightarrow> Inr (StringV s))"

definition is_bool :: "flag_value \<Rightarrow> bool" where
  "is_bool v = (case v of BoolV _ \<Rightarrow> True | _ \<Rightarrow> False)"

text \<open>A flag given: its name, and its value if the argument has one after an equals sign.\<close>

definition split_name :: "string \<Rightarrow> string \<times> string option" where
  "split_name s = (let rest = dropWhile (\<lambda>c. c \<noteq> CHR ''='') (tl s) in
     (hd s # takeWhile (\<lambda>c. c \<noteq> CHR ''='') (tl s), if rest = [] then None else Some (tl rest)))"

definition set_flag :: "float_texts \<Rightarrow> string \<Rightarrow> flag_value \<Rightarrow> string option \<Rightarrow> flag_set \<Rightarrow> (error + bool) \<times> flag_set" where
  "set_flag F name v given fs =
     (let done = (\<lambda>v' fs. (Inr True, fs\<lparr>formal := (formal fs)(name \<mapsto> v'), actual := name # actual fs\<rparr>)) in
      if is_bool v then
        (case given of
           Some value \<Rightarrow> (case flag_Set F value v of
               Inl err \<Rightarrow> (Inl (Errorf ''invalid boolean value %q for -%s: %v'' [S value, S name, E err]), fs)
             | Inr v' \<Rightarrow> done v' fs)
         | None \<Rightarrow> (case flag_Set F ''true'' v of
               Inl err \<Rightarrow> (Inl (Errorf ''invalid boolean flag %s: %v'' [S name, E err]), fs)
             | Inr v' \<Rightarrow> done v' fs))
      else (case (if given = None \<and> fsArgs fs \<noteq> [] then (Some (hd (fsArgs fs)), fs\<lparr>fsArgs := tl (fsArgs fs)\<rparr>)
                  else (given, fs)) of
          (None, fs) \<Rightarrow> (Inl (Errorf ''flag needs an argument: -%s'' [S name]), fs)
        | (Some value, fs) \<Rightarrow> (case flag_Set F value v of
              Inl err \<Rightarrow> (Inl (Errorf ''invalid value %q for flag -%s: %v'' [S value, S name, E err]), fs)
            | Inr v' \<Rightarrow> done v' fs)))"

definition parseOne :: "float_texts \<Rightarrow> flag_set \<Rightarrow> (error + bool) \<times> flag_set" where
  "parseOne F fs = (case fsArgs fs of
     [] \<Rightarrow> (Inr False, fs)
   | s # args \<Rightarrow>
       if length s < 2 \<or> hd s \<noteq> CHR ''-'' then (Inr False, fs)
       else if s = ''--'' then (Inr False, fs\<lparr>fsArgs := args\<rparr>)
       else (let name = (if s ! 1 = CHR ''-'' then drop 2 s else tl s) in
         if name = [] \<or> hd name = CHR ''-'' \<or> hd name = CHR ''='' then
           (Inl (Errorf ''bad flag syntax: %s'' [S s]), fs)
         else (case split_name name of (name, given) \<Rightarrow>
             (let fs = fs\<lparr>fsArgs := args\<rparr> in
              case formal fs name of
                None \<Rightarrow>
                  (Inl (if name = ''help'' \<or> name = ''h'' then flag_ErrHelp
                        else Errorf ''flag provided but not defined: -%s'' [S name]), fs)
              | Some v \<Rightarrow> set_flag F name v given fs))))"

lemma set_flag_args: "set_flag F name v given fs = (Inr True, fs') \<Longrightarrow> length (fsArgs fs') \<le> length (fsArgs fs)"
  by (auto simp: set_flag_def Let_def split: if_splits option.splits sum.splits)

lemma parseOne_shorter: "parseOne F fs = (Inr True, fs') \<Longrightarrow> length (fsArgs fs') < length (fsArgs fs)"
  by (auto simp: parseOne_def Let_def split: list.splits if_splits option.splits prod.splits dest!: set_flag_args)

function flag_Parse :: "float_texts \<Rightarrow> flag_set \<Rightarrow> error option \<times> flag_set" where
  "flag_Parse F fs = (case parseOne F fs of
     (Inl err, fs) \<Rightarrow> (Some err, fs)
   | (Inr False, fs) \<Rightarrow> (None, fs)
   | (Inr True, fs) \<Rightarrow> flag_Parse F fs)"
  by pat_completeness auto
termination
  by (relation "measure (\<lambda>(_, fs). length (fsArgs fs))") (auto dest: parseOne_shorter sym)

declare flag_Parse.simps [simp del]

definition NewFlagSet :: "string \<Rightarrow> (string \<times> flag_value) list \<Rightarrow> string list \<Rightarrow> flag_set" where
  "NewFlagSet name specs args = \<lparr>fsName = name, formal = map_of specs, actual = [], fsArgs = args\<rparr>"

definition string_flag :: "flag_set \<Rightarrow> string \<Rightarrow> string" where
  "string_flag fs name = (case formal fs name of Some (StringV s) \<Rightarrow> s | _ \<Rightarrow> [])"

definition bool_flag :: "flag_set \<Rightarrow> string \<Rightarrow> bool" where
  "bool_flag fs name = (case formal fs name of Some (BoolV b) \<Rightarrow> b | _ \<Rightarrow> False)"

definition int_flag :: "flag_set \<Rightarrow> string \<Rightarrow> int" where
  "int_flag fs name = (case formal fs name of Some (IntV n) \<Rightarrow> n | _ \<Rightarrow> 0)"

definition float_flag :: "flag_set \<Rightarrow> string \<Rightarrow> float64" where
  "float_flag fs name = (case formal fs name of Some (FloatV x) \<Rightarrow> x | _ \<Rightarrow> 0)"

end
