(* ===== verification/Command.thy ===== *)
theory Command
  imports Build_Cmd Serve Flags
begin

text \<open>
  The command line: \<open>cmd/cloudattr/main.go\<close>, which picks the command and sets the exit status,
  and the flag sets of the five commands (the heads of \<open>runBuild\<close>, \<open>runLookup\<close>, \<open>runExport\<close>,
  \<open>runVerify\<close> and \<open>runServe\<close>).
\<close>

section \<open>The program\<close>

text \<open>
  Next to the machine: \<open>strconv.ParseFloat\<close> on texts that are not plain decimals, and the blocking part
  of \<open>serve\<close>, from the loaded service to the value it returns (Serve.thy has its steps).
\<close>

record ('t, 'h, 'w) program =
  prMachine :: "('t, 'h, 'w) machine"
  prFloats :: float_texts
  prServe :: "serveConfig \<Rightarrow> 'h service \<Rightarrow> 'w \<Rightarrow> error option \<times> 'h service \<times> 'w"

definition usage_of :: "string \<Rightarrow> out" where
  "usage_of name = Message (LibErr ''usage'' [name])"

text \<open>
  \<open>fs.Parse\<close>: a failure is named on standard error, with the usage of the command; a request for
  help shows the usage only. Both are errors.
\<close>

definition fs_Parse :: "float_texts \<Rightarrow> flag_set \<Rightarrow> 'x cli_scheme \<Rightarrow> (error + flag_set) \<times> 'x cli_scheme" where
  "fs_Parse F fs w = (case flag_Parse F fs of
     (None, fs) \<Rightarrow> (Inr fs, w)
   | (Some err, fs) \<Rightarrow>
       (Inl err, say (usage_of (fsName fs)) (if err = flag_ErrHelp then w else say (Message err) w)))"

text \<open>A command on its arguments: parse its flags, then run.\<close>

definition with_flags :: "float_texts \<Rightarrow> flag_set \<Rightarrow> (flag_set \<Rightarrow> 'x cli_scheme \<Rightarrow> error option \<times> 'x cli_scheme) \<Rightarrow>
    'x cli_scheme \<Rightarrow> error option \<times> 'x cli_scheme" where
  "with_flags F fs run w = (case fs_Parse F fs w of
     (Inl err, w) \<Rightarrow> (Some err, w)
   | (Inr fs, w) \<Rightarrow> run fs w)"

section \<open>build\<close>

definition build_specs :: "(string \<times> flag_value) list" where
  "build_specs = [(''source'', StringV ''rezmoss''), (''fixtures'', StringV []), (''providers'', StringV []),
     (''out'', StringV []), (''csv'', StringV []), (''record-size'', IntV 28), (''max-drop'', FloatV (1 / 2)),
     (''max-skip'', FloatV (1 / 4)), (''reputation'', BoolV False), (''with-reputation'', BoolV False),
     (''reputation-source'', StringV ''direct''), (''asn'', BoolV False), (''with-asn'', BoolV False),
     (''asn-source'', StringV ''direct''), (''keep-going'', BoolV True), (''pins'', StringV []),
     (''print-digests'', BoolV False)]"

definition build_flags_of :: "flag_set \<Rightarrow> build_flags" where
  "build_flags_of fs =
     \<lparr>fSource = string_flag fs ''source'', fFixtures = string_flag fs ''fixtures'', fProviders = string_flag fs ''providers'',
      fOut = string_flag fs ''out'', fCsv = string_flag fs ''csv'', fRecordSize = int_flag fs ''record-size'',
      fMaxDrop = float_flag fs ''max-drop'', fMaxSkip = float_flag fs ''max-skip'', fReputation = bool_flag fs ''reputation'',
      fWithReputation = bool_flag fs ''with-reputation'', fRepSource = string_flag fs ''reputation-source'',
      fAsn = bool_flag fs ''asn'', fWithASN = bool_flag fs ''with-asn'', fAsnSource = string_flag fs ''asn-source'',
      fKeepGoing = bool_flag fs ''keep-going'', fPins = string_flag fs ''pins'', fPrintDigests = bool_flag fs ''print-digests'',
      sourceSet = (''source'' \<in> set (actual fs)), repSourceSet = (''reputation-source'' \<in> set (actual fs)),
      asnSourceSet = (''asn-source'' \<in> set (actual fs))\<rparr>"

definition build_args :: "('t, 'h, 'x cli_scheme) program \<Rightarrow> string list \<Rightarrow> 'x cli_scheme \<Rightarrow> error option \<times> 'x cli_scheme" where
  "build_args p args = with_flags (prFloats p) (NewFlagSet ''build'' build_specs args)
     (\<lambda>fs. runBuild (prMachine p) (shipped (prMachine p)) (build_flags_of fs))"

section \<open>lookup, export, verify and serve\<close>

definition lookup_specs :: "(string \<times> flag_value) list" where
  "lookup_specs = [(''in'', StringV ''cloud.mmdb''), (''format'', StringV ''text''), (''f'', StringV [])]"

definition lookup_args :: "('t, 'h, 'x cli_scheme) program \<Rightarrow> string list \<Rightarrow> 'x cli_scheme \<Rightarrow> error option \<times> 'x cli_scheme" where
  "lookup_args p args = with_flags (prFloats p) (NewFlagSet ''lookup'' lookup_specs args)
     (\<lambda>fs. runLookup (mReader (prMachine p)) (mPlatform (prMachine p))
        \<lparr>luIn = string_flag fs ''in'', luFormat = string_flag fs ''format'', luFile = string_flag fs ''f'', luArgs = fsArgs fs\<rparr>)"

definition export_specs :: "(string \<times> flag_value) list" where
  "export_specs = [(''in'', StringV ''cloud.mmdb''), (''out'', StringV ''-'')]"

definition export_args :: "('t, 'h, 'x cli_scheme) program \<Rightarrow> string list \<Rightarrow> 'x cli_scheme \<Rightarrow> error option \<times> 'x cli_scheme" where
  "export_args p args = with_flags (prFloats p) (NewFlagSet ''export'' export_specs args)
     (\<lambda>fs. runExport (mReader (prMachine p)) (mPick (prMachine p))
        \<lparr>exIn = string_flag fs ''in'', exOut = string_flag fs ''out''\<rparr>)"

definition verify_specs :: "(string \<times> flag_value) list" where
  "verify_specs = [(''in'', StringV ''cloud.mmdb'')]"

definition verify_args :: "('t, 'h, 'x cli_scheme) program \<Rightarrow> string list \<Rightarrow> 'x cli_scheme \<Rightarrow> error option \<times> 'x cli_scheme" where
  "verify_args p args = with_flags (prFloats p) (NewFlagSet ''verify'' verify_specs args)
     (\<lambda>fs. runVerify (mReader (prMachine p)) (mNow (prMachine p)) (string_flag fs ''in''))"

definition serve_specs :: "(string \<times> flag_value) list" where
  "serve_specs = [(''in'', StringV ''cloud.mmdb''), (''http'', StringV '':8080''), (''grpc'', StringV '':9090''),
     (''index'', BoolV False)]"

text \<open>The service is opened before anything listens, and closed (deferred) whatever \<open>serve\<close> returned.\<close>

definition runServe :: "('h, 'w) maxminddb \<Rightarrow> (serveConfig \<Rightarrow> 'h service \<Rightarrow> 'w \<Rightarrow> error option \<times> 'h service \<times> 'w) \<Rightarrow>
    string \<Rightarrow> bool \<Rightarrow> serveConfig \<Rightarrow> 'w \<Rightarrow> error option \<times> 'w" where
  "runServe M serve path index cfg w = (case NewServiceIndexed M path index w of
     (Inl err, w) \<Rightarrow> (Some err, w)
   | (Inr sv, w) \<Rightarrow>
       (case serve cfg sv w of (err, sv, w) \<Rightarrow>
          (case svc_Close M sv w of (_, sv, w) \<Rightarrow> (err, w))))"

definition serve_args :: "('t, 'h, 'x cli_scheme) program \<Rightarrow> string list \<Rightarrow> 'x cli_scheme \<Rightarrow> error option \<times> 'x cli_scheme" where
  "serve_args p args = with_flags (prFloats p) (NewFlagSet ''serve'' serve_specs args)
     (\<lambda>fs. runServe (mReader (prMachine p)) (prServe p) (string_flag fs ''in'') (bool_flag fs ''index'')
        \<lparr>httpAddr = string_flag fs ''http'', grpcAddr = string_flag fs ''grpc''\<rparr>)"

section \<open>main\<close>

definition usage :: "'x cli_scheme \<Rightarrow> 'x cli_scheme" where
  "usage = say (usage_of ''cloudattr'')"

definition run_command :: "('t, 'h, 'x cli_scheme) program \<Rightarrow> string \<Rightarrow> string list \<Rightarrow> 'x cli_scheme \<Rightarrow>
    (error option \<times> 'x cli_scheme) option" where
  "run_command p cmd args w =
     (if cmd = ''build'' then Some (build_args p args w)
      else if cmd = ''lookup'' then Some (lookup_args p args w)
      else if cmd = ''export'' then Some (export_args p args w)
      else if cmd = ''verify'' then Some (verify_args p args w)
      else if cmd = ''serve'' then Some (serve_args p args w)
      else None)"

text \<open>\<open>main\<close> on the arguments after the name of the program: the exit status and the world.\<close>

definition go_main :: "('t, 'h, 'x cli_scheme) program \<Rightarrow> string list \<Rightarrow> 'x cli_scheme \<Rightarrow> nat \<times> 'x cli_scheme" where
  "go_main p argv w = (case argv of
     [] \<Rightarrow> (2, usage w)
   | cmd # args \<Rightarrow>
       (case run_command p cmd args w of
          Some (err, w) \<Rightarrow>
            (case err of
               None \<Rightarrow> (0, w)
             | Some err \<Rightarrow> (1, say (Message (Errorf ''cloudattr %s: %v'' [S cmd, E err])) w))
        | None \<Rightarrow>
            if cmd \<in> {''-h'', ''--help'', ''help''} then (0, usage w)
            else (2, usage (say (Message (Errorf ''cloudattr: unknown command %q'' [S cmd])) w))))"


section \<open>The exit status\<close>

definition specs_of :: "string \<Rightarrow> (string \<times> flag_value) list option" where
  "specs_of = map_of [(''build'', build_specs), (''lookup'', lookup_specs), (''export'', export_specs),
     (''verify'', verify_specs), (''serve'', serve_specs)]"

definition only_stderr :: "'x cli_scheme \<Rightarrow> 'x cli_scheme \<Rightarrow> bool" where
  "only_stderr w w' \<longleftrightarrow> (\<exists>ls. w' = w\<lparr>stderr := stderr w @ ls\<rparr>)"

text \<open>
  A command line that asks for nothing that can be done: no command, an unknown one, flags that do
  not parse (or ask for help), or flags of \<open>build\<close> that conflict.
\<close>

definition rejected :: "float_texts \<Rightarrow> string list \<Rightarrow> bool" where
  "rejected F argv \<longleftrightarrow> (case argv of
     [] \<Rightarrow> True
   | cmd # args \<Rightarrow> (case specs_of cmd of
       None \<Rightarrow> cmd \<notin> {''-h'', ''--help'', ''help''}
     | Some specs \<Rightarrow> (case flag_Parse F (NewFlagSet cmd specs args) of (err, fs) \<Rightarrow>
         err \<noteq> None \<or> cmd = ''build'' \<and> flag_conflict (build_flags_of fs) \<noteq> None)))"

lemma only_stderr_intros [intro, simp]:
  "only_stderr w w" "only_stderr w (say l w)" "only_stderr w w' \<Longrightarrow> only_stderr w (say l w')"
proof -
  show "only_stderr w w" unfolding only_stderr_def by (rule exI [of _ "[]"]) simp
  show "only_stderr w (say l w)" unfolding only_stderr_def say_def by (rule exI [of _ "[l]"]) simp
  show "only_stderr w (say l w')" if "only_stderr w w'"
    using that unfolding only_stderr_def say_def by auto
qed

lemma run_command_known: "run_command p cmd args w = None \<longleftrightarrow> specs_of cmd = None"
  by (simp add: run_command_def specs_of_def)

text \<open>Every command parses its flags first; when that fails nothing else happened.\<close>

lemma with_flags_bad:
  "flag_Parse F fs = (Some err, fs') \<Longrightarrow> \<exists>w'. with_flags F fs run w = (Some err, w') \<and> only_stderr w w'"
  by (simp add: with_flags_def fs_Parse_def)

lemma run_command_bad:
  assumes "specs_of cmd = Some specs" "flag_Parse (prFloats p) (NewFlagSet cmd specs args) = (Some err, fs)"
  shows "\<exists>w'. run_command p cmd args w = Some (Some err, w') \<and> only_stderr w w'"
  using assms
  by (auto simp: specs_of_def run_command_def build_args_def lookup_args_def export_args_def verify_args_def
      serve_args_def dest!: with_flags_bad split: if_splits)

lemma build_conflict:
  assumes "flag_Parse (prFloats p) (NewFlagSet ''build'' build_specs args) = (None, fs)"
    and "flag_conflict (build_flags_of fs) = Some err"
  shows "run_command p ''build'' args w = Some (Some err, w)"
  using assms by (simp add: run_command_def build_args_def with_flags_def fs_Parse_def runBuild_def)

text \<open>
  C10. The exit status: 2 exactly for a missing or unknown command, 0 exactly when help was asked for
  with a command of its own or the command returned no error, and 1 otherwise. A command line
  that is rejected, down to conflicting flags of a build, exits with a status other than 0 before
  anything was read, fetched or written: only standard error has changed.
\<close>

theorem main_exit_status:
  "case go_main p argv w of (code, w') \<Rightarrow>
     (code = 2 \<longleftrightarrow> (case argv of [] \<Rightarrow> True | cmd # _ \<Rightarrow> specs_of cmd = None \<and> cmd \<notin> {''-h'', ''--help'', ''help''})) \<and>
     (code = 0 \<longleftrightarrow> (case argv of [] \<Rightarrow> False | cmd # args \<Rightarrow>
        specs_of cmd = None \<and> cmd \<in> {''-h'', ''--help'', ''help''} \<or> run_command p cmd args w = Some (None, w'))) \<and>
     code \<le> 2 \<and> (rejected (prFloats p) argv \<longrightarrow> code \<noteq> 0 \<and> only_stderr w w')"
proof (cases argv)
  case Nil
  then show ?thesis by (simp add: go_main_def usage_def)
next
  case (Cons cmd args)
  show ?thesis
  proof (cases "run_command p cmd args w")
    case None
    then have "specs_of cmd = None" by (simp add: run_command_known)
    then show ?thesis using Cons None
      by (auto simp: go_main_def usage_def rejected_def)
  next
    case (Some r)
    obtain err w1 where r: "r = (err, w1)" by (cases r)
    obtain specs where specs: "specs_of cmd = Some specs"
      using Some run_command_known [of p cmd args w] by (cases "specs_of cmd") auto
    obtain perr fs where parse: "flag_Parse (prFloats p) (NewFlagSet cmd specs args) = (perr, fs)" by fastforce
    have bad: "err \<noteq> None \<and> only_stderr w w1" if "rejected (prFloats p) argv"
    proof (cases perr)
      case None
      then have "cmd = ''build''" "specs = build_specs" "flag_conflict (build_flags_of fs) \<noteq> None"
        using that Cons specs parse by (auto simp: rejected_def specs_of_def)
      then show ?thesis using build_conflict [of p args fs _ w] parse None Some r by auto
    next
      case (Some perr')
      then show ?thesis
        using run_command_bad [OF specs, of p args perr' fs w] parse \<open>run_command p cmd args w = Some r\<close> r by auto
    qed
    show ?thesis
      using Cons Some r specs bad by (cases err) (auto simp: go_main_def)
  qed
qed


definition no_floats :: float_texts where
  "no_floats s = Inl ErrSyntax"

definition sample_program :: "(addr \<Rightarrow> mmdb option, table, cli) program" where
  "sample_program = \<lparr>prMachine = sample_machine, prFloats = no_floats, prServe = (\<lambda>_ sv w. (None, sv, w))\<rparr>"

lemmas flag_eval = rejected_def specs_of_def build_specs_def NewFlagSet_def flag_Parse.simps parseOne_def split_name_def
  set_flag_def flag_Set_def is_bool_def ParseBool_def flag_conflict_def build_flags_of_def bool_flag_def string_flag_def
  Let_def flag_ErrHelp_def

theorem main_exit_status_witness:
  "rejected no_floats [''build'', ''--asn'', ''--with-asn=T''] \<and> rejected no_floats [''build'', ''-max-drop'', ''half''] \<and>
   \<not> rejected no_floats [''build'', ''--record-size=0x1_8'', ''-keep-going=false'', ''--'', ''-h''] \<and>
   files (snd (go_main sample_program [''build'', ''--asn'', ''--with-asn=T''] old_disk)) = files old_disk"
proof -
  have n: "ParseInt0 ''0x1_8'' = Inr 24" "ParseFloat no_floats ''half'' = Inl ErrSyntax" by code_simp+
  have r: "rejected no_floats [''build'', ''--asn'', ''--with-asn=T'']" "rejected no_floats [''build'', ''-max-drop'', ''half'']"
    "\<not> rejected no_floats [''build'', ''--record-size=0x1_8'', ''-keep-going=false'', ''--'', ''-h'']"
    by (simp_all add: flag_eval n)
  then show ?thesis
    using main_exit_status [where p = sample_program and w = old_disk and argv = "[''build'', ''--asn'', ''--with-asn=T'']"]
    by (auto simp: sample_program_def only_stderr_def split: prod.splits)
qed

end
