(* ===== verification/Spec2Isabelle.thy ===== *)
theory Spec2Isabelle
  imports Asn Plugin_Set Export Sync Handlers Command
begin

text \<open>
  A model of cloudip, the program that builds a MaxMind database of cloud networks from provider
  feeds, publishes it, and answers lookups from it over HTTP, gRPC and a command line.

  \<^bold>\<open>How the parts interact.\<close> A \<^emph>\<open>build\<close> (\<open>cmd/cloudattr/build.go\<close>) selects plugins (\<open>plugins/\<close>) from the
  registries (\<open>attribution/attribution.go\<close>), resolves them to feeds, opens every feed from its source
  (\<open>source.go\<close>), parses it into a stream of entries (\<open>pipeline.go\<close>, \<open>rezmoss.go\<close>), optionally cuts the
  entries at the announcements of the autonomous systems (\<open>asn.go\<close>), merges them into the tree of
  the writer (\<open>build.go\<close>, \<open>storage.go\<close>), and has \<open>sync.go\<close> write, reopen, walk (\<open>verify.go\<close>) and rename
  the file into place, with a CSV export (\<open>export.go\<close>) if asked. A \<^emph>\<open>server\<close> (\<open>cmd/cloudattr/serve.go\<close>) opens
  that file (\<open>reader.go\<close>) inside a service (\<open>server/service.go\<close>), answers requests (\<open>server/http.go\<close>,
  \<open>grpc.go\<close>, \<open>recover.go\<close>) and reloads the file on SIGHUP. The builder and the reader share nothing but
  the file and the schema; \<open>Build_then_Lookup\<close> below is their composition.

  \<^bold>\<open>The theories.\<close>
  \<^item> \<^theory_text>\<open>Prelude\<close>: errors as values, byte strings, the theorem collections, Go's in-place filtering;
    \<^theory_text>\<open>Runs\<close>: runs of a step relation, their invariants and simulations.
  \<^item> The standard library the program uses, from its documentation and with its order of checks:
    \<^theory_text>\<open>Iter\<close> (range-over-func), \<^theory_text>\<open>Netip\<close> and \<^theory_text>\<open>Netip_Text\<close> (\<open>net/netip\<close>), \<^theory_text>\<open>Text\<close> (UTF-8, \<open>strings\<close>, \<open>bufio\<close>),
    \<^theory_text>\<open>Timeparse\<close>, \<^theory_text>\<open>Json\<close> (lexer, parser, decoder), \<^theory_text>\<open>Float64\<close>, \<^theory_text>\<open>Flags\<close> (\<open>flag\<close>, \<open>strconv\<close>).
  \<^item> Data: \<^theory_text>\<open>Records\<close> (\<open>attribution.go\<close>), \<^theory_text>\<open>Storage\<close> (\<open>storage.go\<close>).
  \<^item> The build: \<^theory_text>\<open>Merge\<close> and \<^theory_text>\<open>Builder\<close> (\<open>build.go\<close>), \<^theory_text>\<open>Asn\<close> (\<open>asn.go\<close>), \<^theory_text>\<open>Sources\<close>, \<^theory_text>\<open>Pipeline\<close>, \<^theory_text>\<open>Rezmoss\<close>,
    \<^theory_text>\<open>Cloud_Feeds\<close>, \<^theory_text>\<open>Threat_Feeds\<close>, \<^theory_text>\<open>Plugin_Set\<close>, \<^theory_text>\<open>Sync\<close>.
  \<^item> The reading side: \<^theory_text>\<open>Reader\<close>, \<^theory_text>\<open>Verify\<close>, \<^theory_text>\<open>Export\<close>, \<^theory_text>\<open>Service\<close>, \<^theory_text>\<open>Handlers\<close> (HTTP and gRPC).
  \<^item> The commands: \<^theory_text>\<open>Query\<close> (\<open>lookup\<close>, \<open>export\<close>, \<open>verify\<close>), \<^theory_text>\<open>Effects\<close> and \<^theory_text>\<open>Build_Cmd\<close> (\<open>build\<close>), \<^theory_text>\<open>Serve\<close>
    (\<open>serve\<close>), \<^theory_text>\<open>Command\<close> (flag sets and \<open>main.go\<close>).

  \<^bold>\<open>State and operations.\<close> A struct is a record with the fields of the source; a method that changes its
  receiver returns the new state; an error result is a sum or an option, so that each early return is
  a branch. An iterator is a function of the consumer's \<open>yield\<close> and threads one state: of the
  consumer, of the files and of the network alike. The world of the commands is a record of files,
  standard streams and a script of faults, consumed one per operation, so that a claim over all
  scripts is a claim over all failures. Concurrency (reloads, lookups, timers, servers, signals) is a
  step relation: \<open>step\<close> in \<^theory_text>\<open>Service\<close>, which \<open>serve_step\<close> in \<^theory_text>\<open>Serve\<close> refines.

  \<^bold>\<open>Parameters.\<close> Third-party code appears as a record of operations, with what the program relies on as
  named hypotheses: \<open>mmdbwriter\<close> (an insert applies the inserter to each slot the network covers),
  \<open>maxminddb\<close> (handles are mapped and unmapped; a written tree is read back, \<open>serves\<close> below), \<open>netipx\<close>
  (a range is the disjoint union of its prefixes). The outside world is one, too: network, clock,
  environment, digests and decompression (\<open>platform\<close>), the names of temporary files (\<open>picker\<close>), the
  order of \<open>sort.Slice\<close>, which does not promise to be stable. Each hypothesis is shown to hold of a
  concrete instance by the witness of the claim that uses it.

  \<^bold>\<open>What the lemmas show.\<close> The merge is a fold whose result per address is known (\<open>slot_merge_entries\<close>), the
  coalesced ASN table is a normal form that announces what its rows announce, enrichment cuts without
  losing or inventing an address, parsers are iterators of lists of sound entries, a collector
  isolates failing feeds or stops at the first, opening over HTTP ends within its attempts, a
  publication or an export is all or nothing, no handle leaks or is read after it was unmapped, both
  frontends give the same answers, and no command line that is rejected has an effect. The locales
  are the interfaces: a linear order with successors for the range algorithms, the merge contract of
  the builder, the contract of a feed parser, the byte writers behind an export, invariants and
  simulations of step relations; each is interpreted
  on the definitions of the program in the theory that provides them.

  \<^bold>\<open>Bounds and fuel.\<close> No definition uses fuel: loops recurse on their input, or terminate by a measure
  (text left to parse, attempts left, arguments left). Integers are kept at their width where the code
  can wrap or overflow: addresses are 128-bit words, timestamps 64-bit, AS numbers 32-bit, counters of
  the service 64-bit. Lengths and counts of entries are natural numbers, as memory bounds them first.

  \<^bold>\<open>Not modelled.\<close>
  \<^item> The bytes of JSON and protobuf responses and the generated stubs (\<open>proto/cloudattrpb\<close>): a response is
    the status and the value handed to the encoder. A nil slice and an empty one are one value:
    \<open>toJSON\<close> turns nil services into the empty array itself, and after \<open>recordMap\<close> the encoder of \<open>lookup\<close>
    writes \<open>null\<close> for one and \<open>[]\<close> for the other.
  \<^item> The transports: connections, deadlines and flow control of \<open>net/http\<close> and gRPC are the steps of \<^theory_text>\<open>Serve\<close>.
  \<^item> Usage texts, and the layout of formatted messages: a message is its format with its arguments.
  \<^item> Infinities, NaN and subnormal floats: the operands are fractions of counts and the limits given
    as flags. \<open>strconv.ParseFloat\<close> is modelled on decimal notation.
  \<^item> Allocation and the capacities of slices and maps.
  \<^item> Tests and benchmarks (\<open>bench/\<close>, \<open>internal/nginxtest\<close>) and the deployment files (\<open>deploy/\<close>).
\<close>

section \<open>From the stream of entries to a lookup\<close>

text \<open>
  What a reader of the written tree promises: every address is looked up without an error, is
  found exactly when its slot holds a value, in a network that contains it, and a record of
  the schema decodes to its fields. (A v4-mapped address has the slot of the IPv4 address.)
\<close>

definition serves :: "('h, 'fs) maxminddb \<Rightarrow> 'h \<Rightarrow> (addr \<Rightarrow> mmdb option) \<Rightarrow> bool" where
  "serves M h slot \<longleftrightarrow> (\<forall>a. plain a \<longrightarrow>
     ResErr (LookupAddr M h a) = None \<and> Found (LookupAddr M h a) = (slot (Unmap a) \<noteq> None) \<and>
     prefix_wf (ResPrefix (LookupAddr M h a)) \<and> a \<in> prefix_span (ResPrefix (LookupAddr M h a)) \<and>
     (\<forall>m. slot (Unmap a) = Some (MMap m) \<and> schema_ok m \<longrightarrow>
        DecodeStored M h (LookupAddr M h a) = Inr (stored_of m)))"

lemma servesD:
  assumes "serves M h slot" "plain a"
  shows "ResErr (LookupAddr M h a) = None" "Found (LookupAddr M h a) = (slot (Unmap a) \<noteq> None)"
    "prefix_wf (ResPrefix (LookupAddr M h a))" "a \<in> prefix_span (ResPrefix (LookupAddr M h a))"
    "slot (Unmap a) = Some (MMap m) \<Longrightarrow> schema_ok m \<Longrightarrow>
      DecodeStored M h (LookupAddr M h a) = Inr (stored_of m)"
  using assms unfolding serves_def by blast+

text \<open>The reported network contains the queried address, in native form where it was v4-mapped.\<close>

lemma unmapPrefix_contains:
  assumes "prefix_wf p" "a \<in> prefix_span p"
  shows "a \<in> prefix_span (unmapPrefix p) \<or> Unmap a \<in> prefix_span (unmapPrefix p)"
proof (cases "Is4In6 (paddr p) \<and> 96 \<le> Bits p")
  case True
  then have "normalizePrefix p = Some (unmapPrefix p)"
    by (simp add: normalizePrefix_def unmapPrefix_def Let_def)
  then have "prefix_span (unmapPrefix p) = Unmap ` prefix_span p"
    using normalizePrefix_span [OF assms(1)] True by blast
  then show ?thesis using assms(2) by blast
next
  case False
  then have "unmapPrefix p = p" by (auto simp: unmapPrefix_def)
  then show ?thesis using assms(2) by simp
qed

text \<open>The record of a lookup, in terms of the entries that cover the address.\<close>

definition attributed :: "Entry list \<Rightarrow> Record \<Rightarrow> bool" where
  "attributed covers rec \<longleftrightarrow> (case covers of [] \<Rightarrow> False
     | e # _ \<Rightarrow>
       (let own = filter (\<lambda>e'. Provider (Rec e') = Provider (Rec e)) covers in
        Provider rec = Provider (Rec e) \<and> Region rec = Region (Rec e) \<and> Source rec = Source (Rec e) \<and>
        IPv6 rec = isV6Network (normalized e) \<and>
        set (Categories rec) = (\<Union>e' \<in> set covers. set (Categories (Rec e'))) \<and>
        set (Services rec) = (\<Union>e' \<in> set own. set (Services (Rec e'))) \<and>
        Ext rec = foldl (++) Map.empty (map (\<lambda>e'. nonempty_ext (Rec e')) own)))"

lemma stored_record_views:
  assumes "v = MMap m"
  shows "stored_ident v = (Provider (toRecord (stored_of m)), Region (toRecord (stored_of m)),
      IPv6 (toRecord (stored_of m)), Source (toRecord (stored_of m)))"
    and "stored_categories v = set (Categories (toRecord (stored_of m)))"
    and "stored_services v = set (Services (toRecord (stored_of m)))"
    and "stored_ext v = Ext (toRecord (stored_of m))"
  using assms by (simp_all add: stored_views stored_of_def toRecord_def Let_def)

lemma slot_attributed:
  assumes "covers \<noteq> []"
  obtains m where "slot_merge (map entry_map covers) = Some (MMap m)" "schema_ok m"
    "attributed covers (toRecord (stored_of m))"
proof -
  obtain e es where covers: "covers = e # es" using assms by (cases covers) auto
  define f where "f e = (Rec e, isV6Network (normalized e))" for e
  have em: "map entry_map covers = map (\<lambda>(r, b). toMMDB r b) (f e # map f es)"
    by (simp add: covers f_def entry_map_def)
  have own: "filter (\<lambda>(r, b). Provider r = Provider (Rec e)) (map f es) =
      map f (filter (\<lambda>e'. Provider (Rec e') = Provider (Rec e)) es)"
    by (induction es) (simp_all add: f_def)
  obtain v where v: "slot_merge (map entry_map covers) = Some v" "record_ok v"
      "stored_ident v = (Provider (Rec e), Region (Rec e), isV6Network (normalized e), Source (Rec e))"
      "stored_categories v = (\<Union>(r, b) \<in> set (f e # map f es). set (Categories r))"
      "stored_services v = set (Services (Rec e)) \<union>
        (\<Union>(r, b) \<in> set (map f (filter (\<lambda>e'. Provider (Rec e') = Provider (Rec e)) es)). set (Services r))"
      "stored_ext v = foldl (++) (nonempty_ext (Rec e)) (map (\<lambda>(r, b). nonempty_ext r)
        (map f (filter (\<lambda>e'. Provider (Rec e') = Provider (Rec e)) es)))"
    using slot_merge_run [of "Rec e" "isV6Network (normalized e)" "map f es"]
    unfolding em own by (auto simp: f_def Let_def)
  then obtain m where m: "v = MMap m" "schema_ok m" by (auto simp: record_ok_def)
  have "attributed covers (toRecord (stored_of m))"
    using v(3-6) unfolding stored_record_views [OF m(1)] attributed_def covers
    by (simp add: Let_def f_def split_def comp_def)
  then show ?thesis using that v(1) m by simp
qed

text \<open>What a lookup answers, in terms of the inserted entries.\<close>

definition answered :: "('h, 'fs) maxminddb \<Rightarrow> (IPNet \<Rightarrow> addr \<Rightarrow> bool) \<Rightarrow> 'h DB \<Rightarrow> Entry list \<Rightarrow> addr \<Rightarrow> bool" where
  "answered M covers db acc a \<longleftrightarrow>
     (let covers = filter (entry_covers covers (Unmap a)) acc in
      case DB_Lookup M db a of
        Inl _ \<Rightarrow> False
      | Inr None \<Rightarrow> covers = [] \<and> \<not> Contains M db a
      | Inr (Some rec) \<Rightarrow> attributed covers (rec\<lparr>RecNetwork := zeroPrefix\<rparr>) \<and> Contains M db a \<and>
          (a \<in> prefix_span (RecNetwork rec) \<or> Unmap a \<in> prefix_span (RecNetwork rec)))"

lemma slot_answered:
  assumes "serves M (rdr db) slot" "plain a"
    and "slot (Unmap a) = slot_merge (map entry_map (filter (entry_covers covers (Unmap a)) acc))"
  shows "answered M covers db acc a"
proof -
  note serves = servesD [OF assms(1,2)]
  let ?covers = "filter (entry_covers covers (Unmap a)) acc"
  show ?thesis
  proof (cases "?covers = []")
    case True
    then have "slot (Unmap a) = None" using assms(3) by simp
    then show ?thesis using serves(1,2) True by (simp add: answered_def DB_Lookup_def Contains_def Let_def)
  next
    case False
    obtain m where m: "slot_merge (map entry_map ?covers) = Some (MMap m)" "schema_ok m"
        "attributed ?covers (toRecord (stored_of m))"
      using slot_attributed [OF False] by blast
    then have slot: "slot (Unmap a) = Some (MMap m)" using assms(3) by simp
    let ?rec = "(toRecord (stored_of m))\<lparr>RecNetwork := unmapPrefix (ResPrefix (LookupAddr M (rdr db) a))\<rparr>"
    have "DB_Lookup M db a = Inr (Some ?rec)" "Contains M db a"
      using serves(1,2) serves(5) [OF slot m(2)] slot by (simp_all add: DB_Lookup_def Contains_def Let_def)
    moreover have "?rec\<lparr>RecNetwork := zeroPrefix\<rparr> = toRecord (stored_of m)" by (simp add: toRecord_def Let_def)
    then have "attributed ?covers (?rec\<lparr>RecNetwork := zeroPrefix\<rparr>)" using m(3) by simp
    ultimately show ?thesis
      using unmapPrefix_contains [OF serves(3,4)] by (simp add: answered_def Let_def)
  qed
qed

text \<open>
  C1. The chain from the stream of entries to an answer. After a successful build, a lookup of
  an address in the database finds nothing when none of the inserted entries covers it, and
  otherwise a record with the identity of the first entry in the stream that does, the
  categories of all that do, and the services and ext values of those of its provider; the
  reported network contains the address.
\<close>

theorem Build_then_Lookup:
  assumes "tree_contract W get covers" and "Build W (seq_of xs) out opts env = (out', sts, None, env')"
    and "\<And>t. WriteTo W t out = (out', None) \<Longrightarrow> serves M (rdr db) (get t)"
  shows "\<exists>es acc. xs = map Inr es \<and> subseq acc es \<and> length acc = Inserted sts \<and>
    (\<forall>a. plain a \<longrightarrow> answered M covers db acc a)"
proof -
  obtain es acc t where run: "xs = map Inr es" "subseq acc es" "Inserted sts = length acc"
      "WriteTo W t out = (out', None)"
      "\<forall>p. get t p = slot_merge (map entry_map (filter (entry_covers covers p) acc))"
    using Build_success_run [OF assms(1,2)] by blast
  have "answered M covers db acc a" if "plain a" for a
    using slot_answered [OF assms(3) [OF run(4)] that] run(5) by blast
  then show ?thesis using run(1-3) by auto
qed

text \<open>A reader of the slots themselves: a database of the written function, read by address.\<close>

definition slot_reader :: "(addr \<Rightarrow> mmdb option, unit) maxminddb" where
  "slot_reader =
     \<lparr>OpenReader = (\<lambda>_ w. (Inl (LibErr ''no such file'' []), w)), OpenReaderBytes = (\<lambda>_. Inl (LibErr ''bytes'' [])),
      CloseReader = (\<lambda>_ w. (None, w)),
      ReaderMetadata = (\<lambda>_. \<lparr>MetaDatabaseType = databaseType, NodeCount = 1, RecordBits = 28, MetaBuildTime = zeroTime\<rparr>),
      LookupAddr = (\<lambda>h a. \<lparr>ResErr = None, Found = h (Unmap a) \<noteq> None, Offset = 0, ResPrefix = host_prefix a\<rparr>),
      ReaderNetworks = (\<lambda>_. []),
      DecodeStored = (\<lambda>h r. case h (Unmap (paddr (ResPrefix r))) of
          Some (MMap m) \<Rightarrow> Inr (stored_of m) | _ \<Rightarrow> Inl (LibErr ''decode'' [])),
      DecodeMini = (\<lambda>h r. Inl (LibErr ''decode'' []))\<rparr>"

lemma slot_reader_serves: "serves slot_reader h h"
proof -
  have "prefix_wf (host_prefix a) \<and> a \<in> prefix_span (host_prefix a) \<and> paddr (host_prefix a) = a" if "plain a" for a
    using host_prefix_span [OF that] by (simp add: host_prefix_def)
  then show ?thesis by (auto simp: serves_def slot_reader_def)
qed


text \<open>52.94.0.0/22 again, as a network of Tor exits.\<close>

definition sample_tor :: Entry where
  "sample_tor = \<lparr>Network = Prefix (Addr 0xffff345e0000 Z4) 23,
     Rec = zeroRecord\<lparr>Provider := ''tor'', Categories := [''tor_exit'']\<rparr>\<rparr>"

lemma sample_tor_simps [simp]:
  "normalizePrefix (Network sample_tor) = Some (Prefix (Addr 0xffff345e0000 Z4) 23)"
  "prefix_IsValid (Network sample_tor)"
  by (simp_all add: sample_tor_def normalizePrefix_def Is4In6_def Is6_def prefix_IsValid_def)

lemma sample_fields:
  "Services (Rec (sample_entry p s)) = [s]" "Categories (Rec (sample_entry p s)) = []"
  "Provider (Rec sample_tor) = ''tor''" "Services (Rec sample_tor) = []" "Categories (Rec sample_tor) = [''tor_exit'']"
  by (simp_all add: sample_entry_def sample_tor_def zeroRecord_def)

theorem Build_then_Lookup_witness:
  "\<exists>tree rec. DB_Lookup slot_reader \<lparr>rdr = tree, idx = None\<rparr> (AddrFrom4 0x345e0001) = Inr (Some rec) \<and>
     Provider rec = ''aws'' \<and> set (Services rec) = {''S3'', ''EC2''} \<and> set (Categories rec) = {''tor_exit''}"
proof -
  let ?es = "[sample_entry ''aws'' ''EC2'', sample_entry ''aws'' ''S3'', sample_tor]"
  obtain tree where b: "Build function_writer (seq_of (map Inr ?es)) (\<lambda>a. None) sample_opts ((), ()) =
      (tree, \<lparr>Inserted = length ?es, Skipped = 0\<rparr>, None, ((), ()))"
    using function_writer_build [of ?es "\<lambda>a. None" sample_opts "((), ())"] by auto
  let ?db = "\<lparr>rdr = tree, idx = None\<rparr>"
  have serves: "serves slot_reader (rdr ?db) (\<lambda>a. t a)" if "WriteTo function_writer t (\<lambda>a. None) = (tree, None)" for t
    using that slot_reader_serves by (simp add: function_writer_def)
  let ?a = "AddrFrom4 0x345e0001"
  have "\<exists>es acc. map Inr ?es = (map Inr es :: item list) \<and> subseq acc es \<and>
      length acc = Inserted \<lparr>Inserted = length ?es, Skipped = 0\<rparr> \<and>
      (\<forall>a. plain a \<longrightarrow> answered slot_reader ipnet_covers ?db acc a)"
    by (rule Build_then_Lookup [OF function_writer_contract b]) (rule serves)
  then obtain es acc where
    r: "map Inr ?es = (map Inr es :: item list)" "subseq acc es" "length acc = Inserted \<lparr>Inserted = length ?es, Skipped = 0\<rparr>"
      "\<forall>a. plain a \<longrightarrow> answered slot_reader ipnet_covers ?db acc a"
    by (elim exE conjE) (rule that)
  have "es = ?es" using inj_map_eq_map [OF inj_Inr, of ?es es] r(1) by blast
  moreover have "length acc = length ?es" using r(3) by simp
  ultimately have acc: "acc = ?es" using r(2) by (metis subseq_same_length)
  have covers: "filter (entry_covers ipnet_covers (Unmap ?a)) acc = ?es"
  proof -
    have "list_all (entry_covers ipnet_covers (Unmap ?a)) ?es" by code_simp
    then show ?thesis unfolding acc by simp
  qed
  have "answered slot_reader ipnet_covers ?db acc ?a" using r(4) AddrFrom4_wf by blast
  then obtain rec where rec: "DB_Lookup slot_reader ?db ?a = Inr (Some rec)"
      "attributed ?es (rec\<lparr>RecNetwork := zeroPrefix\<rparr>)"
    unfolding answered_def covers Let_def by (auto split: sum.splits option.splits)
  have "Provider rec = ''aws'' \<and> set (Services rec) = {''S3'', ''EC2''} \<and> set (Categories rec) = {''tor_exit''}"
    using rec(2) by (simp add: attributed_def sample_fields)
  then show ?thesis using rec(1) by (intro exI [of _ tree] exI [of _ rec]) simp
qed

end
